(* ===== verification/Prelude.thy ===== *)
theory Prelude
  imports Main "HOL-Library.Word" "HOL-Library.State_Monad"
begin

unbundle bit_operations_syntax

named_theorems nonpos \<open>results that are zero or a negative error number in every world\<close>
named_theorems path_parts \<open>definitions that compute the parts of a concrete path\<close>

text \<open>
  What every component of the model shares: the C types at their widths, the reading of a
  stateful C function as a value of the library's state monad, results that may be undefined
  behaviour, and little-endian byte representations of machine words.

  A C function that talks to the outside world (the Couchbase server, the clock, the heap) is a
  value of type \<open>('w, 'a) state\<close>, where \<open>'w\<close> is the outside world, about which nothing is
  assumed. \<open>result_of m w\<close> is what the call returns when it starts in the world \<open>w\<close>, and
  \<open>after m w\<close> is the world it leaves. Their equations for sequencing are simplification
  rules, so the simplifier runs a handler statement by statement.
\<close>

section \<open>Types of the C program\<close>

type_synonym byte = "8 word"
type_synonym size_t = "64 word"
type_synonym unsigned = "32 word"
type_synonym off_t = "64 word"   \<comment> \<open>a signed 64-bit offset: compared through \<open>sint\<close>\<close>
type_synonym mode_t = "16 word"
type_synonym cas_t = "64 word"

text \<open>\<open>(int) n\<close> for a \<open>size_t\<close>: the low 32 bits read as two's complement.\<close>

definition int_of_size :: "size_t \<Rightarrow> int" where
  "int_of_size n = signed_take_bit 31 (uint n)"

text \<open>A computation that is undefined behaviour in C (a read or write outside an allocation).\<close>

datatype 'a c_result = Defined 'a | Undefined

section \<open>Running stateful code\<close>

definition result_of :: "('w, 'a) state \<Rightarrow> 'w \<Rightarrow> 'a" where
  "result_of m w = fst (run_state m w)"

definition after :: "('w, 'a) state \<Rightarrow> 'w \<Rightarrow> 'w" where
  "after m w = snd (run_state m w)"

lemma result_of_return [simp]: "result_of (State_Monad.return x) w = x"
  by (simp add: result_of_def)

lemma after_return [simp]: "after (State_Monad.return x) w = w"
  by (simp add: after_def)

lemma result_of_bind [simp]:
  "result_of (State_Monad.bind m f) w = result_of (f (result_of m w)) (after m w)"
  by (simp add: result_of_def after_def split: prod.split)

lemma after_bind [simp]:
  "after (State_Monad.bind m f) w = after (f (result_of m w)) (after m w)"
  by (simp add: result_of_def after_def split: prod.split)

text \<open>Two computations with the same results and worlds are the same.\<close>

lemma state_eqI: "(\<And>w. result_of p w = result_of q w) \<Longrightarrow> (\<And>w. after p w = after q w) \<Longrightarrow> p = q"
  by (cases p; cases q) (auto simp: result_of_def after_def fun_eq_iff prod_eq_iff)

lemma result_of_if [simp]:
  "result_of (if b then m else n) w = (if b then result_of m w else result_of n w)"
  by simp

lemma after_if [simp]:
  "after (if b then m else n) w = (if b then after m w else after n w)"
  by simp

lemma result_of_State [simp]: "result_of (State f) w = fst (f w)"
  by (simp add: result_of_def)

lemma after_State [simp]: "after (State f) w = snd (f w)"
  by (simp add: after_def)

text \<open>The equations that split a pair returned by a call into its components.\<close>

lemma result_of_case_prod [simp]:
  "result_of (case p of (a, b) \<Rightarrow> f a b) w = result_of (f (fst p) (snd p)) w"
  by (cases p) simp

lemma after_case_prod [simp]:
  "after (case p of (a, b) \<Rightarrow> f a b) w = after (f (fst p) (snd p)) w"
  by (cases p) simp

section \<open>Bytes of machine words\<close>

primrec le_bytes :: "nat \<Rightarrow> 'a::len word \<Rightarrow> byte list" where
  "le_bytes 0 x = []"
| "le_bytes (Suc n) x = ucast x # le_bytes n (drop_bit 8 x)"

primrec word_of_le :: "byte list \<Rightarrow> 'a::len word" where
  "word_of_le [] = 0"
| "word_of_le (b # bs) = ucast b OR push_bit 8 (word_of_le bs)"

lemma length_le_bytes [simp]: "length (le_bytes n x) = n"
  by (induction n arbitrary: x) auto

lemma bit_word_of_le_le_bytes:
  "bit (word_of_le (le_bytes n (x :: 'a::len word)) :: 'a word) k \<longleftrightarrow> k < 8 * n \<and> bit x k"
proof (induction n arbitrary: x k)
  case 0
  then show ?case by simp
next
  case (Suc n)
  show ?case
  proof (cases "k < 8")
    case True
    then show ?thesis
      by (auto simp: bit_or_iff bit_push_bit_iff bit_ucast_iff bit_imp_le_length)
  next
    case False
    then obtain j where k: "k = 8 + j" by (metis le_add_diff_inverse not_less)
    show ?thesis
      unfolding k
      by (auto simp: bit_or_iff bit_push_bit_iff bit_ucast_iff Suc.IH bit_drop_bit_eq
          dest: bit_imp_le_length)
  qed
qed

lemma word_of_le_le_bytes:
  assumes "LENGTH('a) \<le> 8 * n"
  shows "word_of_le (le_bytes n (x :: 'a::len word)) = x"
  by (rule bit_eqI) (use assms in \<open>auto simp: bit_word_of_le_le_bytes dest: bit_imp_le_length\<close>)

lemma bit_word_of_le:
  "8 * length bs \<le> LENGTH('a) \<Longrightarrow>
   bit (word_of_le bs :: 'a::len word) k \<longleftrightarrow> k < 8 * length bs \<and> bit (bs ! (k div 8)) (k mod 8)"
proof (induction bs arbitrary: k)
  case Nil
  then show ?case by simp
next
  case (Cons b bs)
  show ?case
  proof (cases "k < 8")
    case True
    with Cons.prems show ?thesis
      by (auto simp: bit_or_iff bit_push_bit_iff bit_ucast_iff)
  next
    case False
    then obtain j where k: "k = 8 + j" by (metis le_add_diff_inverse not_less)
    have "\<not> bit b (8 + j)" by (auto dest: bit_imp_le_length)
    moreover have "bit (word_of_le bs :: 'a word) j \<longleftrightarrow> j < 8 * length bs \<and> bit (bs ! (j div 8)) (j mod 8)"
      using Cons by simp
    ultimately show ?thesis
      unfolding k using Cons.prems
      by (auto simp: bit_or_iff bit_push_bit_iff bit_ucast_iff div_add_self1 Suc_diff_le)
  qed
qed

lemma le_bytes_word_of_le:
  "8 * length bs \<le> LENGTH('a) \<Longrightarrow> le_bytes (length bs) (word_of_le bs :: 'a::len word) = bs"
proof (induction bs)
  case Nil
  then show ?case by simp
next
  case (Cons b bs)
  let ?v = "word_of_le bs :: 'a word"
  have len: "8 + 8 * length bs \<le> LENGTH('a)" using Cons.prems by simp
  have lo: "ucast (ucast b OR push_bit 8 ?v) = b"
    by (rule bit_eqI) (use len in \<open>auto simp: bit_ucast_iff bit_or_iff bit_push_bit_iff
        dest: bit_imp_le_length\<close>)
  have "bit ?v k \<Longrightarrow> k < 8 * length bs" for k
    using bit_word_of_le [of bs k, where 'a = 'a] len by simp
  then have hi: "drop_bit 8 (ucast b OR push_bit 8 ?v) = ?v"
    by (intro bit_eqI) (use len in \<open>fastforce simp: bit_drop_bit_eq bit_or_iff bit_push_bit_iff
        bit_ucast_iff dest: bit_imp_le_length\<close>)
  show ?case using Cons.IH len by (simp add: lo hi del: drop_bit_or)
qed

section \<open>Unsigned sizes\<close>

lemma unat_add_size:
  "unat (a :: size_t) + unat b < 2 ^ 64 \<Longrightarrow> unat (a + b) = unat a + unat b"
  by (simp add: unat_word_ariths)

lemma unat_of_nat_size [simp]: "n < 2 ^ 64 \<Longrightarrow> unat (of_nat n :: size_t) = n"
  by (simp add: unat_of_nat)

lemma int_of_size_small: "unat n < 2 ^ 31 \<Longrightarrow> int_of_size n = int (unat n)"
  by (simp add: int_of_size_def uint_nat signed_take_bit_int_eq_self_iff del: of_nat_unat)

lemma sint_nonneg_unat: "0 \<le> sint (x :: 64 word) \<Longrightarrow> sint x = int (unat x)"
proof -
  assume "0 \<le> sint x"
  then have "\<not> bit (uint x) 63"
    by (simp add: sint_uint signed_take_bit_nonnegative_iff)
  moreover have "take_bit 64 (uint x) = uint x"
    using uint_lt2p [of x] by (simp add: take_bit_int_eq_self_iff)
  ultimately show ?thesis
    by (simp add: sint_uint signed_take_bit_eq_take_bit_minus)
qed

lemma sint_eq_unat: "unat (x :: 64 word) < 2 ^ 63 \<Longrightarrow> sint x = int (unat x)"
  by (simp add: sint_uint uint_nat signed_take_bit_int_eq_self_iff del: of_nat_unat)

end
