(* ===== verification/CLib.thy ===== *)
theory CLib
  imports Prelude
begin

text \<open>
  What the program uses of the C library and the POSIX headers: the error numbers and file-type
  macros (with the values of Darwin, the platform the sources are built and tested on), and
  \<open>dirname\<close> and \<open>basename\<close> of \<open>libgen.h\<close> as POSIX specifies them. Paths are C strings, lists
  of bytes without the terminating NUL.

  The second half is about the paths FUSE hands to the file system: absolute, without empty
  components and without a trailing slash. \<open>join d c\<close> is the path of the entry \<open>c\<close> of the
  directory \<open>d\<close>; on such paths \<open>dirname\<close> and \<open>basename\<close> invert it.
\<close>

section \<open>Error numbers and file modes\<close>

abbreviation "ENOENT \<equiv> (2 :: int)"
abbreviation "EIO \<equiv> (5 :: int)"
abbreviation "EBADF \<equiv> (9 :: int)"
abbreviation "ENOMEM \<equiv> (12 :: int)"
abbreviation "EINVAL \<equiv> (22 :: int)"
abbreviation "EFBIG \<equiv> (27 :: int)"
abbreviation "ENAMETOOLONG \<equiv> (63 :: int)"
abbreviation "EXIT_FAILURE \<equiv> (1 :: int)"

abbreviation "S_IFMT \<equiv> (0xF000 :: mode_t)"
abbreviation "S_IFDIR \<equiv> (0x4000 :: mode_t)"
abbreviation "S_IFREG \<equiv> (0x8000 :: mode_t)"

definition S_ISREG :: "mode_t \<Rightarrow> bool" where
  "S_ISREG m \<longleftrightarrow> m AND S_IFMT = S_IFREG"

definition S_ISDIR :: "mode_t \<Rightarrow> bool" where
  "S_ISDIR m \<longleftrightarrow> m AND S_IFMT = S_IFDIR"

text \<open>
  A time stamp of the C library; \<open>time_t\<close> and \<open>long\<close> have 64 bits. The source's markers
  \<open>UTIME_NOW\<close> (-1) and \<open>UTIME_OMIT\<close> (-2) stand in the nanosecond field.
\<close>

record timespec =
  tv_sec :: "64 word"
  tv_nsec :: "64 word"

section \<open>dirname and basename\<close>

abbreviation slash :: char where "slash \<equiv> CHR ''/''"

definition is_slash :: "char \<Rightarrow> bool" where
  "is_slash c \<longleftrightarrow> c = slash"

text \<open>A string without its trailing slashes.\<close>

definition strip_slashes :: "string \<Rightarrow> string" where
  "strip_slashes p = rev (dropWhile is_slash (rev p))"

text \<open>The part of a string up to and with its last slash, and the part behind it.\<close>

definition upto_slash :: "string \<Rightarrow> string" where
  "upto_slash p = rev (dropWhile (\<lambda>c. \<not> is_slash c) (rev p))"

definition behind_slash :: "string \<Rightarrow> string" where
  "behind_slash p = rev (takeWhile (\<lambda>c. \<not> is_slash c) (rev p))"

text \<open>
  POSIX: trailing slashes do not count; a path of slashes only is the root; a path without a
  slash lies in the directory \<open>.\<close>. Implementations with an internal buffer return NULL when
  the result does not fit it (Darwin: \<open>MAXPATHLEN\<close> = 1024 bytes with the NUL).
\<close>

definition MAXPATHLEN :: nat where "MAXPATHLEN = 1024"

definition path_buffer :: "string \<Rightarrow> string option" where
  "path_buffer s = (if length s < MAXPATHLEN then Some s else None)"

definition dir_part :: "string \<Rightarrow> string" where
  "dir_part p =
     (let s = strip_slashes p; d = strip_slashes (upto_slash s)
      in if p = [] then ''.''
         else if s = [] then ''/''
         else if upto_slash s = [] then ''.''
         else if d = [] then ''/'' else d)"

definition base_part :: "string \<Rightarrow> string" where
  "base_part p =
     (let s = strip_slashes p
      in if p = [] then ''.'' else if s = [] then ''/'' else behind_slash s)"

definition dirname :: "string \<Rightarrow> string option" where
  "dirname p = path_buffer (dir_part p)"

definition basename :: "string \<Rightarrow> string option" where
  "basename p = path_buffer (base_part p)"

section \<open>Paths as FUSE passes them\<close>

text \<open>\<open>name_ok c\<close>: a component (not empty, no slash). \<open>dir_ok d\<close>: the root, or a path that
  starts with a slash and does not end in one.\<close>

definition name_ok :: "string \<Rightarrow> bool" where
  "name_ok c \<longleftrightarrow> c \<noteq> [] \<and> (\<forall>x \<in> set c. \<not> is_slash x)"

definition dir_ok :: "string \<Rightarrow> bool" where
  "dir_ok d \<longleftrightarrow> d = ''/'' \<or> (d \<noteq> [] \<and> is_slash (hd d) \<and> \<not> is_slash (last d))"

definition join :: "string \<Rightarrow> string \<Rightarrow> string" where
  "join d c = (if d = ''/'' then slash # c else d @ slash # c)"

text \<open>A path of an entry other than the root.\<close>

definition path_ok :: "string \<Rightarrow> bool" where
  "path_ok p \<longleftrightarrow> dir_ok (dir_part p) \<and> name_ok (base_part p) \<and> p = join (dir_part p) (base_part p)"

lemmas path_defs [path_parts] = is_slash_def strip_slashes_def upto_slash_def behind_slash_def
  dir_part_def base_part_def name_ok_def dir_ok_def join_def path_ok_def

lemma strip_slashes_append [simp]:
  "\<not> is_slash x \<Longrightarrow> strip_slashes (p @ [x]) = p @ [x]"
  by (simp add: strip_slashes_def)

lemma strip_slashes_slash [simp]: "strip_slashes (p @ [slash]) = strip_slashes p"
  by (simp add: strip_slashes_def is_slash_def)

lemma strip_slashes_id: "p \<noteq> [] \<Longrightarrow> \<not> is_slash (last p) \<Longrightarrow> strip_slashes p = p"
  by (metis append_butlast_last_id strip_slashes_append)

lemma strip_slashes_Nil [simp]: "strip_slashes [] = []"
  by (simp add: strip_slashes_def)

lemma name_takeWhile:
  "name_ok c \<Longrightarrow> takeWhile (\<lambda>x. \<not> is_slash x) (rev c @ slash # q) = rev c"
  "name_ok c \<Longrightarrow> dropWhile (\<lambda>x. \<not> is_slash x) (rev c @ slash # q) = slash # q"
  by (subst takeWhile_append2 dropWhile_append2; auto simp: name_ok_def is_slash_def)+

lemma split_at_name:
  assumes "name_ok c"
  shows "upto_slash (q @ slash # c) = q @ [slash]" and "behind_slash (q @ slash # c) = c"
  using name_takeWhile [OF assms, of "rev q"] by (simp_all add: upto_slash_def behind_slash_def)

lemma strip_name: "name_ok c \<Longrightarrow> strip_slashes (q @ slash # c) = q @ slash # c"
  by (rule strip_slashes_id) (auto simp: name_ok_def)

lemma join_nonempty [simp]: "join d c \<noteq> []" "join d c \<noteq> ''/'' \<longleftrightarrow> c \<noteq> [] \<or> (d \<noteq> ''/'' \<and> d \<noteq> [])"
  by (auto simp: join_def append_eq_Cons_conv)

lemma dir_part_join [simp]:
  assumes "dir_ok d" and c: "name_ok c"
  shows "dir_part (join d c) = d"
proof (cases "d = ''/''")
  case True
  then show ?thesis
    using split_at_name [OF c, of "[]"] strip_name [OF c, of "[]"] strip_slashes_slash [of "[]"]
    by (simp add: join_def dir_part_def)
next
  case False
  with assms have d: "d \<noteq> []" "\<not> is_slash (last d)" by (auto simp: dir_ok_def)
  with False show ?thesis
    using split_at_name [OF c, of d] strip_name [OF c, of d]
    by (simp add: join_def dir_part_def strip_slashes_id Let_def)
qed

lemma base_part_join [simp]:
  assumes "name_ok c"
  shows "base_part (join d c) = c"
  using split_at_name(2) [OF assms] strip_name [OF assms, of d] strip_name [OF assms, of "[]"]
    split_at_name(2) [OF assms, of "[]"]
  by (simp add: join_def base_part_def)

lemma path_ok_join [simp]: "dir_ok d \<Longrightarrow> name_ok c \<Longrightarrow> path_ok (join d c)"
  by (simp add: path_ok_def)

lemma path_okE:
  assumes "path_ok p"
  obtains d c where "p = join d c" and "dir_ok d" and "name_ok c"
  using assms unfolding path_ok_def by blast

lemma join_inject:
  assumes "dir_ok d" "dir_ok e" "name_ok b" "name_ok c"
  shows "join d b = join e c \<longleftrightarrow> d = e \<and> b = c"
  using dir_part_join [OF assms(1,3)] dir_part_join [OF assms(2,4)]
    base_part_join [OF assms(3), of d] base_part_join [OF assms(4), of e] by metis

lemma path_ok_not_root: "path_ok p \<Longrightarrow> p \<noteq> ''/''"
  by (erule path_okE) (auto simp: name_ok_def join_def append_eq_Cons_conv)

lemma path_ok_dir_ok: "path_ok p \<Longrightarrow> dir_ok p"
proof (erule path_okE)
  fix d c
  assume p: "p = join d c" and d: "dir_ok d" and c: "name_ok c"
  have "\<not> is_slash (last c)" using c by (auto simp: name_ok_def)
  moreover have "c \<noteq> []" using c by (simp add: name_ok_def)
  moreover have "d = ''/'' \<or> (d \<noteq> [] \<and> is_slash (hd d))" using d by (auto simp: dir_ok_def)
  ultimately show "dir_ok p"
    by (auto simp: p join_def dir_ok_def is_slash_def hd_append)
qed

lemma length_join_parts: "length d \<le> length (join d c)" "length c \<le> length (join d c)"
  by (auto simp: join_def)

lemma dirname_Some:
  "path_ok p \<Longrightarrow> length p < MAXPATHLEN \<Longrightarrow> dirname p = Some (dir_part p)"
  using length_join_parts(1) [of "dir_part p" "base_part p"]
  by (simp add: path_ok_def dirname_def path_buffer_def)

lemma basename_Some:
  "path_ok p \<Longrightarrow> length p < MAXPATHLEN \<Longrightarrow> basename p = Some (base_part p)"
  using length_join_parts(2) [of "base_part p" "dir_part p"]
  by (simp add: path_ok_def basename_def path_buffer_def)

end
