(* ===== verification/Common.thy ===== *)
theory Common
  imports CLib
begin

text \<open>
  The constants of \<open>cbfuse/common.c\<close>: limits, collection names, the root directory and the keys
  of a directory entry. \<open>20 * 1024 * 1024\<close> is computed in C's \<open>int\<close> and fits; the file limit is
  a product of two \<open>size_t\<close> values and does not wrap.
\<close>

definition MAX_KEY_LEN :: size_t where "MAX_KEY_LEN = 250"
definition MAX_DOC_LEN :: size_t where "MAX_DOC_LEN = 20 * 1024 * 1024"
definition MAX_PATH_LEN :: size_t where "MAX_PATH_LEN = MAX_KEY_LEN"
definition MAX_FILE_BLOCKS :: size_t where "MAX_FILE_BLOCKS = 256"
definition MAX_FILE_LEN :: size_t where "MAX_FILE_LEN = MAX_FILE_BLOCKS * MAX_DOC_LEN"

definition DEFAULT_SCOPE_STRING :: "string option" where "DEFAULT_SCOPE_STRING = None"
definition ROOT_DIR_STRING :: string where "ROOT_DIR_STRING = ''/''"
definition STATS_COLLECTION_STRING :: string where "STATS_COLLECTION_STRING = ''stats''"
definition DENTRIES_COLLECTION_STRING :: string where "DENTRIES_COLLECTION_STRING = ''dentries''"
definition BLOCKS_COLLECTION_STRING :: string where "BLOCKS_COLLECTION_STRING = ''blocks''"
definition DENTRY_DIR_PATH :: string where "DENTRY_DIR_PATH = ''d''"
definition DENTRY_PAR_PATH :: string where "DENTRY_PAR_PATH = ''p''"
definition DENTRY_CHILDREN :: string where "DENTRY_CHILDREN = ''c''"

text \<open>The collections are distinct, so an operation on one leaves the others alone.\<close>

lemma collections_distinct [simp]:
  "STATS_COLLECTION_STRING \<noteq> DENTRIES_COLLECTION_STRING"
  "DENTRIES_COLLECTION_STRING \<noteq> STATS_COLLECTION_STRING"
  "STATS_COLLECTION_STRING \<noteq> BLOCKS_COLLECTION_STRING"
  "BLOCKS_COLLECTION_STRING \<noteq> STATS_COLLECTION_STRING"
  "DENTRIES_COLLECTION_STRING \<noteq> BLOCKS_COLLECTION_STRING"
  "BLOCKS_COLLECTION_STRING \<noteq> DENTRIES_COLLECTION_STRING"
  by (simp_all add: STATS_COLLECTION_STRING_def DENTRIES_COLLECTION_STRING_def
      BLOCKS_COLLECTION_STRING_def)

lemma dentry_keys_distinct [simp]:
  "DENTRY_DIR_PATH \<noteq> DENTRY_CHILDREN" "DENTRY_PAR_PATH \<noteq> DENTRY_CHILDREN"
  "DENTRY_CHILDREN \<noteq> DENTRY_DIR_PATH" "DENTRY_CHILDREN \<noteq> DENTRY_PAR_PATH"
  "DENTRY_DIR_PATH \<noteq> DENTRY_PAR_PATH" "DENTRY_PAR_PATH \<noteq> DENTRY_DIR_PATH"
  by (simp_all add: DENTRY_DIR_PATH_def DENTRY_PAR_PATH_def DENTRY_CHILDREN_def)

lemma unat_MAX_DOC_LEN [simp]: "unat MAX_DOC_LEN = 20971520"
  by (simp add: MAX_DOC_LEN_def)

lemma unat_MAX_FILE_LEN [simp]: "unat MAX_FILE_LEN = 5368709120"
  by (simp add: MAX_FILE_LEN_def MAX_FILE_BLOCKS_def MAX_DOC_LEN_def)

lemma unat_MAX_PATH_LEN [simp]: "unat MAX_PATH_LEN = 250"
  by (simp add: MAX_PATH_LEN_def MAX_KEY_LEN_def)

text \<open>\<open>strlen(path) > MAX_PATH_LEN\<close>, the test of the FUSE handlers.\<close>

definition path_too_long :: "string \<Rightarrow> bool" where
  "path_too_long path \<longleftrightarrow> MAX_PATH_LEN < (of_nat (length path) :: size_t)"

lemma path_too_long_iff [simp]:
  "length path < 2 ^ 64 \<Longrightarrow> path_too_long path \<longleftrightarrow> 250 < length path"
  by (simp add: path_too_long_def word_less_nat_alt)

end
