(* ===== verification/CJson.thy ===== *)
theory CJson
  imports Common
begin

text \<open>
  The interface of the cJSON library that \<open>dentries.c\<close> and \<open>cbfuse_readdir\<close> call. The library
  is not part of the sources, so its functions are parameters: the fields of \<open>cjson_lib\<close>, over
  the tree of JSON nodes. A NULL pointer is \<open>None\<close>; a function that changes a node in place
  returns the changed node (\<open>None\<close> where the library reports failure).

  \<open>cjson_ok\<close> collects the documented behaviour the code relies on: nodes are built and looked
  up as the manual says, allocation succeeds, and printed text parses back to the same tree.
\<close>

section \<open>The library as a parameter\<close>

datatype json = JObject "(string \<times> json) list" | JArray "json list" | JString string | JOther nat

record cjson_lib =
  cJSON_ParseWithLength :: "byte list \<Rightarrow> json option"
  cJSON_PrintUnformatted :: "json \<Rightarrow> byte list option"
  cJSON_CreateObject :: "json option"
  cJSON_CreateArray :: "json option"
  cJSON_CreateString :: "string \<Rightarrow> json option"
  cJSON_CreateStringReference :: "string option \<Rightarrow> json option"
  cJSON_AddItemToObject :: "json \<Rightarrow> string \<Rightarrow> json option \<Rightarrow> json option"
  cJSON_AddItemToArray :: "json option \<Rightarrow> json option \<Rightarrow> json option"
  cJSON_GetObjectItemCaseSensitive :: "json option \<Rightarrow> string \<Rightarrow> json option"
  cJSON_ReplaceItemInObjectCaseSensitive :: "json \<Rightarrow> string \<Rightarrow> json option \<Rightarrow> json"
  cJSON_IsArray :: "json option \<Rightarrow> bool"
  cJSON_IsString :: "json option \<Rightarrow> bool"
  cJSON_GetStringValue :: "json \<Rightarrow> string"

text \<open>The nodes a walk with \<open>cJSON_ArrayForEach\<close> visits.\<close>

fun json_children :: "json option \<Rightarrow> json list" where
  "json_children (Some (JArray xs)) = xs"
| "json_children (Some (JObject ms)) = map snd ms"
| "json_children _ = []"

text \<open>
  A member of an object that the code holds a pointer to and changes in place: the first member
  of that name gets the new value.
\<close>

fun put_member :: "string \<Rightarrow> json \<Rightarrow> (string \<times> json) list \<Rightarrow> (string \<times> json) list" where
  "put_member k v [] = []"
| "put_member k v ((k', v') # ms) = (if k' = k then (k', v) # ms else (k', v') # put_member k v ms)"

fun json_put :: "string \<Rightarrow> json \<Rightarrow> json \<Rightarrow> json" where
  "json_put k v (JObject ms) = JObject (put_member k v ms)"
| "json_put k v j = j"

section \<open>Documented behaviour\<close>

text \<open>
  Trees of objects, arrays and strings without NUL bytes (C strings hold no other), the ones
  the program writes.
\<close>

definition text_ok :: "string \<Rightarrow> bool" where
  "text_ok s \<longleftrightarrow> CHR 0x00 \<notin> set s"

fun json_text_ok :: "json \<Rightarrow> bool" where
  "json_text_ok (JObject ms) \<longleftrightarrow> (\<forall>(k, v) \<in> set ms. text_ok k \<and> json_text_ok v)"
| "json_text_ok (JArray xs) \<longleftrightarrow> (\<forall>x \<in> set xs. json_text_ok x)"
| "json_text_ok (JString s) \<longleftrightarrow> text_ok s"
| "json_text_ok (JOther n) \<longleftrightarrow> False"

text \<open>\<open>cJSON_CreateStringReference(NULL)\<close> makes a string node without text, which prints as the
  empty string.\<close>

definition cjson_build_ok :: "cjson_lib \<Rightarrow> bool" where
  "cjson_build_ok J \<longleftrightarrow>
     cJSON_CreateObject J = Some (JObject []) \<and>
     cJSON_CreateArray J = Some (JArray []) \<and>
     (\<forall>s. cJSON_CreateString J s = Some (JString s)) \<and>
     (\<forall>s. cJSON_CreateStringReference J (Some s) = Some (JString s)) \<and>
     cJSON_CreateStringReference J None = Some (JString []) \<and>
     (\<forall>ms k v. cJSON_AddItemToObject J (JObject ms) k (Some v) = Some (JObject (ms @ [(k, v)]))) \<and>
     (\<forall>xs v. cJSON_AddItemToArray J (Some (JArray xs)) (Some v) = Some (JArray (xs @ [v])))"

definition cjson_read_ok :: "cjson_lib \<Rightarrow> bool" where
  "cjson_read_ok J \<longleftrightarrow>
     (\<forall>ms k. cJSON_GetObjectItemCaseSensitive J (Some (JObject ms)) k = map_of ms k) \<and>
     (\<forall>k. cJSON_GetObjectItemCaseSensitive J None k = None) \<and>
     (\<forall>ms k v. cJSON_ReplaceItemInObjectCaseSensitive J (JObject ms) k (Some v)
        = JObject (put_member k v ms)) \<and>
     (\<forall>j. cJSON_IsArray J j \<longleftrightarrow> (\<exists>xs. j = Some (JArray xs))) \<and>
     (\<forall>j. cJSON_IsString J j \<longleftrightarrow> (\<exists>s. j = Some (JString s))) \<and>
     (\<forall>s. cJSON_GetStringValue J (JString s) = s)"

definition cjson_text_laws :: "cjson_lib \<Rightarrow> bool" where
  "cjson_text_laws J \<longleftrightarrow>
     (\<forall>j. json_text_ok j \<longrightarrow>
       (\<exists>t. cJSON_PrintUnformatted J j = Some t \<and> cJSON_ParseWithLength J t = Some j))"

text \<open>Unformatted printing adds nothing between the entries of an array, so an object does not
  get longer when entries of one of its arrays are dropped.\<close>

definition cjson_compact :: "cjson_lib \<Rightarrow> bool" where
  "cjson_compact J \<longleftrightarrow>
     (\<forall>ms k cs P t t'. map_of ms k = Some (JArray (map JString cs)) \<longrightarrow>
       cJSON_PrintUnformatted J (JObject ms) = Some t \<longrightarrow>
       cJSON_PrintUnformatted J (JObject (put_member k (JArray (map JString (filter P cs))) ms)) = Some t' \<longrightarrow>
       length t' \<le> length t)"

definition cjson_ok :: "cjson_lib \<Rightarrow> bool" where
  "cjson_ok J \<longleftrightarrow> cjson_build_ok J \<and> cjson_read_ok J \<and> cjson_text_laws J \<and> cjson_compact J"

text \<open>The laws as rewrite rules for the proofs about \<open>dentries.c\<close>.\<close>

lemma cjson_build:
  assumes "cjson_ok J"
  shows "cJSON_CreateObject J = Some (JObject [])"
    and "cJSON_CreateArray J = Some (JArray [])"
    and "cJSON_CreateString J s = Some (JString s)"
    and "cJSON_CreateStringReference J (Some s) = Some (JString s)"
    and "cJSON_CreateStringReference J None = Some (JString [])"
    and "cJSON_AddItemToObject J (JObject ms) k (Some v) = Some (JObject (ms @ [(k, v)]))"
    and "cJSON_AddItemToArray J (Some (JArray xs)) (Some v) = Some (JArray (xs @ [v]))"
  using assms unfolding cjson_ok_def cjson_build_ok_def by auto

lemma cjson_read:
  assumes "cjson_ok J"
  shows "cJSON_GetObjectItemCaseSensitive J (Some (JObject ms)) k = map_of ms k"
    and "cJSON_GetObjectItemCaseSensitive J None k = None"
    and "cJSON_ReplaceItemInObjectCaseSensitive J (JObject ms) k (Some v) = JObject (put_member k v ms)"
    and "cJSON_IsArray J (Some (JArray xs))"
    and "\<not> cJSON_IsArray J None"
    and "cJSON_IsString J (Some (JString s))"
    and "cJSON_GetStringValue J (JString s) = s"
  using assms unfolding cjson_ok_def cjson_read_ok_def by auto

lemma cjson_print_parse:
  assumes "cjson_ok J" and "json_text_ok j"
  obtains t where "cJSON_PrintUnformatted J j = Some t" and "cJSON_ParseWithLength J t = Some j"
  using assms unfolding cjson_ok_def cjson_text_laws_def by blast

lemma map_of_put_member:
  "map_of (put_member k v ms) k' = (if k' = k \<and> map_of ms k \<noteq> None then Some v else map_of ms k')"
  by (induction ms) auto

lemma json_text_ok_put_member:
  "json_text_ok (JObject ms) \<Longrightarrow> json_text_ok v \<Longrightarrow> json_text_ok (JObject (put_member k v ms))"
  by (induction ms) (auto split: if_splits)

lemma json_text_ok_member:
  "json_text_ok (JObject ms) \<Longrightarrow> map_of ms k = Some v \<Longrightarrow> json_text_ok v"
  by (auto dest: map_of_SomeD)

end
