(* ===== verification/Environment.thy ===== *)
theory Environment
  imports CJson
begin

text \<open>
  The outside world of the program: libcouchbase and the server behind it, the clock, the heap
  and the FUSE context. None of it is part of the sources, so it is a parameter, the record
  \<open>env\<close> of the calls the program makes; every definition that talks to the world takes it as its
  argument \<open>E\<close>. Nothing is assumed of these calls unless a theorem says so.

  The second half states the documented behaviour of a Couchbase collection (\<open>kv_status\<close>,
  \<open>kv_docs\<close>, \<open>kv_response\<close>) and what it means that a world behaves so (\<open>kv_ok\<close>) and that nobody
  else changes the documents meanwhile (\<open>quiet\<close>). Both speak about the world through two
  observations: \<open>D w\<close>, the documents of the bucket, and \<open>C w\<close>, their CAS values.
\<close>

section \<open>The calls of libcouchbase\<close>

datatype lcb_status =
    LCB_SUCCESS
  | LCB_ERR_DOCUMENT_NOT_FOUND
  | LCB_ERR_DOCUMENT_EXISTS
  | LCB_ERR_CAS_MISMATCH
  | LCB_ERR_VALUE_TOO_LARGE
  | LCB_ERR_TIMEOUT
  | LCB_ERR nat

datatype lcb_op = LCB_GET | LCB_STORE_INSERT | LCB_STORE_REPLACE | LCB_STORE_UPSERT | LCB_REMOVE

text \<open>A command as the program fills it in: operation, scope and collection, key, value, CAS.\<close>

record lcb_request =
  rq_op :: lcb_op
  rq_scope :: "string option"
  rq_collection :: string
  rq_key :: string
  rq_value :: "byte list"
  rq_cas :: cas_t
  rq_raw :: bool

text \<open>The calls that build a command: \<open>lcb_cmd*_create\<close>, \<open>_collection\<close>, \<open>_key\<close>, \<open>_value\<close>,
  \<open>_cas\<close> and \<open>_datatype(LCB_VALUE_RAW)\<close>.\<close>

datatype lcb_call =
    CmdCreate lcb_op
  | CmdCollection "string option" string
  | CmdKey string
  | CmdValue "byte list"
  | CmdCas cas_t
  | CmdDatatypeRaw

definition new_request :: lcb_request where
  "new_request = \<lparr>rq_op = LCB_GET, rq_scope = None, rq_collection = [], rq_key = [],
     rq_value = [], rq_cas = 0, rq_raw = False\<rparr>"

fun apply_call :: "lcb_call \<Rightarrow> lcb_request \<Rightarrow> lcb_request" where
  "apply_call (CmdCreate oper) r = new_request\<lparr>rq_op := oper\<rparr>"
| "apply_call (CmdCollection s c) r = r\<lparr>rq_scope := s, rq_collection := c\<rparr>"
| "apply_call (CmdKey k) r = r\<lparr>rq_key := k\<rparr>"
| "apply_call (CmdValue v) r = r\<lparr>rq_value := v\<rparr>"
| "apply_call (CmdCas c) r = r\<lparr>rq_cas := c\<rparr>"
| "apply_call CmdDatatypeRaw r = r\<lparr>rq_raw := True\<rparr>"

text \<open>What a response carries, read by the callbacks through \<open>lcb_resp*\<close>.\<close>

record lcb_response =
  rs_status :: lcb_status
  rs_cas :: cas_t
  rs_flags :: "32 word"
  rs_key :: string
  rs_value :: "byte list"

record 'w env =
  lcb_cmd :: "lcb_call \<Rightarrow> ('w, lcb_status) state"           \<comment> \<open>a call that builds a command\<close>
  lcb_submit :: "lcb_request \<Rightarrow> ('w, lcb_status) state"      \<comment> \<open>lcb_get, lcb_store, lcb_remove\<close>
  lcb_cmd_destroy :: "('w, lcb_status) state"
  lcb_wait :: "('w, lcb_status \<times> lcb_response list) state" \<comment> \<open>with the responses it dispatches\<close>
  clock_gettime :: "('w, timespec option) state"           \<comment> \<open>None: did not return 0\<close>
  malloc :: "size_t \<Rightarrow> ('w, byte list option) state"         \<comment> \<open>with the old contents of the memory\<close>
  fuse_context :: "('w, 32 word \<times> 32 word) state"          \<comment> \<open>uid and gid of the caller\<close>
  cjson :: cjson_lib

text \<open>
  Building a command step by step. Every caller tests the status of each call and leaves with
  \<open>goto done\<close> at the first failure, so the remaining calls are not made.
\<close>

fun lcb_prepare ::
  "'w env \<Rightarrow> lcb_call list \<Rightarrow> lcb_request \<Rightarrow> ('w, lcb_status \<times> lcb_request) state" where
  "lcb_prepare E [] r = State_Monad.return (LCB_SUCCESS, r)"
| "lcb_prepare E (c # cs) r = do {
     rc \<leftarrow> lcb_cmd E c;
     if rc \<noteq> LCB_SUCCESS then State_Monad.return (rc, r)
     else lcb_prepare E cs (apply_call c r) }"

section \<open>Copies of memory\<close>

text \<open>
  \<open>util.h\<close>: a copy of \<open>n\<close> bytes in a new block of \<open>m\<close>, or NULL. Small blocks (up to 256 bytes: the
  zeroed results, a copied key, the 64 bytes of a stat) are taken to be there always;
  \<open>copy_value\<close> is \<open>memdup\<close> of the whole value of a response with this proviso (\<open>copy_is_memdup\<close>).
\<close>

definition memdupm :: "'w env \<Rightarrow> byte list \<Rightarrow> size_t \<Rightarrow> size_t \<Rightarrow> ('w, byte list option) state" where
  "memdupm E src n m = do {
     dest \<leftarrow> malloc E m;
     State_Monad.return (map_option (\<lambda>dest. take (unat n) src @ drop (unat n) dest) dest) }"

definition memdup :: "'w env \<Rightarrow> byte list \<Rightarrow> size_t \<Rightarrow> ('w, byte list option) state" where
  "memdup E src n = memdupm E src n n"

definition copy_value :: "'w env \<Rightarrow> byte list \<Rightarrow> ('w, byte list option) state" where
  "copy_value E value =
     (if length value \<le> 256 then State_Monad.return (Some value)
      else do {
        dest \<leftarrow> malloc E (of_nat (length value));
        State_Monad.return (map_option (\<lambda>_. value) dest) })"

section \<open>Documented behaviour of a collection\<close>

type_synonym doc_id = "string \<times> string"   \<comment> \<open>collection and key\<close>
type_synonym docs = "doc_id \<Rightarrow> byte list option"
type_synonym cas_view = "doc_id \<Rightarrow> cas_t"

definition rq_doc :: "lcb_request \<Rightarrow> doc_id" where
  "rq_doc r = (rq_collection r, rq_key r)"

text \<open>Keys have 1 to 250 bytes, documents at most 20 MiB; the set-up script creates three
  collections in the default scope.\<close>

definition addressable :: "lcb_request \<Rightarrow> bool" where
  "addressable r \<longleftrightarrow> rq_scope r = None \<and>
     rq_collection r \<in> {STATS_COLLECTION_STRING, DENTRIES_COLLECTION_STRING, BLOCKS_COLLECTION_STRING} \<and>
     0 < length (rq_key r) \<and> length (rq_key r) \<le> unat MAX_KEY_LEN"

definition fits :: "byte list \<Rightarrow> bool" where
  "fits v \<longleftrightarrow> length v \<le> unat MAX_DOC_LEN"

definition kv_status :: "docs \<Rightarrow> cas_view \<Rightarrow> lcb_request \<Rightarrow> lcb_status" where
  "kv_status d c r =
     (case rq_op r of
        LCB_GET \<Rightarrow> (if d (rq_doc r) = None then LCB_ERR_DOCUMENT_NOT_FOUND else LCB_SUCCESS)
      | LCB_REMOVE \<Rightarrow> (if d (rq_doc r) = None then LCB_ERR_DOCUMENT_NOT_FOUND else LCB_SUCCESS)
      | LCB_STORE_INSERT \<Rightarrow>
          (if \<not> fits (rq_value r) then LCB_ERR_VALUE_TOO_LARGE
           else if d (rq_doc r) \<noteq> None then LCB_ERR_DOCUMENT_EXISTS else LCB_SUCCESS)
      | LCB_STORE_REPLACE \<Rightarrow>
          (if \<not> fits (rq_value r) then LCB_ERR_VALUE_TOO_LARGE
           else if d (rq_doc r) = None then LCB_ERR_DOCUMENT_NOT_FOUND
           else if rq_cas r \<noteq> 0 \<and> rq_cas r \<noteq> c (rq_doc r) then LCB_ERR_CAS_MISMATCH
           else LCB_SUCCESS)
      | LCB_STORE_UPSERT \<Rightarrow>
          (if \<not> fits (rq_value r) then LCB_ERR_VALUE_TOO_LARGE else LCB_SUCCESS))"

definition kv_docs :: "docs \<Rightarrow> cas_view \<Rightarrow> lcb_request \<Rightarrow> docs" where
  "kv_docs d c r =
     (if kv_status d c r \<noteq> LCB_SUCCESS then d
      else case rq_op r of
        LCB_GET \<Rightarrow> d
      | LCB_REMOVE \<Rightarrow> d(rq_doc r := None)
      | _ \<Rightarrow> d(rq_doc r \<mapsto> rq_value r))"

definition kv_response :: "docs \<Rightarrow> cas_view \<Rightarrow> lcb_request \<Rightarrow> lcb_response" where
  "kv_response d c r =
     \<lparr>rs_status = kv_status d c r, rs_cas = c (rq_doc r), rs_flags = 0, rs_key = rq_key r,
      rs_value = (if rq_op r = LCB_GET then case_option [] id (d (rq_doc r)) else [])\<rparr>"

text \<open>The world right before \<open>lcb_wait\<close> dispatches the response to the request \<open>r\<close>, and after.\<close>

definition submitted :: "'w env \<Rightarrow> lcb_request \<Rightarrow> 'w \<Rightarrow> 'w" where
  "submitted E r w = after (lcb_cmd_destroy E) (after (lcb_submit E r) w)"

definition served :: "'w env \<Rightarrow> lcb_request \<Rightarrow> 'w \<Rightarrow> 'w" where
  "served E r w = after (lcb_wait E) (submitted E r w)"

text \<open>The server behaves as documented, and there is memory for what it sends.\<close>

definition kv_ok :: "'w env \<Rightarrow> ('w \<Rightarrow> docs) \<Rightarrow> ('w \<Rightarrow> cas_view) \<Rightarrow> bool" where
  "kv_ok E D C \<longleftrightarrow>
     (\<forall>c w. result_of (lcb_cmd E c) w = LCB_SUCCESS) \<and>
     (\<forall>w x v. D w x = Some v \<longrightarrow> fits v) \<and>
     (\<forall>v w. fits v \<longrightarrow> result_of (copy_value E v) w = Some v) \<and>
     (\<forall>r w. addressable r \<longrightarrow>
        result_of (lcb_submit E r) w = LCB_SUCCESS \<and>
        result_of (lcb_wait E) (submitted E r w) = (LCB_SUCCESS, [kv_response (D w) (C w) r]) \<and>
        D (served E r w) = kv_docs (D w) (C w) r \<and>
        (\<forall>x. x \<noteq> rq_doc r \<or> rq_op r = LCB_GET \<longrightarrow> C (served E r w) x = C w x))"

definition quiet :: "'w env \<Rightarrow> ('w \<Rightarrow> docs) \<Rightarrow> ('w \<Rightarrow> cas_view) \<Rightarrow> bool" where
  "quiet E D C \<longleftrightarrow>
     (\<forall>c w. D (after (lcb_cmd E c) w) = D w \<and> C (after (lcb_cmd E c) w) = C w) \<and>
     (\<forall>w. D (after (clock_gettime E) w) = D w \<and> C (after (clock_gettime E) w) = C w) \<and>
     (\<forall>n w. D (after (malloc E n) w) = D w \<and> C (after (malloc E n) w) = C w) \<and>
     (\<forall>w. D (after (fuse_context E) w) = D w \<and> C (after (fuse_context E) w) = C w)"

definition server_ok :: "'w env \<Rightarrow> ('w \<Rightarrow> docs) \<Rightarrow> ('w \<Rightarrow> cas_view) \<Rightarrow> bool" where
  "server_ok E D C \<longleftrightarrow> kv_ok E D C \<and> quiet E D C"

text \<open>The clock works; the heap gives memory of the size asked for.\<close>

definition clock_ok :: "'w env \<Rightarrow> bool" where
  "clock_ok E \<longleftrightarrow> (\<forall>w. result_of (clock_gettime E) w \<noteq> None)"

definition heap_sizes :: "'w env \<Rightarrow> bool" where
  "heap_sizes E \<longleftrightarrow> (\<forall>n w m. result_of (malloc E n) w = Some m \<longrightarrow> length m = unat n)"

definition heap_ok :: "'w env \<Rightarrow> bool" where
  "heap_ok E \<longleftrightarrow> heap_sizes E \<and> (\<forall>n w. result_of (malloc E n) w \<noteq> None)"

lemma quiet_after [simp]:
  assumes "server_ok E D C"
  shows "D (after (lcb_cmd E c) w) = D w" "C (after (lcb_cmd E c) w) = C w"
    "D (after (clock_gettime E) w) = D w" "C (after (clock_gettime E) w) = C w"
    "D (after (malloc E n) w) = D w" "C (after (malloc E n) w) = C w"
    "D (after (fuse_context E) w) = D w" "C (after (fuse_context E) w) = C w"
  using assms unfolding server_ok_def quiet_def by auto

lemma quiet_copy [simp]:
  assumes "server_ok E D C"
  shows "D (after (copy_value E v) w) = D w" "C (after (copy_value E v) w) = C w"
  using assms by (simp_all add: copy_value_def)

text \<open>A heap that gives memory is enough for the copies, and a copy is that of \<open>memdup\<close>.\<close>

lemma heap_copies: "heap_ok E \<Longrightarrow> result_of (copy_value E v) w = Some v"
  by (auto simp: copy_value_def heap_ok_def)

lemma copied_or_null: "result_of (copy_value E v) w \<in> {None, Some v}"
  by (auto simp: copy_value_def)

lemma copy_is_memdup:
  assumes "heap_sizes E" "256 < length v" "length v < 2 ^ 64"
  shows "result_of (copy_value E v) w = result_of (memdup E v (of_nat (length v))) w"
    and "after (copy_value E v) w = after (memdup E v (of_nat (length v))) w"
proof -
  have n: "unat (of_nat (length v) :: size_t) = length v"
    using assms(3) by (rule unat_of_nat_size)
  show "result_of (copy_value E v) w = result_of (memdup E v (of_nat (length v))) w"
    using assms(1,2) n unfolding heap_sizes_def
    by (cases "result_of (malloc E (of_nat (length v))) w") (auto simp: copy_value_def memdup_def memdupm_def)
  show "after (copy_value E v) w = after (memdup E v (of_nat (length v))) w"
    using assms(2) by (simp add: copy_value_def memdup_def memdupm_def)
qed

text \<open>Under a world that behaves, building a command succeeds and yields the request the calls
  spell out.\<close>

lemma prepare_result:
  assumes "kv_ok E D C"
  shows "result_of (lcb_prepare E cs r) w = (LCB_SUCCESS, fold apply_call cs r)"
  using assms
proof (induction cs arbitrary: r w)
  case (Cons c cs)
  then have "result_of (lcb_cmd E c) w = LCB_SUCCESS" by (simp add: kv_ok_def)
  with Cons show ?case by simp
qed simp

lemma prepare_after:
  assumes "server_ok E D C"
  shows "D (after (lcb_prepare E cs r) w) = D w" "C (after (lcb_prepare E cs r) w) = C w"
  using assms by (induction cs arbitrary: r w) auto

declare lcb_prepare.simps [simp del]

text \<open>Whatever the calls do, a request that was prepared without failure is the one spelled out.\<close>

lemma prepare_request:
  "fst (result_of (lcb_prepare E cs r) w) = LCB_SUCCESS \<Longrightarrow>
   snd (result_of (lcb_prepare E cs r) w) = fold apply_call cs r"
  by (induction cs arbitrary: r w) (auto simp: lcb_prepare.simps split: if_splits)

lemma rq_doc_simps [simp]:
  "rq_doc (r\<lparr>rq_op := oper\<rparr>) = rq_doc r" "rq_doc (r\<lparr>rq_value := v\<rparr>) = rq_doc r"
  "rq_doc (r\<lparr>rq_cas := c\<rparr>) = rq_doc r" "rq_doc (r\<lparr>rq_raw := b\<rparr>) = rq_doc r"
  by (simp_all add: rq_doc_def)

end
