(* ===== verification/Sync.thy ===== *)
theory Sync
  imports Environment
begin

text \<open>
  \<open>sync_get.c\<close>, \<open>sync_store.c\<close>, \<open>sync_remove.c\<close>: a synchronous request over the asynchronous
  library. The function allocates a zeroed result, passes it to the library as the cookie of
  the request, waits, and the installed callback fills the result from the response. The
  result starts with status 0, which is \<open>LCB_SUCCESS\<close>. The code tests none of its allocations here:
  the copy of a value may be NULL, the small ones (\<open>calloc\<close> of the result, \<open>strdup\<close> of the key) are
  taken to succeed.

  The locale \<open>sync_layer\<close> is the interface the components above rely on: a synchronous call
  returns the documented answer of the server and leaves the documents the request prescribes.
  It is interpreted on the three functions for every world that behaves (\<open>server_ok\<close>).
\<close>

section \<open>Results and callbacks\<close>

record sync_get_result =
  gr_status :: lcb_status
  gr_key :: string
  gr_nkey :: size_t
  gr_value :: "byte list option"      \<comment> \<open>NULL or a copy of the value\<close>
  gr_nvalue :: size_t
  gr_cas :: cas_t
  gr_flags :: "32 word"

record sync_store_result =
  sr_status :: lcb_status

record sync_remove_result =
  rr_status :: lcb_status

text \<open>\<open>calloc(1, sizeof(...))\<close>: all bytes zero, NULL pointers, status \<open>LCB_SUCCESS\<close>.\<close>

definition calloc_get_result :: sync_get_result where
  "calloc_get_result = \<lparr>gr_status = LCB_SUCCESS, gr_key = [], gr_nkey = 0, gr_value = None,
     gr_nvalue = 0, gr_cas = 0, gr_flags = 0\<rparr>"

text \<open>The copy of the value is NULL when there is no memory for it; the code does not test it.\<close>

definition sync_get_callback ::
  "'w env \<Rightarrow> lcb_response \<Rightarrow> sync_get_result \<Rightarrow> ('w, sync_get_result) state" where
  "sync_get_callback E resp result =
     (let result = result\<lparr>gr_status := rs_status resp\<rparr>
      in if rs_status resp = LCB_SUCCESS
         then do {
           value \<leftarrow> copy_value E (rs_value resp);
           State_Monad.return (result\<lparr>gr_cas := rs_cas resp, gr_flags := rs_flags resp,
             gr_key := rs_key resp, gr_nkey := of_nat (length (rs_key resp)),
             gr_value := value, gr_nvalue := of_nat (length (rs_value resp))\<rparr>) }
         else State_Monad.return result)"

text \<open>The callback is run on each response that \<open>lcb_wait\<close> dispatches.\<close>

fun sync_get_callbacks ::
  "'w env \<Rightarrow> lcb_response list \<Rightarrow> sync_get_result \<Rightarrow> ('w, sync_get_result) state" where
  "sync_get_callbacks E [] result = State_Monad.return result"
| "sync_get_callbacks E (resp # resps) result = do {
     result \<leftarrow> sync_get_callback E resp result;
     sync_get_callbacks E resps result }"

text \<open>The bytes a pointer of a result leads to. The readers of stats look at them only when their number
  is 64, and such a small copy is always there.\<close>

definition pointed :: "byte list option \<Rightarrow> byte list" where
  "pointed value = case_option [] id value"

lemma pointed_Some [simp]: "pointed (Some v) = v"
  by (simp add: pointed_def)

definition sync_store_callback :: "lcb_response \<Rightarrow> sync_store_result \<Rightarrow> sync_store_result" where
  "sync_store_callback resp result = result\<lparr>sr_status := rs_status resp\<rparr>"

definition sync_remove_callback :: "lcb_response \<Rightarrow> sync_remove_result \<Rightarrow> sync_remove_result" where
  "sync_remove_callback resp result = result\<lparr>rr_status := rs_status resp\<rparr>"

section \<open>The synchronous calls\<close>

definition sync_get ::
  "'w env \<Rightarrow> lcb_request \<Rightarrow> ('w, lcb_status \<times> sync_get_result) state" where
  "sync_get E cmd = do {
     rc \<leftarrow> lcb_submit E cmd;
     if rc \<noteq> LCB_SUCCESS then State_Monad.return (rc, calloc_get_result)
     else do {
       _ \<leftarrow> lcb_cmd_destroy E;
       (rc, responses) \<leftarrow> lcb_wait E;
       result \<leftarrow> sync_get_callbacks E responses calloc_get_result;
       State_Monad.return (rc, result) } }"

definition sync_store ::
  "'w env \<Rightarrow> lcb_request \<Rightarrow> ('w, lcb_status \<times> sync_store_result) state" where
  "sync_store E cmd = do {
     rc \<leftarrow> lcb_submit E cmd;
     if rc \<noteq> LCB_SUCCESS then State_Monad.return (rc, \<lparr>sr_status = LCB_SUCCESS\<rparr>)
     else do {
       _ \<leftarrow> lcb_cmd_destroy E;
       (rc, responses) \<leftarrow> lcb_wait E;
       State_Monad.return (rc, fold sync_store_callback responses \<lparr>sr_status = LCB_SUCCESS\<rparr>) } }"

definition sync_remove ::
  "'w env \<Rightarrow> lcb_request \<Rightarrow> ('w, lcb_status \<times> sync_remove_result) state" where
  "sync_remove E cmd = do {
     rc \<leftarrow> lcb_submit E cmd;
     if rc \<noteq> LCB_SUCCESS then State_Monad.return (rc, \<lparr>rr_status = LCB_SUCCESS\<rparr>)
     else do {
       _ \<leftarrow> lcb_cmd_destroy E;
       (rc, responses) \<leftarrow> lcb_wait E;
       State_Monad.return (rc, fold sync_remove_callback responses \<lparr>rr_status = LCB_SUCCESS\<rparr>) } }"

section \<open>The interface of the synchronous layer\<close>

text \<open>The result of a get that was answered once, with memory for the copy.\<close>

definition get_result_of :: "lcb_response \<Rightarrow> sync_get_result" where
  "get_result_of resp =
     (if rs_status resp = LCB_SUCCESS
      then \<lparr>gr_status = LCB_SUCCESS, gr_key = rs_key resp, gr_nkey = of_nat (length (rs_key resp)),
        gr_value = Some (rs_value resp), gr_nvalue = of_nat (length (rs_value resp)),
        gr_cas = rs_cas resp, gr_flags = rs_flags resp\<rparr>
      else calloc_get_result\<lparr>gr_status := rs_status resp\<rparr>)"

lemma one_callback:
  "(rs_status resp = LCB_SUCCESS \<Longrightarrow> result_of (copy_value E (rs_value resp)) w = Some (rs_value resp)) \<Longrightarrow>
   result_of (sync_get_callbacks E [resp] calloc_get_result) w = get_result_of resp"
  by (simp add: sync_get_callback_def get_result_of_def calloc_get_result_def)

definition is_get :: "lcb_request \<Rightarrow> bool" where "is_get r \<longleftrightarrow> rq_op r = LCB_GET"
definition is_remove :: "lcb_request \<Rightarrow> bool" where "is_remove r \<longleftrightarrow> rq_op r = LCB_REMOVE"
definition is_store :: "lcb_request \<Rightarrow> bool" where
  "is_store r \<longleftrightarrow> rq_op r \<in> {LCB_STORE_INSERT, LCB_STORE_REPLACE, LCB_STORE_UPSERT}"

locale sync_layer =
  fixes ok :: "'e \<Rightarrow> ('w \<Rightarrow> docs) \<Rightarrow> ('w \<Rightarrow> cas_view) \<Rightarrow> bool"
    and sget :: "'e \<Rightarrow> lcb_request \<Rightarrow> ('w, lcb_status \<times> sync_get_result) state"
    and sstore :: "'e \<Rightarrow> lcb_request \<Rightarrow> ('w, lcb_status \<times> sync_store_result) state"
    and sremove :: "'e \<Rightarrow> lcb_request \<Rightarrow> ('w, lcb_status \<times> sync_remove_result) state"
  assumes get_answer: "ok e D C \<Longrightarrow> addressable r \<Longrightarrow> is_get r \<Longrightarrow>
      result_of (sget e r) w = (LCB_SUCCESS, get_result_of (kv_response (D w) (C w) r))"
    and store_answer: "ok e D C \<Longrightarrow> addressable r \<Longrightarrow> is_store r \<Longrightarrow>
      result_of (sstore e r) w = (LCB_SUCCESS, \<lparr>sr_status = kv_status (D w) (C w) r\<rparr>)"
    and store_docs: "ok e D C \<Longrightarrow> addressable r \<Longrightarrow> is_store r \<Longrightarrow>
      D (after (sstore e r) w) = kv_docs (D w) (C w) r"
    and remove_answer: "ok e D C \<Longrightarrow> addressable r \<Longrightarrow> is_remove r \<Longrightarrow>
      result_of (sremove e r) w = (LCB_SUCCESS, \<lparr>rr_status = kv_status (D w) (C w) r\<rparr>)"
    and remove_docs: "ok e D C \<Longrightarrow> addressable r \<Longrightarrow> is_remove r \<Longrightarrow>
      D (after (sremove e r) w) = kv_docs (D w) (C w) r"
    and doc_size: "ok e D C \<Longrightarrow> D w x = Some v \<Longrightarrow> fits v"
begin

text \<open>A get of a document that is there, and of one that is not.\<close>

lemma get_found:
  assumes "ok e D C" "addressable r" "is_get r" "D w (rq_doc r) = Some v"
  shows "fst (result_of (sget e r) w) = LCB_SUCCESS"
    and "gr_status (snd (result_of (sget e r) w)) = LCB_SUCCESS"
    and "gr_value (snd (result_of (sget e r) w)) = Some v"
    and "gr_nvalue (snd (result_of (sget e r) w)) = of_nat (length v)"
    and "gr_cas (snd (result_of (sget e r) w)) = C w (rq_doc r)"
  using get_answer [OF assms(1-3), of w] assms(3,4)
  by (simp_all add: kv_response_def kv_status_def get_result_of_def is_get_def)

lemma get_missing:
  assumes "ok e D C" "addressable r" "is_get r" "D w (rq_doc r) = None"
  shows "fst (result_of (sget e r) w) = LCB_SUCCESS"
    and "gr_status (snd (result_of (sget e r) w)) = LCB_ERR_DOCUMENT_NOT_FOUND"
    and "gr_value (snd (result_of (sget e r) w)) = None"
    and "gr_nvalue (snd (result_of (sget e r) w)) = 0"
  using get_answer [OF assms(1-3), of w] assms(3,4)
  by (simp_all add: kv_response_def kv_status_def get_result_of_def is_get_def
      calloc_get_result_def)

text \<open>A store that succeeded is what a later get returns; any other document is untouched.\<close>

lemma read_your_write:
  assumes "ok e D C" "addressable r" "is_store r" "addressable g" "is_get g"
    and "rq_doc g = rq_doc r"
    and "sr_status (snd (result_of (sstore e r) w)) = LCB_SUCCESS"
  shows "gr_value (snd (result_of (sget e g) (after (sstore e r) w))) = Some (rq_value r)"
proof -
  have "kv_status (D w) (C w) r = LCB_SUCCESS"
    using assms(7) store_answer [OF assms(1-3), of w] by simp
  then have "D (after (sstore e r) w) (rq_doc g) = Some (rq_value r)"
    using store_docs [OF assms(1-3), of w] assms(3,6)
    by (auto simp: kv_docs_def is_store_def split: lcb_op.split)
  then show ?thesis using get_found(3) [OF assms(1,4,5)] by simp
qed

lemma store_frame:
  "ok e D C \<Longrightarrow> addressable r \<Longrightarrow> is_store r \<Longrightarrow> x \<noteq> rq_doc r \<Longrightarrow> D (after (sstore e r) w) x = D w x"
  by (simp add: store_docs kv_docs_def split: lcb_op.split)

lemma remove_frame:
  "ok e D C \<Longrightarrow> addressable r \<Longrightarrow> is_remove r \<Longrightarrow> x \<noteq> rq_doc r \<Longrightarrow> D (after (sremove e r) w) x = D w x"
  by (simp add: remove_docs kv_docs_def split: lcb_op.split)

text \<open>A replace that carries a CAS value which is no longer current changes nothing.\<close>

lemma stale_replace:
  assumes "ok e D C" "addressable r" "rq_op r = LCB_STORE_REPLACE" "rq_cas r \<noteq> 0"
    and "C w (rq_doc r) \<noteq> rq_cas r"
  shows "sr_status (snd (result_of (sstore e r) w)) \<noteq> LCB_SUCCESS"
    and "D (after (sstore e r) w) = D w"
  using assms store_answer [OF assms(1,2), of w] store_docs [OF assms(1,2), of w]
  by (auto simp: is_store_def kv_docs_def kv_status_def)

end

text \<open>The same where nobody else changes documents: a get leaves them as they are.\<close>

locale quiet_sync_layer = sync_layer +
  assumes get_docs: "ok e D C \<Longrightarrow> addressable r \<Longrightarrow> is_get r \<Longrightarrow> D (after (sget e r) w) = D w"
    and get_cas: "ok e D C \<Longrightarrow> addressable r \<Longrightarrow> is_get r \<Longrightarrow> C (after (sget e r) w) = C w"
begin

lemma get_twice:
  assumes "ok e D C" "addressable r" "is_get r" "addressable g" "is_get g"
  shows "result_of (sget e g) (after (sget e r) w) = result_of (sget e g) w"
  by (simp add: get_answer [OF assms(1,4,5)] get_docs [OF assms(1-3)] get_cas [OF assms(1-3)])

end

section \<open>The three calls provide it\<close>

lemma kv_ok_served:
  assumes "kv_ok E D C" "addressable r"
  shows "result_of (lcb_submit E r) w = LCB_SUCCESS"
    and "result_of (lcb_wait E) (after (lcb_cmd_destroy E) (after (lcb_submit E r) w))
         = (LCB_SUCCESS, [kv_response (D w) (C w) r])"
    and "D (after (lcb_wait E) (after (lcb_cmd_destroy E) (after (lcb_submit E r) w)))
         = kv_docs (D w) (C w) r"
    and "rq_op r = LCB_GET \<Longrightarrow>
         C (after (lcb_wait E) (after (lcb_cmd_destroy E) (after (lcb_submit E r) w))) = C w"
  using assms unfolding kv_ok_def served_def submitted_def by auto

lemma kv_ok_fits: "kv_ok E D C \<Longrightarrow> D w x = Some v \<Longrightarrow> fits v"
  unfolding kv_ok_def by blast

lemma kv_docs_get: "is_get r \<Longrightarrow> kv_docs d c r = d"
  by (simp add: kv_docs_def is_get_def)

lemma kv_response_status [simp]: "rs_status (kv_response d c r) = kv_status d c r"
  by (simp add: kv_response_def)

lemma kv_ok_copies:
  assumes "kv_ok E D C" "kv_status (D w) (C w) r = LCB_SUCCESS"
  shows "result_of (copy_value E (rs_value (kv_response (D w) (C w) r))) w'
    = Some (rs_value (kv_response (D w) (C w) r))"
proof -
  have "fits (rs_value (kv_response (D w) (C w) r))"
    using kv_ok_fits [OF assms(1)]
    by (auto simp: kv_response_def fits_def split: option.split)
  then show ?thesis using assms(1) unfolding kv_ok_def by blast
qed

lemma sync_get_kv:
  assumes "kv_ok E D C" "addressable r"
  shows "result_of (sync_get E r) w = (LCB_SUCCESS, get_result_of (kv_response (D w) (C w) r))"
proof -
  have "result_of (sync_get_callbacks E [kv_response (D w) (C w) r] calloc_get_result) w'
      = get_result_of (kv_response (D w) (C w) r)" for w'
    by (rule one_callback) (simp add: kv_ok_copies [OF assms(1)])
  then show ?thesis
    using assms by (simp add: sync_get_def kv_ok_served del: sync_get_callbacks.simps)
qed

lemma callbacks_quiet:
  assumes "server_ok E D C"
  shows "D (after (sync_get_callbacks E rs res) w) = D w" "C (after (sync_get_callbacks E rs res) w) = C w"
  using assms
  by (induction rs arbitrary: res w) (simp_all add: sync_get_callback_def Let_def)

lemma sync_layer_kv: "sync_layer kv_ok sync_get sync_store sync_remove"
  by unfold_locales
    (simp_all add: sync_get_kv sync_store_def sync_remove_def kv_ok_served kv_docs_get
      sync_store_callback_def sync_remove_callback_def kv_response_def kv_ok_fits is_get_def)

interpretation kv: sync_layer kv_ok sync_get sync_store sync_remove
  by (rule sync_layer_kv)

lemma sync_get_quiet:
  assumes "server_ok E D C" "addressable r" "is_get r"
  shows "D (after (sync_get E r) w) = D w" "C (after (sync_get E r) w) = C w"
  using assms kv_ok_served [of E D C r w]
  by (simp_all add: server_ok_def sync_get_def callbacks_quiet [OF assms(1)] kv_docs_get is_get_def
      del: sync_get_callbacks.simps)

interpretation sync: quiet_sync_layer server_ok sync_get sync_store sync_remove
  by unfold_locales
    (auto simp: server_ok_def sync_get_quiet intro: kv.get_answer kv.store_answer
      kv.store_docs kv.remove_answer kv.remove_docs kv.doc_size)

section \<open>A prepared command, carried out\<close>

text \<open>Every client builds a command and then calls the layer. In a world that behaves, the two
  steps together are the documented operation on the documents there were at the start.\<close>

lemma prepared:
  assumes "server_ok E D C"
  shows "fst (result_of (lcb_prepare E cs r) w) = LCB_SUCCESS"
    and "snd (result_of (lcb_prepare E cs r) w) = fold apply_call cs r"
  using prepare_result [of E D C] assms by (simp_all add: server_ok_def)

text \<open>The answer of a get, spelled out.\<close>

lemma get_reply:
  assumes "is_get r"
  shows "get_result_of (kv_response d c r) =
    (case d (rq_doc r) of
       None \<Rightarrow> calloc_get_result\<lparr>gr_status := LCB_ERR_DOCUMENT_NOT_FOUND\<rparr>
     | Some v \<Rightarrow> \<lparr>gr_status = LCB_SUCCESS, gr_key = rq_key r, gr_nkey = of_nat (length (rq_key r)),
         gr_value = Some v, gr_nvalue = of_nat (length v), gr_cas = c (rq_doc r), gr_flags = 0\<rparr>)"
  using assms
  by (auto simp: is_get_def get_result_of_def kv_response_def kv_status_def split: option.split)

lemma prepared_get:
  assumes "server_ok E D C" "addressable r" "is_get r"
  shows "result_of (sync_get E r) (after (lcb_prepare E cs r0) w) = (LCB_SUCCESS,
      (case D w (rq_doc r) of
         None \<Rightarrow> calloc_get_result\<lparr>gr_status := LCB_ERR_DOCUMENT_NOT_FOUND\<rparr>
       | Some v \<Rightarrow> \<lparr>gr_status = LCB_SUCCESS, gr_key = rq_key r, gr_nkey = of_nat (length (rq_key r)),
           gr_value = Some v, gr_nvalue = of_nat (length v), gr_cas = C w (rq_doc r), gr_flags = 0\<rparr>))"
    and "D (after (sync_get E r) (after (lcb_prepare E cs r0) w)) = D w"
    and "C (after (sync_get E r) (after (lcb_prepare E cs r0) w)) = C w"
  using sync.get_answer [OF assms] sync.get_docs [OF assms] sync.get_cas [OF assms]
  by (simp_all add: prepare_after [OF assms(1)] get_reply [OF assms(3)] cong: option.case_cong)

lemma prepared_store:
  assumes "server_ok E D C" "addressable r" "is_store r"
  shows "result_of (sync_store E r) (after (lcb_prepare E cs r0) w)
      = (LCB_SUCCESS, \<lparr>sr_status = kv_status (D w) (C w) r\<rparr>)"
    and "D (after (sync_store E r) (after (lcb_prepare E cs r0) w)) = kv_docs (D w) (C w) r"
  using sync.store_answer [OF assms] sync.store_docs [OF assms]
  by (simp_all add: prepare_after [OF assms(1)])

lemma prepared_remove:
  assumes "server_ok E D C" "addressable r" "is_remove r"
  shows "result_of (sync_remove E r) (after (lcb_prepare E cs r0) w)
      = (LCB_SUCCESS, \<lparr>rr_status = kv_status (D w) (C w) r\<rparr>)"
    and "D (after (sync_remove E r) (after (lcb_prepare E cs r0) w)) = kv_docs (D w) (C w) r"
  using sync.remove_answer [OF assms] sync.remove_docs [OF assms]
  by (simp_all add: prepare_after [OF assms(1)])

text \<open>What makes a request addressable, and which kind it is.\<close>

lemmas request_simps = addressable_def DEFAULT_SCOPE_STRING_def new_request_def
  MAX_KEY_LEN_def is_get_def is_store_def is_remove_def rq_doc_def

lemmas kv_simps = kv_status_def kv_docs_def

end
