(* ===== verification/Contracts.thy ===== *)
theory Contracts
  imports Sync
begin

text \<open>
  The contracts between the components that keep documents (\<open>stats.c\<close>, \<open>dentries.c\<close>,
  \<open>data.c\<close>) and the handlers that call them. \<open>document_op\<close>: an operation on a path touches the
  one document that stands for the path in its collection. \<open>document_table\<close>: a pair of such
  operations that inserts a document where there is none and removes one that is there. The
  facts proved here once are used for every operation through its interpretation.
\<close>

definition key_ok :: "string \<Rightarrow> bool" where
  "key_ok p \<longleftrightarrow> 0 < length p \<and> length p \<le> 250"

locale document_op =
  fixes ok :: "'e \<Rightarrow> ('w \<Rightarrow> docs) \<Rightarrow> ('w \<Rightarrow> cas_view) \<Rightarrow> bool"
    and ident :: "string \<Rightarrow> doc_id"
    and oper :: "'e \<Rightarrow> string \<Rightarrow> 'a \<Rightarrow> ('w, 'r) state"
  assumes frame: "ok e D C \<Longrightarrow> key_ok p \<Longrightarrow> x \<noteq> ident p \<Longrightarrow> D (after (oper e p a) w) x = D w x"
begin

lemma other_collection:
  "ok e D C \<Longrightarrow> key_ok p \<Longrightarrow> c \<noteq> fst (ident p) \<Longrightarrow> D (after (oper e p a) w) (c, k) = D w (c, k)"
  by (rule frame, assumption, assumption, metis fst_conv)

lemma only_ident:
  assumes "ok e D C" and "key_ok p"
  shows "\<exists>v. D (after (oper e p a) w) = (D w)(ident p := v)"
proof
  show "D (after (oper e p a) w) = (D w)(ident p := D (after (oper e p a) w) (ident p))"
    using frame [OF assms] by (auto simp: fun_eq_iff)
qed

end

locale document_table =
  ins: document_op ok ident ins + del: document_op ok ident del
  for ok :: "'e \<Rightarrow> ('w \<Rightarrow> docs) \<Rightarrow> ('w \<Rightarrow> cas_view) \<Rightarrow> bool"
    and ident :: "string \<Rightarrow> doc_id"
    and ins :: "'e \<Rightarrow> string \<Rightarrow> 'a \<Rightarrow> ('w, int) state"
    and del :: "'e \<Rightarrow> string \<Rightarrow> unit \<Rightarrow> ('w, int) state" +
  fixes good :: "'e \<Rightarrow> 'a \<Rightarrow> bool"
  assumes insert_fresh: "ok e D C \<Longrightarrow> key_ok p \<Longrightarrow> good e a \<Longrightarrow> D w (ident p) = None \<Longrightarrow>
      result_of (ins e p a) w = 0 \<and> D (after (ins e p a) w) (ident p) \<noteq> None"
    and insert_taken: "ok e D C \<Longrightarrow> key_ok p \<Longrightarrow> good e a \<Longrightarrow> D w (ident p) \<noteq> None \<Longrightarrow>
      result_of (ins e p a) w = - ENOENT \<and> D (after (ins e p a) w) = D w"
    and remove_present: "ok e D C \<Longrightarrow> key_ok p \<Longrightarrow> D w (ident p) \<noteq> None \<Longrightarrow>
      result_of (del e p ()) w = 0 \<and> D (after (del e p ()) w) = (D w)(ident p := None)"
    and remove_absent: "ok e D C \<Longrightarrow> key_ok p \<Longrightarrow> D w (ident p) = None \<Longrightarrow>
      result_of (del e p ()) w = - ENOENT \<and> D (after (del e p ()) w) = D w"
begin

text \<open>The return value tells whether the document was there before.\<close>

lemma insert_result:
  "ok e D C \<Longrightarrow> key_ok p \<Longrightarrow> good e a \<Longrightarrow>
   result_of (ins e p a) w = (if D w (ident p) = None then 0 else - ENOENT)"
  by (auto simp: insert_fresh insert_taken)

lemma remove_result:
  "ok e D C \<Longrightarrow> key_ok p \<Longrightarrow>
   result_of (del e p ()) w = (if D w (ident p) = None then - ENOENT else 0)"
  by (auto simp: remove_present remove_absent)

text \<open>After a removal, successful or not, the document is gone and nothing else has changed.\<close>

lemma remove_docs:
  "ok e D C \<Longrightarrow> key_ok p \<Longrightarrow> D (after (del e p ()) w) = (D w)(ident p := None)"
  by (cases "D w (ident p) = None") (auto simp: remove_present remove_absent fun_upd_idem)

text \<open>Inserting and removing again gives back the documents there were.\<close>

lemma insert_remove:
  assumes "ok e D C" "key_ok p" "good e a" "D w (ident p) = None"
  shows "result_of (ins e p a) w = 0"
    and "result_of (del e p ()) (after (ins e p a) w) = 0"
    and "D (after (del e p ()) (after (ins e p a) w)) = D w"
proof -
  obtain v where v: "D (after (ins e p a) w) = (D w)(ident p := v)"
    using ins.only_ident [OF assms(1,2)] by blast
  show "result_of (ins e p a) w = 0"
    using insert_fresh [OF assms] by simp
  have "D (after (ins e p a) w) (ident p) \<noteq> None"
    using insert_fresh [OF assms] by simp
  then show "result_of (del e p ()) (after (ins e p a) w) = 0"
    using remove_present [OF assms(1,2)] by blast
  show "D (after (del e p ()) (after (ins e p a) w)) = D w"
    by (simp add: remove_docs [OF assms(1,2)] v assms(4) fun_upd_idem)
qed

text \<open>A second insertion of the same path fails and keeps the first.\<close>

lemma insert_twice:
  assumes "ok e D C" "key_ok p" "good e a" "good e b" "D w (ident p) = None"
  shows "result_of (ins e p b) (after (ins e p a) w) = - ENOENT"
    and "D (after (ins e p b) (after (ins e p a) w)) = D (after (ins e p a) w)"
  using insert_fresh [OF assms(1-3,5)] insert_taken [OF assms(1,2,4)] by blast+

end

end
