(* ===== verification/RefEnv.thy ===== *)
theory RefEnv
  imports Contracts
begin

text \<open>
  A concrete world in which the hypotheses of the theorems hold, for their witnesses: a bucket
  in memory with one request in flight, a clock that stands still, a heap whose memory is
  filled with the byte 170, and a serialiser of JSON trees with its parser. It shows that the
  documented behaviour the theorems assume can be had; it is not a model of libcouchbase or
  cJSON.
\<close>

section \<open>A serialiser of trees\<close>

fun put_string :: "string \<Rightarrow> byte list" where
  "put_string [] = [0]"
| "put_string (c # cs) = 1 # of_nat (of_char c) # put_string cs"

fun take_string :: "byte list \<Rightarrow> (string \<times> byte list) option" where
  "take_string (t # bs) =
     (if t = 0 then Some ([], bs)
      else (case bs of
          [] \<Rightarrow> None
        | b # bs' \<Rightarrow> map_option (apfst ((#) (char_of (unat b)))) (take_string bs')))"
| "take_string [] = None"

fun put_json :: "json \<Rightarrow> byte list" where
  "put_json (JString s) = 2 # put_string s"
| "put_json (JArray xs) = 3 # concat (map (\<lambda>x. 1 # put_json x) xs) @ [0]"
| "put_json (JObject ms) = 4 # concat (map (\<lambda>(k, x). 1 # put_string k @ put_json x) ms) @ [0]"
| "put_json (JOther n) = [5]"

text \<open>The parser; its fuel is the length of the text.\<close>

fun take_json :: "nat \<Rightarrow> byte list \<Rightarrow> (json \<times> byte list) option"
  and take_items :: "nat \<Rightarrow> byte list \<Rightarrow> (json list \<times> byte list) option"
  and take_members :: "nat \<Rightarrow> byte list \<Rightarrow> ((string \<times> json) list \<times> byte list) option" where
  "take_json (Suc f) (t # bs) =
     (if t = 2 then map_option (apfst JString) (take_string bs)
      else if t = 3 then map_option (apfst JArray) (take_items f bs)
      else if t = 4 then map_option (apfst JObject) (take_members f bs)
      else None)"
| "take_json _ _ = None"
| "take_items (Suc f) (t # bs) =
     (if t = 0 then Some ([], bs)
      else (case take_json f bs of
          None \<Rightarrow> None
        | Some (x, bs') \<Rightarrow> map_option (apfst ((#) x)) (take_items f bs')))"
| "take_items _ _ = None"
| "take_members (Suc f) (t # bs) =
     (if t = 0 then Some ([], bs)
      else (case take_string bs of
          None \<Rightarrow> None
        | Some (k, bs') \<Rightarrow> (case take_json f bs' of
            None \<Rightarrow> None
          | Some (x, bs'') \<Rightarrow> map_option (apfst ((#) (k, x))) (take_members f bs''))))"
| "take_members _ _ = None"

definition parse_json :: "byte list \<Rightarrow> json option" where
  "parse_json bs = (case take_json (length bs) bs of Some (j, []) \<Rightarrow> Some j | _ \<Rightarrow> None)"

lemma take_put_string [simp]: "take_string (put_string s @ r) = Some (s, r)"
proof (induction s)
  case (Cons c s)
  have "char_of (unat (of_nat (of_char c) :: byte)) = c"
    by (simp add: unat_of_nat take_bit_eq_mod)
  with Cons show ?case by simp
qed simp

lemma take_items_put:
  assumes "\<And>x r n. x \<in> set xs \<Longrightarrow> length (put_json x) \<le> n \<Longrightarrow> take_json n (put_json x @ r) = Some (x, r)"
    and "length (concat (map (\<lambda>x. 1 # put_json x) xs) @ [0]) \<le> n"
  shows "take_items n (concat (map (\<lambda>x. 1 # put_json x) xs) @ 0 # r) = Some (xs, r)"
  using assms
proof (induction xs arbitrary: n)
  case Nil
  then show ?case by (cases n) auto
next
  case (Cons x xs)
  then obtain m where n: "n = Suc m" by (cases n) auto
  have "take_json m (put_json x @ concat (map (\<lambda>x. 1 # put_json x) xs) @ 0 # r)
      = Some (x, concat (map (\<lambda>x. 1 # put_json x) xs) @ 0 # r)"
    using Cons.prems n by auto
  moreover have "take_items m (concat (map (\<lambda>x. 1 # put_json x) xs) @ 0 # r) = Some (xs, r)"
    using Cons.prems n by (intro Cons.IH) auto
  ultimately show ?case by (simp add: n)
qed

lemma take_members_put:
  assumes "\<And>k x r n. (k, x) \<in> set ms \<Longrightarrow> length (put_json x) \<le> n \<Longrightarrow>
      take_json n (put_json x @ r) = Some (x, r)"
    and "length (concat (map (\<lambda>(k, x). 1 # put_string k @ put_json x) ms) @ [0]) \<le> n"
  shows "take_members n (concat (map (\<lambda>(k, x). 1 # put_string k @ put_json x) ms) @ 0 # r)
    = Some (ms, r)"
  using assms
proof (induction ms arbitrary: n)
  case Nil
  then show ?case by (cases n) auto
next
  case (Cons m ms)
  obtain k x where m: "m = (k, x)" by (cases m)
  from Cons.prems(2) obtain l where n: "n = Suc l" by (cases n) auto
  have "take_json l (put_json x @ concat (map (\<lambda>(k, x). 1 # put_string k @ put_json x) ms) @ 0 # r)
      = Some (x, concat (map (\<lambda>(k, x). 1 # put_string k @ put_json x) ms) @ 0 # r)"
    by (rule Cons.prems(1)) (use Cons.prems(2) n m in auto)
  moreover have "take_members l (concat (map (\<lambda>(k, x). 1 # put_string k @ put_json x) ms) @ 0 # r)
      = Some (ms, r)"
  proof (rule Cons.IH)
    show "take_json n' (put_json x' @ r') = Some (x', r')"
      if "(k', x') \<in> set ms" "length (put_json x') \<le> n'" for k' x' r' n'
      using Cons.prems(1) that by (meson list.set_intros(2))
    show "length (concat (map (\<lambda>(k, x). 1 # put_string k @ put_json x) ms) @ [0]) \<le> l"
      using Cons.prems(2) n m by simp
  qed
  ultimately show ?case by (simp add: n m)
qed

lemma take_put_json:
  "json_text_ok j \<Longrightarrow> length (put_json j) \<le> n \<Longrightarrow> take_json n (put_json j @ r) = Some (j, r)"
proof (induction j arbitrary: n r rule: put_json.induct)
  case (1 s)
  then show ?case by (cases n) auto
next
  case (2 xs)
  then obtain m where n: "n = Suc m" by (cases n) auto
  have "take_items m (concat (map (\<lambda>x. 1 # put_json x) xs) @ 0 # r) = Some (xs, r)"
    using 2 n by (intro take_items_put) auto
  then show ?case by (simp add: n)
next
  case (3 ms)
  then obtain m where n: "n = Suc m" by (cases n) auto
  have "take_members m (concat (map (\<lambda>(k, x). 1 # put_string k @ put_json x) ms) @ 0 # r) = Some (ms, r)"
    using 3 n by (intro take_members_put) fastforce+
  then show ?case by (simp add: n)
qed simp

definition ref_cjson :: cjson_lib where
  "ref_cjson =
     \<lparr>cJSON_ParseWithLength = parse_json,
      cJSON_PrintUnformatted = (\<lambda>j. Some (put_json j)),
      cJSON_CreateObject = Some (JObject []),
      cJSON_CreateArray = Some (JArray []),
      cJSON_CreateString = (\<lambda>s. Some (JString s)),
      cJSON_CreateStringReference = (\<lambda>s. Some (JString (case_option [] id s))),
      cJSON_AddItemToObject = (\<lambda>j k v. case (j, v) of
        (JObject ms, Some x) \<Rightarrow> Some (JObject (ms @ [(k, x)])) | _ \<Rightarrow> None),
      cJSON_AddItemToArray = (\<lambda>j v. case (j, v) of
        (Some (JArray xs), Some x) \<Rightarrow> Some (JArray (xs @ [x])) | _ \<Rightarrow> None),
      cJSON_GetObjectItemCaseSensitive = (\<lambda>j k. case j of
        Some (JObject ms) \<Rightarrow> map_of ms k | _ \<Rightarrow> None),
      cJSON_ReplaceItemInObjectCaseSensitive = (\<lambda>j k v. case v of
        Some x \<Rightarrow> json_put k x j | None \<Rightarrow> j),
      cJSON_IsArray = (\<lambda>j. case j of Some (JArray _) \<Rightarrow> True | _ \<Rightarrow> False),
      cJSON_IsString = (\<lambda>j. case j of Some (JString _) \<Rightarrow> True | _ \<Rightarrow> False),
      cJSON_GetStringValue = (\<lambda>j. case j of JString s \<Rightarrow> s | _ \<Rightarrow> [])\<rparr>"

lemma length_put_json_put_member:
  assumes "map_of ms k = Some x" and "length (put_json y) \<le> length (put_json x)"
  shows "length (put_json (JObject (put_member k y ms))) \<le> length (put_json (JObject ms))"
  using assms by (induction ms) (auto split: if_splits)

lemma length_put_json_filter:
  "length (put_json (JArray (map JString (filter P cs)))) \<le> length (put_json (JArray (map JString cs)))"
  by (induction cs) auto

lemma ref_cjson_ok [simp]: "cjson_ok ref_cjson"
proof -
  have "parse_json (put_json j) = Some j" if "json_text_ok j" for j
    using take_put_json [OF that order_refl, of "[]"] by (simp add: parse_json_def)
  then have "cjson_build_ok ref_cjson" "cjson_read_ok ref_cjson" "cjson_text_laws ref_cjson"
    by (auto simp: cjson_build_ok_def cjson_read_ok_def cjson_text_laws_def
        ref_cjson_def split: option.splits json.splits)
  moreover have "cjson_compact ref_cjson"
    using length_put_json_put_member [OF _ length_put_json_filter]
    unfolding cjson_compact_def by (auto simp: ref_cjson_def simp del: put_json.simps)
  ultimately show ?thesis by (simp add: cjson_ok_def)
qed

section \<open>A bucket in memory\<close>

record mem =
  mem_docs :: docs
  mem_cas :: cas_view
  mem_pending :: "lcb_request option"

text \<open>The documents a client sees; the server holds none over the size limit.\<close>

definition mem_view :: "mem \<Rightarrow> docs" where
  "mem_view w x = (case mem_docs w x of None \<Rightarrow> None | Some v \<Rightarrow> if fits v then Some v else None)"

definition mem_serve :: "lcb_request \<Rightarrow> mem \<Rightarrow> mem" where
  "mem_serve r w = w\<lparr>mem_docs := kv_docs (mem_view w) (mem_cas w) r,
     mem_cas := (if rq_op r = LCB_GET then mem_cas w
                 else (mem_cas w)(rq_doc r := mem_cas w (rq_doc r) + 1)),
     mem_pending := None\<rparr>"

definition mem_wait :: "mem \<Rightarrow> (lcb_status \<times> lcb_response list) \<times> mem" where
  "mem_wait w = (case mem_pending w of
     None \<Rightarrow> ((LCB_SUCCESS, []), w)
   | Some r \<Rightarrow> ((LCB_SUCCESS, [kv_response (mem_view w) (mem_cas w) r]), mem_serve r w))"

definition mem_env :: "mem env" where
  "mem_env = \<lparr>lcb_cmd = (\<lambda>_. State_Monad.return LCB_SUCCESS),
     lcb_submit = (\<lambda>r. State (\<lambda>w. (LCB_SUCCESS, w\<lparr>mem_pending := Some r\<rparr>))),
     lcb_cmd_destroy = State_Monad.return LCB_SUCCESS,
     lcb_wait = State mem_wait,
     clock_gettime = State_Monad.return (Some \<lparr>tv_sec = 1000, tv_nsec = 7\<rparr>),
     malloc = (\<lambda>n. State_Monad.return (Some (replicate (unat n) 170))),
     fuse_context = State_Monad.return (501, 20),
     cjson = ref_cjson\<rparr>"

definition mem_with :: "docs \<Rightarrow> mem" where
  "mem_with d = \<lparr>mem_docs = d, mem_cas = (\<lambda>_. 1), mem_pending = None\<rparr>"

definition mem_empty :: mem where "mem_empty = mem_with (\<lambda>_. None)"

lemma mem_view_fits: "mem_view w x = Some v \<Longrightarrow> fits v"
  by (simp add: mem_view_def split: option.splits if_splits)

lemma mem_view_pending [simp]: "mem_view (w\<lparr>mem_pending := p\<rparr>) = mem_view w"
  by (simp add: mem_view_def fun_eq_iff)

lemma kv_docs_fits:
  "(\<And>x v. d x = Some v \<Longrightarrow> fits v) \<Longrightarrow> kv_docs d c r x = Some v \<Longrightarrow> fits v"
  by (auto simp: kv_docs_def kv_status_def split: if_splits lcb_op.splits)

lemma mem_view_serve [simp]: "mem_view (mem_serve r w) = kv_docs (mem_view w) (mem_cas w) r"
proof
  fix x
  have "kv_docs (mem_view w) (mem_cas w) r x = Some v \<Longrightarrow> fits v" for v
    by (rule kv_docs_fits [OF mem_view_fits])
  then show "mem_view (mem_serve r w) x = kv_docs (mem_view w) (mem_cas w) r x"
    by (auto simp: mem_view_def mem_serve_def split: option.split)
qed

lemma mem_cas_serve:
  "x \<noteq> rq_doc r \<or> rq_op r = LCB_GET \<Longrightarrow> mem_cas (mem_serve r w) x = mem_cas w x"
  by (auto simp: mem_serve_def)

lemma mem_env_calls [simp]:
  "lcb_cmd mem_env c = State_Monad.return LCB_SUCCESS"
  "clock_gettime mem_env = State_Monad.return (Some \<lparr>tv_sec = 1000, tv_nsec = 7\<rparr>)"
  "malloc mem_env n = State_Monad.return (Some (replicate (unat n) 170))"
  "fuse_context mem_env = State_Monad.return (501, 20)"
  "result_of (lcb_submit mem_env r) w = LCB_SUCCESS"
  "result_of (lcb_wait mem_env) (submitted mem_env r w)
     = (LCB_SUCCESS, [kv_response (mem_view w) (mem_cas w) r])"
  "served mem_env r w = mem_serve r (w\<lparr>mem_pending := Some r\<rparr>)"
  by (simp_all add: mem_env_def submitted_def served_def mem_wait_def)

lemma mem_env_heap_ok [simp]: "heap_ok mem_env"
  by (simp add: heap_ok_def heap_sizes_def mem_env_def)

lemma mem_env_kv_ok [simp]: "kv_ok mem_env mem_view mem_cas"
  unfolding kv_ok_def by (auto simp: mem_view_fits mem_cas_serve heap_copies)

lemma mem_env_quiet: "quiet mem_env mem_view mem_cas"
  by (simp add: quiet_def)

lemma mem_env_server_ok [simp]: "server_ok mem_env mem_view mem_cas"
  by (simp add: server_ok_def mem_env_quiet)

lemma mem_env_clock_ok [simp]: "clock_ok mem_env"
  by (simp add: clock_ok_def mem_env_def)

lemma mem_env_cjson [simp]: "cjson mem_env = ref_cjson"
  by (simp add: mem_env_def)

lemma mem_view_with [simp]:
  "(\<And>x v. d x = Some v \<Longrightarrow> fits v) \<Longrightarrow> mem_view (mem_with d) = d"
  by (auto simp: fun_eq_iff mem_view_def mem_with_def split: option.split)

lemma mem_view_empty [simp]: "mem_view mem_empty = (\<lambda>_. None)"
  by (simp add: mem_empty_def mem_view_def mem_with_def fun_eq_iff)

lemma mem_cas_with [simp]: "mem_cas (mem_with d) x = 1"
  by (simp add: mem_with_def)

end
