(* ===== verification/Stats.thy ===== *)
theory Stats
  imports RefEnv
begin

text \<open>
  \<open>stats.c\<close>: one document per path in the collection \<open>stats\<close>, holding the bytes of a
  \<open>cbfuse_stat\<close>. First the structure and its memory layout (LP64, little endian, 16-bit
  \<open>mode_t\<close> followed by six bytes of padding), then the operations in the order of the source,
  then what each does to the table of stats in a world that behaves.
\<close>

section \<open>The stat structure and its bytes\<close>

record cbfuse_stat =
  st_mode :: mode_t
  st_pad :: "48 word"      \<comment> \<open>padding between \<open>st_mode\<close> and \<open>st_atime\<close>\<close>
  st_atime :: "64 word"
  st_atimensec :: "64 word"
  st_mtime :: "64 word"
  st_mtimensec :: "64 word"
  st_ctime :: "64 word"
  st_ctimensec :: "64 word"
  st_size :: off_t

definition CBFUSE_STAT_STRUCT_SIZE :: size_t where "CBFUSE_STAT_STRUCT_SIZE = 64"

definition zero_stat :: cbfuse_stat where
  "zero_stat = \<lparr>st_mode = 0, st_pad = 0, st_atime = 0, st_atimensec = 0, st_mtime = 0,
     st_mtimensec = 0, st_ctime = 0, st_ctimensec = 0, st_size = 0\<rparr>"

text \<open>
  The sources copy the structure as it lies in memory; these two functions are that layout on the
  platform of the sources. They translate no code.
\<close>

definition stat_bytes :: "cbfuse_stat \<Rightarrow> byte list" where
  "stat_bytes s = le_bytes 2 (st_mode s) @ le_bytes 6 (st_pad s) @ le_bytes 8 (st_atime s)
     @ le_bytes 8 (st_atimensec s) @ le_bytes 8 (st_mtime s) @ le_bytes 8 (st_mtimensec s)
     @ le_bytes 8 (st_ctime s) @ le_bytes 8 (st_ctimensec s) @ le_bytes 8 (st_size s)"

definition stat_of_bytes :: "byte list \<Rightarrow> cbfuse_stat" where
  "stat_of_bytes b =
     \<lparr>st_mode = word_of_le (take 2 b), st_pad = word_of_le (take 6 (drop 2 b)),
      st_atime = word_of_le (take 8 (drop 8 b)), st_atimensec = word_of_le (take 8 (drop 16 b)),
      st_mtime = word_of_le (take 8 (drop 24 b)), st_mtimensec = word_of_le (take 8 (drop 32 b)),
      st_ctime = word_of_le (take 8 (drop 40 b)), st_ctimensec = word_of_le (take 8 (drop 48 b)),
      st_size = word_of_le (take 8 (drop 56 b))\<rparr>"

lemma length_stat_bytes [simp]: "length (stat_bytes s) = 64"
  by (simp add: stat_bytes_def)

lemma stat_of_bytes_stat_bytes [simp]: "stat_of_bytes (stat_bytes s) = s"
  by (cases s) (simp add: stat_of_bytes_def stat_bytes_def word_of_le_le_bytes)

lemma le_bytes_chunk:
  assumes "n \<le> length bs" and "8 * n \<le> LENGTH('a)"
  shows "le_bytes n (word_of_le (take n bs) :: 'a::len word) = take n bs"
proof -
  have "length (take n bs) = n" using assms(1) by simp
  then show ?thesis
    using le_bytes_word_of_le [of "take n bs", where 'a = 'a] assms(2) by metis
qed

lemma take_drop_chunk: "take k (drop j b) @ drop (k + j) b = drop j b"
  by (metis append_take_drop_id drop_drop)

lemma stat_bytes_stat_of_bytes: "length b = 64 \<Longrightarrow> stat_bytes (stat_of_bytes b) = b"
  using le_bytes_word_of_le [of "drop 56 b", where 'a = 64]
    take_drop_chunk [of 8 48 b] take_drop_chunk [of 8 40 b] take_drop_chunk [of 8 32 b]
    take_drop_chunk [of 8 24 b] take_drop_chunk [of 8 16 b] take_drop_chunk [of 8 8 b]
    take_drop_chunk [of 6 2 b] take_drop_chunk [of 2 0 b]
  by (simp add: stat_bytes_def stat_of_bytes_def le_bytes_chunk)

lemma fits_stat [simp]: "fits (stat_bytes s)"
  by (simp add: fits_def)

text \<open>The size test of the readers, on documents the server can hold.\<close>

lemma stat_size_test:
  "fits b \<Longrightarrow> (of_nat (length b) :: size_t) = CBFUSE_STAT_STRUCT_SIZE \<longleftrightarrow> length b = 64"
  using unat_of_nat_size [of "length b"]
  by (auto simp: fits_def CBFUSE_STAT_STRUCT_SIZE_def dest: arg_cong [where f = unat])

section \<open>Operations\<close>

text \<open>
  \<open>get_stat\<close> fills \<open>*stat\<close> and, unless \<open>cas\<close> is NULL, \<open>*cas\<close>; both keep their old contents on
  an error. The model takes the old contents and returns the new.
\<close>

definition get_stat ::
  "'w env \<Rightarrow> string \<Rightarrow> cbfuse_stat \<Rightarrow> cas_t option \<Rightarrow> ('w, int \<times> cbfuse_stat \<times> cas_t option) state"
  where
  "get_stat E pkey stat cas = do {
     (rc, cmd) \<leftarrow> lcb_prepare E
       [CmdCreate LCB_GET, CmdCollection DEFAULT_SCOPE_STRING STATS_COLLECTION_STRING, CmdKey pkey]
       new_request;
     if rc \<noteq> LCB_SUCCESS then State_Monad.return (- EIO, stat, cas)
     else do {
       (rc, result) \<leftarrow> sync_get E cmd;
       State_Monad.return
         (if rc \<noteq> LCB_SUCCESS then (- EIO, stat, cas)
          else if gr_status result \<noteq> LCB_SUCCESS then (- ENOENT, stat, cas)
          else if gr_nvalue result \<noteq> CBFUSE_STAT_STRUCT_SIZE then (- EBADF, stat, cas)
          else (0, stat_of_bytes (pointed (gr_value result)), map_option (\<lambda>_. gr_cas result) cas)) } }"

text \<open>The tail of every function that stores: the status of the call, then of the result.\<close>

definition stored :: "lcb_status \<times> sync_store_result \<Rightarrow> int" where
  "stored p = (if fst p \<noteq> LCB_SUCCESS then - EIO
               else if sr_status (snd p) \<noteq> LCB_SUCCESS then - ENOENT else 0)"

definition removed :: "lcb_status \<times> sync_remove_result \<Rightarrow> int" where
  "removed p = (if fst p \<noteq> LCB_SUCCESS then - EIO
                else if rr_status (snd p) \<noteq> LCB_SUCCESS then - ENOENT else 0)"

definition new_stat :: "mode_t \<Rightarrow> timespec \<Rightarrow> cbfuse_stat" where
  "new_stat mode ts = zero_stat\<lparr>st_mode := mode,
     st_atime := tv_sec ts, st_atimensec := tv_nsec ts,
     st_mtime := tv_sec ts, st_mtimensec := tv_nsec ts,
     st_ctime := tv_sec ts, st_ctimensec := tv_nsec ts\<rparr>"

definition insert_stat :: "'w env \<Rightarrow> string \<Rightarrow> mode_t \<Rightarrow> ('w, int) state" where
  "insert_stat E pkey mode = do {
     now \<leftarrow> clock_gettime E;
     case now of
       None \<Rightarrow> State_Monad.return (- EIO)
     | Some ts \<Rightarrow> do {
         (rc, cmd) \<leftarrow> lcb_prepare E
           [CmdCreate LCB_STORE_INSERT, CmdDatatypeRaw,
            CmdCollection DEFAULT_SCOPE_STRING STATS_COLLECTION_STRING,
            CmdKey pkey, CmdValue (stat_bytes (new_stat mode ts))] new_request;
         if rc \<noteq> LCB_SUCCESS then State_Monad.return (- EIO)
         else do {
           p \<leftarrow> sync_store E cmd;
           State_Monad.return (stored p) } } }"

definition remove_stat :: "'w env \<Rightarrow> string \<Rightarrow> ('w, int) state" where
  "remove_stat E pkey = do {
     (rc, cmd) \<leftarrow> lcb_prepare E
       [CmdCreate LCB_REMOVE, CmdCollection DEFAULT_SCOPE_STRING STATS_COLLECTION_STRING,
        CmdKey pkey] new_request;
     if rc \<noteq> LCB_SUCCESS then State_Monad.return (- EIO)
     else do {
       p \<leftarrow> sync_remove E cmd;
       State_Monad.return (removed p) } }"

text \<open>The second half of the four \<open>update_stat\<close> functions, which is the same code in each:
  write the changed stat back with the CAS value it was read with.\<close>

definition replace_calls :: "string \<Rightarrow> cbfuse_stat \<Rightarrow> cas_t \<Rightarrow> lcb_call list" where
  "replace_calls pkey stat cas =
     [CmdCreate LCB_STORE_REPLACE, CmdCollection DEFAULT_SCOPE_STRING STATS_COLLECTION_STRING,
      CmdDatatypeRaw, CmdCas cas, CmdKey pkey, CmdValue (stat_bytes stat)]"

definition replace_stat :: "'w env \<Rightarrow> string \<Rightarrow> cbfuse_stat \<Rightarrow> cas_t \<Rightarrow> ('w, int) state" where
  "replace_stat E pkey stat cas = do {
     (rc, cmd) \<leftarrow> lcb_prepare E (replace_calls pkey stat cas) new_request;
     if rc \<noteq> LCB_SUCCESS then State_Monad.return (- EIO)
     else do {
       p \<leftarrow> sync_store E cmd;
       State_Monad.return (stored p) } }"

definition update_stat_atime :: "'w env \<Rightarrow> string \<Rightarrow> ('w, int) state" where
  "update_stat_atime E pkey = do {
     (fresult, stat, cas) \<leftarrow> get_stat E pkey zero_stat (Some 0);
     if fresult \<noteq> 0 then State_Monad.return fresult
     else do {
       now \<leftarrow> clock_gettime E;
       case now of
         None \<Rightarrow> State_Monad.return (- EIO)
       | Some ts \<Rightarrow>
           replace_stat E pkey (stat\<lparr>st_atime := tv_sec ts, st_atimensec := tv_nsec ts\<rparr>)
             (case_option 0 id cas) } }"

abbreviation "UTIME_NOW \<equiv> (-1 :: 64 word)"
abbreviation "UTIME_OMIT \<equiv> (-2 :: 64 word)"

text \<open>The rules of \<open>utimensat(2)\<close>: \<open>tv\<close> is NULL or the two times to set.\<close>

definition apply_utimens ::
  "(timespec \<times> timespec) option \<Rightarrow> timespec \<Rightarrow> cbfuse_stat \<Rightarrow> cbfuse_stat" where
  "apply_utimens tv ts_now stat =
     (case tv of
        None \<Rightarrow> stat\<lparr>st_atime := tv_sec ts_now, st_atimensec := tv_nsec ts_now,
                   st_mtime := tv_sec ts_now, st_mtimensec := tv_nsec ts_now\<rparr>
      | Some (tv0, tv1) \<Rightarrow>
          (let stat =
             (if tv_nsec tv0 = UTIME_NOW
              then stat\<lparr>st_atime := tv_sec ts_now, st_atimensec := tv_nsec ts_now\<rparr>
              else if tv_nsec tv0 \<noteq> UTIME_OMIT
              then stat\<lparr>st_atime := tv_sec tv0, st_atimensec := tv_nsec tv0\<rparr>
              else stat)
           in if tv_nsec tv1 = UTIME_NOW
              then stat\<lparr>st_mtime := tv_sec ts_now, st_mtimensec := tv_nsec ts_now\<rparr>
              else if tv_nsec tv1 \<noteq> UTIME_OMIT
              then stat\<lparr>st_mtime := tv_sec tv1, st_mtimensec := tv_nsec tv1\<rparr>
              else stat))"

definition needs_now :: "(timespec \<times> timespec) option \<Rightarrow> bool" where
  "needs_now tv =
     (case tv of None \<Rightarrow> True
      | Some (tv0, tv1) \<Rightarrow> tv_nsec tv0 = UTIME_NOW \<or> tv_nsec tv1 = UTIME_NOW)"

text \<open>When the clock is not needed \<open>ts_now\<close> stays uninitialised and is not read; the model
  passes zeros.\<close>

definition update_stat_utimens ::
  "'w env \<Rightarrow> string \<Rightarrow> (timespec \<times> timespec) option \<Rightarrow> ('w, int) state" where
  "update_stat_utimens E pkey tv = do {
     (fresult, stat, cas) \<leftarrow> get_stat E pkey zero_stat (Some 0);
     if fresult \<noteq> 0 then State_Monad.return fresult
     else do {
       now \<leftarrow> (if needs_now tv then clock_gettime E
              else State_Monad.return (Some \<lparr>tv_sec = 0, tv_nsec = 0\<rparr>));
       case now of
         None \<Rightarrow> State_Monad.return (- EIO)
       | Some ts_now \<Rightarrow>
           replace_stat E pkey (apply_utimens tv ts_now stat) (case_option 0 id cas) } }"

definition update_stat_size :: "'w env \<Rightarrow> string \<Rightarrow> size_t \<Rightarrow> ('w, int) state" where
  "update_stat_size E pkey sz = do {
     (fresult, stat, cas) \<leftarrow> get_stat E pkey zero_stat (Some 0);
     if fresult \<noteq> 0 then State_Monad.return fresult
     else do {
       now \<leftarrow> clock_gettime E;
       case now of
         None \<Rightarrow> State_Monad.return (- EIO)
       | Some ts \<Rightarrow>
           replace_stat E pkey
             (stat\<lparr>st_mtime := tv_sec ts, st_mtimensec := tv_nsec ts, st_size := sz\<rparr>)
             (case_option 0 id cas) } }"

definition update_stat_mode :: "'w env \<Rightarrow> string \<Rightarrow> mode_t \<Rightarrow> ('w, int) state" where
  "update_stat_mode E pkey mode = do {
     (fresult, stat, cas) \<leftarrow> get_stat E pkey zero_stat (Some 0);
     if fresult \<noteq> 0 then State_Monad.return fresult
     else replace_stat E pkey (stat\<lparr>st_mode := mode\<rparr>) (case_option 0 id cas) }"

section \<open>The table of stats\<close>

abbreviation stat_id :: "string \<Rightarrow> doc_id" where
  "stat_id p \<equiv> (STATS_COLLECTION_STRING, p)"

text \<open>The stat a path has: its document, when it has the size of the structure.\<close>

definition stat_at :: "docs \<Rightarrow> string \<Rightarrow> cbfuse_stat option" where
  "stat_at d p = (case d (stat_id p) of
     Some b \<Rightarrow> (if length b = 64 then Some (stat_of_bytes b) else None) | None \<Rightarrow> None)"

lemma stat_at_upd [simp]: "stat_at (d(stat_id p \<mapsto> stat_bytes s)) p = Some s"
  by (simp add: stat_at_def)

lemma stat_at_frame: "d (stat_id p) = d' (stat_id p) \<Longrightarrow> stat_at d p = stat_at d' p"
  by (simp add: stat_at_def)

lemma stat_at_SomeD: "stat_at d p = Some s \<Longrightarrow> d (stat_id p) = Some (stat_bytes s)"
  by (auto simp: stat_at_def stat_bytes_stat_of_bytes split: option.splits if_splits)

lemma stat_at_docs: "stat_at d p = Some s \<longleftrightarrow> d (stat_id p) = Some (stat_bytes s)"
  by (auto simp: stat_at_def stat_bytes_stat_of_bytes split: option.splits if_splits)

text \<open>Reading a stat, in any world that behaves.\<close>

lemma get_stat_spec:
  assumes "server_ok E D C" and "key_ok p"
  shows "result_of (get_stat E p stat cas) w =
    (case D w (stat_id p) of
       None \<Rightarrow> (- ENOENT, stat, cas)
     | Some b \<Rightarrow> (if length b = 64
         then (0, stat_of_bytes b, map_option (\<lambda>_. C w (stat_id p)) cas)
         else (- EBADF, stat, cas)))"
    and "D (after (get_stat E p stat cas) w) = D w"
    and "C (after (get_stat E p stat cas) w) = C w"
  using assms stat_size_test [OF sync.doc_size [OF assms(1)]]
  by (auto simp: get_stat_def prepared prepared_get request_simps key_ok_def split: option.split)

lemma get_stat_found:
  assumes "server_ok E D C" "key_ok p" "stat_at (D w) p = Some s"
  shows "result_of (get_stat E p stat cas) w = (0, s, map_option (\<lambda>_. C w (stat_id p)) cas)"
  using assms by (simp add: get_stat_spec stat_at_docs)

lemma get_stat_failed:
  assumes "server_ok E D C" "key_ok p" "stat_at (D w) p = None"
  shows "fst (result_of (get_stat E p stat cas) w) =
    (if D w (stat_id p) = None then - ENOENT else - EBADF)"
  using assms by (auto simp: get_stat_spec stat_at_def split: option.splits if_splits)

text \<open>Writing it back with the CAS value it was read with.\<close>

lemma replace_stat_spec:
  assumes "server_ok E D C" and "key_ok p"
  shows "result_of (replace_stat E p s cas) w =
      (if D w (stat_id p) = None \<or> (cas \<noteq> 0 \<and> cas \<noteq> C w (stat_id p)) then - ENOENT else 0)"
    and "D (after (replace_stat E p s cas) w) =
      (if D w (stat_id p) = None \<or> (cas \<noteq> 0 \<and> cas \<noteq> C w (stat_id p)) then D w
       else (D w)(stat_id p \<mapsto> stat_bytes s))"
  using assms
  by (auto simp: replace_stat_def replace_calls_def stored_def prepared prepared_store request_simps
      key_ok_def kv_simps)

text \<open>
  The same in a world where other clients change documents while the command is built: when the
  CAS value of the stat is no longer the one it was read with, the other client's document stays.
\<close>

lemma stale_replace_stat:
  fixes E :: "'w env" and w :: 'w and s :: cbfuse_stat
  assumes ok: "kv_ok E D C" "key_ok p" and cas: "cas \<noteq> 0"
  defines "w' \<equiv> after (lcb_prepare E (replace_calls p s cas) new_request) w"
  assumes stale: "C w' (stat_id p) \<noteq> cas"
  shows "result_of (replace_stat E p s cas) w = - ENOENT"
    and "D (after (replace_stat E p s cas) w) = D w'"
proof -
  let ?r = "fold apply_call (replace_calls p s cas) new_request"
  have r: "addressable ?r" "rq_op ?r = LCB_STORE_REPLACE" "rq_cas ?r = cas" "rq_doc ?r = stat_id p"
    using ok(2) by (auto simp: replace_calls_def request_simps key_ok_def)
  note stale' = kv.stale_replace [OF ok(1) r(1,2), of w', unfolded r(3,4), OF cas stale]
  have "fst (result_of (sync_store E ?r) w') = LCB_SUCCESS"
    using kv.store_answer [OF ok(1) r(1), of w'] r(2) by (simp add: is_store_def)
  with stale' show "result_of (replace_stat E p s cas) w = - ENOENT"
    and "D (after (replace_stat E p s cas) w) = D w'"
    by (simp_all add: replace_stat_def prepare_result [OF ok(1)] stored_def w'_def)
qed

lemma insert_stat_spec:
  assumes "server_ok E D C" "clock_ok E" "key_ok p"
  shows "result_of (insert_stat E p mode) w = (if D w (stat_id p) = None then 0 else - ENOENT)"
    and "\<exists>ts. D (after (insert_stat E p mode) w) =
      (if D w (stat_id p) = None then (D w)(stat_id p \<mapsto> stat_bytes (new_stat mode ts)) else D w)"
proof -
  obtain ts where "result_of (clock_gettime E) w = Some ts"
    using assms(2) unfolding clock_ok_def by blast
  then show "result_of (insert_stat E p mode) w = (if D w (stat_id p) = None then 0 else - ENOENT)"
    and "\<exists>ts. D (after (insert_stat E p mode) w) =
      (if D w (stat_id p) = None then (D w)(stat_id p \<mapsto> stat_bytes (new_stat mode ts)) else D w)"
    using assms
    by (auto simp: insert_stat_def stored_def prepared prepared_store request_simps key_ok_def
        kv_simps intro!: exI [of _ ts])
qed

lemma remove_stat_spec:
  assumes "server_ok E D C" "key_ok p"
  shows "result_of (remove_stat E p) w = (if D w (stat_id p) = None then - ENOENT else 0)"
    and "D (after (remove_stat E p) w) = (D w)(stat_id p := None)"
  using assms
  by (auto simp: remove_stat_def removed_def prepared prepared_remove request_simps key_ok_def
      kv_simps fun_upd_idem)

text \<open>The four updates of a stat that is there: the fields each changes, nothing else.\<close>

lemmas update_stat_defs = update_stat_atime_def update_stat_utimens_def update_stat_size_def
  update_stat_mode_def

lemma clock_Some:
  assumes "clock_ok E"
  obtains ts where "result_of (clock_gettime E) w = Some ts"
  using assms unfolding clock_ok_def by blast

text \<open>
  The time an update stores: what the clock shows once the stat has been read (\<open>update_time\<close>).
\<close>

definition shown :: "'w env \<Rightarrow> 'w \<Rightarrow> timespec" where
  "shown E w = case_option \<lparr>tv_sec = 0, tv_nsec = 0\<rparr> id (result_of (clock_gettime E) w)"

definition update_time :: "'w env \<Rightarrow> string \<Rightarrow> 'w \<Rightarrow> timespec" where
  "update_time E p w = shown E (after (get_stat E p zero_stat (Some 0)) w)"

lemma clock_shown: "clock_ok E \<Longrightarrow> result_of (clock_gettime E) w = Some (shown E w)"
  by (auto simp: clock_ok_def shown_def split: option.split)

lemma update_stat_atime_at:
  assumes "server_ok E D C" "clock_ok E" "key_ok p" "stat_at (D w) p = Some s"
  shows "result_of (update_stat_atime E p) w = 0"
    and "D (after (update_stat_atime E p) w) = (D w)(stat_id p \<mapsto> stat_bytes
      (s\<lparr>st_atime := tv_sec (update_time E p w), st_atimensec := tv_nsec (update_time E p w)\<rparr>))"
  using assms by (simp_all add: update_stat_defs get_stat_found update_time_def clock_shown
      get_stat_spec(2,3) [OF assms(1,3)] replace_stat_spec [OF assms(1,3)] stat_at_docs)

lemma update_stat_size_at:
  assumes "server_ok E D C" "clock_ok E" "key_ok p" "stat_at (D w) p = Some s"
  shows "result_of (update_stat_size E p n) w = 0"
    and "D (after (update_stat_size E p n) w) = (D w)(stat_id p \<mapsto> stat_bytes
      (s\<lparr>st_mtime := tv_sec (update_time E p w), st_mtimensec := tv_nsec (update_time E p w), st_size := n\<rparr>))"
  using assms by (simp_all add: update_stat_defs get_stat_found update_time_def clock_shown
      get_stat_spec(2,3) [OF assms(1,3)] replace_stat_spec [OF assms(1,3)] stat_at_docs)

lemma apply_utimens_given: "\<not> needs_now tv \<Longrightarrow> apply_utimens tv ts s = apply_utimens tv ts' s"
  by (auto simp: needs_now_def apply_utimens_def split: option.splits prod.splits)

lemma update_stat_utimens_at:
  assumes "server_ok E D C" "clock_ok E" "key_ok p" "stat_at (D w) p = Some s"
  shows "result_of (update_stat_utimens E p tv) w = 0"
    and "D (after (update_stat_utimens E p tv) w) =
      (D w)(stat_id p \<mapsto> stat_bytes (apply_utimens tv (update_time E p w) s))"
proof -
  show "result_of (update_stat_utimens E p tv) w = 0"
    and "D (after (update_stat_utimens E p tv) w) =
      (D w)(stat_id p \<mapsto> stat_bytes (apply_utimens tv (update_time E p w) s))"
    using assms apply_utimens_given [of tv "\<lparr>tv_sec = 0, tv_nsec = 0\<rparr>" s "update_time E p w"]
    by (auto simp: update_stat_defs get_stat_found update_time_def clock_shown
        get_stat_spec(2,3) [OF assms(1,3)] replace_stat_spec [OF assms(1,3)] stat_at_docs)
qed

text \<open>
  The rule of \<open>utimensat\<close> for one of the two times: \<open>given\<close> is NULL or the time to set.
\<close>

definition touched :: "timespec option \<Rightarrow> timespec \<Rightarrow> timespec \<Rightarrow> timespec" where
  "touched given now old = (case given of
     None \<Rightarrow> now
   | Some t \<Rightarrow> if tv_nsec t = UTIME_NOW then now else if tv_nsec t = UTIME_OMIT then old else t)"

definition access_time :: "cbfuse_stat \<Rightarrow> timespec" where
  "access_time s = \<lparr>tv_sec = st_atime s, tv_nsec = st_atimensec s\<rparr>"

definition modification_time :: "cbfuse_stat \<Rightarrow> timespec" where
  "modification_time s = \<lparr>tv_sec = st_mtime s, tv_nsec = st_mtimensec s\<rparr>"

lemma apply_utimens_touched:
  "apply_utimens tv now s =
    (let a = touched (map_option fst tv) now (access_time s);
         m = touched (map_option snd tv) now (modification_time s)
     in s\<lparr>st_atime := tv_sec a, st_atimensec := tv_nsec a,
          st_mtime := tv_sec m, st_mtimensec := tv_nsec m\<rparr>)"
  by (cases tv; cases s)
    (auto simp: apply_utimens_def touched_def access_time_def modification_time_def Let_def)

text \<open>The same without the time.\<close>

lemma update_stat_atime_spec:
  assumes "server_ok E D C" "clock_ok E" "key_ok p" "stat_at (D w) p = Some s"
  shows "\<exists>ts :: timespec. result_of (update_stat_atime E p) w = 0 \<and> D (after (update_stat_atime E p) w) =
    (D w)(stat_id p \<mapsto> stat_bytes (s\<lparr>st_atime := tv_sec ts, st_atimensec := tv_nsec ts\<rparr>))"
  using update_stat_atime_at [OF assms] by blast

lemma update_stat_size_spec:
  assumes "server_ok E D C" "clock_ok E" "key_ok p" "stat_at (D w) p = Some s"
  shows "\<exists>ts :: timespec. result_of (update_stat_size E p n) w = 0 \<and> D (after (update_stat_size E p n) w) =
    (D w)(stat_id p \<mapsto> stat_bytes
      (s\<lparr>st_mtime := tv_sec ts, st_mtimensec := tv_nsec ts, st_size := n\<rparr>))"
  using update_stat_size_at [OF assms] by blast

lemma update_stat_utimens_spec:
  assumes "server_ok E D C" "clock_ok E" "key_ok p" "stat_at (D w) p = Some s"
  shows "\<exists>ts. result_of (update_stat_utimens E p tv) w = 0 \<and>
    D (after (update_stat_utimens E p tv) w) =
      (D w)(stat_id p \<mapsto> stat_bytes (apply_utimens tv ts s))"
  using update_stat_utimens_at [OF assms] by blast

lemma update_stat_mode_spec:
  assumes "server_ok E D C" "key_ok p" "stat_at (D w) p = Some s"
  shows "result_of (update_stat_mode E p m) w = 0"
    and "D (after (update_stat_mode E p m) w) =
      (D w)(stat_id p \<mapsto> stat_bytes (s\<lparr>st_mode := m\<rparr>))"
  using assms by (auto simp: update_stat_defs get_stat_found
      get_stat_spec(2,3) [OF assms(1,2)] replace_stat_spec [OF assms(1,2)] stat_at_docs)

text \<open>An update of a path without a stat fails and changes nothing.\<close>

lemma update_stat_failed:
  assumes "server_ok E D C" "key_ok p" "stat_at (D w) p = None"
  defines "err \<equiv> if D w (stat_id p) = None then - ENOENT else - EBADF"
  shows "result_of (update_stat_atime E p) w = err \<and> D (after (update_stat_atime E p) w) = D w"
    and "result_of (update_stat_size E p n) w = err \<and> D (after (update_stat_size E p n) w) = D w"
    and "result_of (update_stat_utimens E p tv) w = err \<and>
         D (after (update_stat_utimens E p tv) w) = D w"
    and "result_of (update_stat_mode E p m) w = err \<and> D (after (update_stat_mode E p m) w) = D w"
  using assms(1-3) unfolding err_def
  by (simp_all add: update_stat_defs get_stat_failed get_stat_spec(2,3))

text \<open>Every operation of the component keeps the contract of \<open>document_op\<close>.\<close>

lemma update_frame:
  assumes "server_ok E D C" "key_ok p" "x \<noteq> stat_id p"
  shows "D (after (update_stat_atime E p) w) x = D w x"
    and "D (after (update_stat_size E p n) w) x = D w x"
    and "D (after (update_stat_utimens E p tv) w) x = D w x"
    and "D (after (update_stat_mode E p m) w) x = D w x"
  using assms
  by (auto simp: update_stat_defs get_stat_spec(2,3) replace_stat_spec split: option.split)

lemma insert_frame:
  assumes "server_ok E D C" "key_ok p" "x \<noteq> stat_id p"
  shows "D (after (insert_stat E p m) w) x = D w x"
  using assms
  by (auto simp: insert_stat_def prepared prepared_store request_simps key_ok_def kv_simps
      split: option.split)

interpretation atime_op: document_op server_ok stat_id "\<lambda>E p (_ :: unit). update_stat_atime E p"
  by unfold_locales (simp add: update_frame)

interpretation size_op: document_op server_ok stat_id update_stat_size
  by unfold_locales (simp add: update_frame)

interpretation utimens_op: document_op server_ok stat_id update_stat_utimens
  by unfold_locales (simp add: update_frame)

interpretation mode_op: document_op server_ok stat_id update_stat_mode
  by unfold_locales (simp add: update_frame)

text \<open>\<open>insert_stat\<close> and \<open>remove_stat\<close> form a table of documents, where the clock works.\<close>

definition clocked :: "'w env \<Rightarrow> ('w \<Rightarrow> docs) \<Rightarrow> ('w \<Rightarrow> cas_view) \<Rightarrow> bool" where
  "clocked E D C \<longleftrightarrow> server_ok E D C \<and> clock_ok E"

interpretation stat_table: document_table clocked stat_id insert_stat
  "\<lambda>E p (_ :: unit). remove_stat E p" "\<lambda>_ _. True"
proof (unfold_locales, goal_cases)
  case (1 E D C p x m w)
  then show ?case using insert_frame [of E D C p x m w] by (simp add: clocked_def)
next
  case (2 E D C p x u w)
  then show ?case by (auto simp: clocked_def remove_stat_spec)
next
  case (3 E D C p m w)
  then show ?case
    using insert_stat_spec(2) [of E D C p m w] by (auto simp: clocked_def insert_stat_spec(1))
next
  case (4 E D C p m w)
  then show ?case
    using insert_stat_spec(2) [of E D C p m w] by (auto simp: clocked_def insert_stat_spec(1))
next
  case (5 E D C p w)
  then show ?case by (auto simp: clocked_def remove_stat_spec)
next
  case (6 E D C p w)
  then show ?case by (auto simp: clocked_def remove_stat_spec fun_upd_idem)
qed

text \<open>Whatever the world does, an operation that fails returns a negative number and one that
  succeeds returns 0.\<close>

lemma stored_le [nonpos]: "stored p \<le> 0" "removed q \<le> 0"
  by (simp_all add: stored_def removed_def)

lemma get_stat_le [nonpos]: "fst (result_of (get_stat E p stat cas) w) \<le> 0"
  by (simp add: get_stat_def split: prod.split)

lemma replace_stat_le [nonpos]: "result_of (replace_stat E p s cas) w \<le> 0"
  by (simp add: replace_stat_def nonpos)

lemma update_stat_le [nonpos]:
  "result_of (update_stat_atime E p) w \<le> 0" "result_of (update_stat_size E p n) w \<le> 0"
  "result_of (update_stat_utimens E p tv) w \<le> 0" "result_of (update_stat_mode E p m) w \<le> 0"
  by (auto simp: update_stat_defs nonpos split: option.split)

end
