(* ===== verification/Dentries.thy ===== *)
theory Dentries
  imports Stats
begin

text \<open>
  \<open>dentries.c\<close>: one JSON document per directory in the collection \<open>dentries\<close>, with the path of
  the directory (\<open>d\<close>), the path of its parent (\<open>p\<close>) and the names of its entries (\<open>c\<close>). The
  operations in the order of the source, then their effect on \<open>dir_children\<close>, the list of
  entry names that a directory document of the program holds.
\<close>

section \<open>Operations\<close>

text \<open>The test after the parse looks at the address of the caller's variable, which is never
  NULL, so a text that does not parse, or that is a NULL pointer, is returned as NULL with result 0.\<close>

definition get_dentry_json :: "'w env \<Rightarrow> string \<Rightarrow> ('w, int \<times> json option) state" where
  "get_dentry_json E dir_pkey = do {
     (rc, cmd) \<leftarrow> lcb_prepare E
       [CmdCreate LCB_GET, CmdCollection DEFAULT_SCOPE_STRING DENTRIES_COLLECTION_STRING,
        CmdKey dir_pkey] new_request;
     if rc \<noteq> LCB_SUCCESS then State_Monad.return (- EIO, None)
     else do {
       (rc, result) \<leftarrow> sync_get E cmd;
       State_Monad.return
         (if rc \<noteq> LCB_SUCCESS then (- EIO, None)
          else if gr_status result \<noteq> LCB_SUCCESS then (- ENOENT, None)
          else (0, Option.bind (gr_value result) (cJSON_ParseWithLength (cjson E)))) } }"

fun add_names :: "cjson_lib \<Rightarrow> json option \<Rightarrow> string list \<Rightarrow> json option option" where
  "add_names J arr [] = Some arr"
| "add_names J arr (n # ns) =
     (case cJSON_AddItemToArray J arr (cJSON_CreateStringReference J (Some n)) of
        None \<Rightarrow> None
      | Some arr' \<Rightarrow> add_names J (Some arr') ns)"

text \<open>The text of a new directory entry, or NULL when the library fails.\<close>

definition create_dentry ::
  "cjson_lib \<Rightarrow> string \<Rightarrow> string option \<Rightarrow> string list \<Rightarrow> byte list option" where
  "create_dentry J dir_path parent_path child_names = do {
     dentry \<leftarrow> cJSON_CreateObject J;
     dentry \<leftarrow> cJSON_AddItemToObject J dentry DENTRY_DIR_PATH
       (cJSON_CreateStringReference J (Some dir_path));
     dentry \<leftarrow> cJSON_AddItemToObject J dentry DENTRY_PAR_PATH
       (cJSON_CreateStringReference J parent_path);
     children \<leftarrow> add_names J (cJSON_CreateArray J) child_names;
     dentry \<leftarrow> cJSON_AddItemToObject J dentry DENTRY_CHILDREN children;
     cJSON_PrintUnformatted J dentry }"

text \<open>When the text cannot be made the function leaves with its initial result, 0.\<close>

definition add_new_dentry ::
  "'w env \<Rightarrow> string \<Rightarrow> string \<Rightarrow> string option \<Rightarrow> ('w, int) state" where
  "add_new_dentry E dir_pkey dir_path parent_path =
     (case create_dentry (cjson E) dir_path parent_path [] of
        None \<Rightarrow> State_Monad.return 0
      | Some dentry \<Rightarrow> do {
          (rc, cmd) \<leftarrow> lcb_prepare E
            [CmdCreate LCB_STORE_INSERT,
             CmdCollection DEFAULT_SCOPE_STRING DENTRIES_COLLECTION_STRING,
             CmdKey dir_pkey, CmdValue dentry] new_request;
          if rc \<noteq> LCB_SUCCESS then State_Monad.return (- EIO)
          else do {
            p \<leftarrow> sync_store E cmd;
            State_Monad.return (stored p) } })"

text \<open>The second half of the two functions that change a directory: write it back. The replace
  carries no CAS value.\<close>

definition replace_dentry :: "'w env \<Rightarrow> string \<Rightarrow> json \<Rightarrow> ('w, int) state" where
  "replace_dentry E dir_pkey dentry =
     (case cJSON_PrintUnformatted (cjson E) dentry of
        None \<Rightarrow> State_Monad.return (- EIO)
      | Some dentry_string \<Rightarrow> do {
          (rc, cmd) \<leftarrow> lcb_prepare E
            [CmdCreate LCB_STORE_REPLACE,
             CmdCollection DEFAULT_SCOPE_STRING DENTRIES_COLLECTION_STRING,
             CmdKey dir_pkey, CmdValue dentry_string] new_request;
          if rc \<noteq> LCB_SUCCESS then State_Monad.return (- EIO)
          else do {
            p \<leftarrow> sync_store E cmd;
            State_Monad.return (stored p) } })"

definition add_child_to_dentry :: "'w env \<Rightarrow> string \<Rightarrow> string \<Rightarrow> ('w, int) state" where
  "add_child_to_dentry E dir_pkey child_name = do {
     (fresult, dentry_json) \<leftarrow> get_dentry_json E dir_pkey;
     if fresult \<noteq> 0 then State_Monad.return fresult
     else
       let J = cjson E;
           children_json = cJSON_GetObjectItemCaseSensitive J dentry_json DENTRY_CHILDREN
       in case dentry_json of
            None \<Rightarrow> State_Monad.return (- EIO)
          | Some dentry \<Rightarrow>
              if \<not> cJSON_IsArray J children_json then State_Monad.return (- EIO)
              else case cJSON_AddItemToArray J children_json (cJSON_CreateString J child_name) of
                  None \<Rightarrow> State_Monad.return (- EIO)
                | Some children \<Rightarrow>
                    replace_dentry E dir_pkey (json_put DENTRY_CHILDREN children dentry) }"

definition remove_dentry :: "'w env \<Rightarrow> string \<Rightarrow> ('w, int) state" where
  "remove_dentry E dir_pkey = do {
     (rc, cmd) \<leftarrow> lcb_prepare E
       [CmdCreate LCB_REMOVE, CmdCollection DEFAULT_SCOPE_STRING DENTRIES_COLLECTION_STRING,
        CmdKey dir_pkey] new_request;
     if rc \<noteq> LCB_SUCCESS then State_Monad.return (- EIO)
     else do {
       p \<leftarrow> sync_remove E cmd;
       State_Monad.return (removed p) } }"

text \<open>The loop of \<open>remove_child_from_dentry\<close>: copy the strings other than the name into the new
  array; \<open>None\<close> is the exit with \<open>-EIO\<close> when an entry cannot be added.\<close>

fun copy_children :: "cjson_lib \<Rightarrow> string \<Rightarrow> json option \<Rightarrow> json list \<Rightarrow> json option option" where
  "copy_children J child_name arr [] = Some arr"
| "copy_children J child_name arr (x # xs) =
     (if cJSON_IsString J (Some x) \<and> cJSON_GetStringValue J x \<noteq> child_name
      then (case cJSON_AddItemToArray J arr (cJSON_CreateString J (cJSON_GetStringValue J x)) of
              None \<Rightarrow> None
            | Some arr' \<Rightarrow> copy_children J child_name (Some arr') xs)
      else copy_children J child_name arr xs)"

definition remove_child_from_dentry :: "'w env \<Rightarrow> string \<Rightarrow> string \<Rightarrow> ('w, int) state" where
  "remove_child_from_dentry E dir_pkey child_name = do {
     (fresult, dentry_json) \<leftarrow> get_dentry_json E dir_pkey;
     if fresult \<noteq> 0 then State_Monad.return fresult
     else
       let J = cjson E;
           children_json = cJSON_GetObjectItemCaseSensitive J dentry_json DENTRY_CHILDREN
       in case dentry_json of
            None \<Rightarrow> State_Monad.return (- EIO)
          | Some dentry \<Rightarrow>
              if \<not> cJSON_IsArray J children_json then State_Monad.return (- EIO)
              else case copy_children J child_name (cJSON_CreateArray J)
                          (json_children children_json) of
                  None \<Rightarrow> State_Monad.return (- EIO)
                | Some new_children \<Rightarrow>
                    replace_dentry E dir_pkey
                      (cJSON_ReplaceItemInObjectCaseSensitive J dentry DENTRY_CHILDREN new_children) }"

section \<open>Directories as lists of names\<close>

abbreviation dentry_id :: "string \<Rightarrow> doc_id" where
  "dentry_id p \<equiv> (DENTRIES_COLLECTION_STRING, p)"

fun json_string :: "json \<Rightarrow> string option" where
  "json_string (JString s) = Some s"
| "json_string _ = None"

definition dentry_children :: "json \<Rightarrow> string list option" where
  "dentry_children j = (case j of
     JObject ms \<Rightarrow> (case map_of ms DENTRY_CHILDREN of
       Some (JArray xs) \<Rightarrow> those (map json_string xs) | _ \<Rightarrow> None)
   | _ \<Rightarrow> None)"

text \<open>
  The tree of a directory document as the program writes it: the library's own text of an object
  of strings and arrays.
\<close>

definition dentry_tree :: "cjson_lib \<Rightarrow> byte list \<Rightarrow> json option" where
  "dentry_tree J t = (case cJSON_ParseWithLength J t of
     Some j \<Rightarrow> (if json_text_ok j \<and> cJSON_PrintUnformatted J j = Some t then Some j else None)
   | None \<Rightarrow> None)"

definition dir_children :: "cjson_lib \<Rightarrow> docs \<Rightarrow> string \<Rightarrow> string list option" where
  "dir_children J d p = Option.bind (Option.bind (d (dentry_id p)) (dentry_tree J)) dentry_children"

lemma those_json_strings: "those (map json_string xs) = Some cs \<longleftrightarrow> xs = map JString cs"
proof (induction xs arbitrary: cs)
  case (Cons x xs)
  then show ?case by (cases x; cases cs) (auto split: option.splits)
qed auto

lemma dentry_children_iff:
  "dentry_children j = Some cs \<longleftrightarrow>
     (\<exists>ms. j = JObject ms \<and> map_of ms DENTRY_CHILDREN = Some (JArray (map JString cs)))"
  by (auto simp: dentry_children_def those_json_strings split: json.splits option.splits)

lemma dir_childrenE:
  assumes "dir_children J d p = Some cs"
  obtains t ms where "d (dentry_id p) = Some t" "cJSON_ParseWithLength J t = Some (JObject ms)"
    "cJSON_PrintUnformatted J (JObject ms) = Some t" "json_text_ok (JObject ms)"
    "map_of ms DENTRY_CHILDREN = Some (JArray (map JString cs))"
  using assms by (auto simp: dir_children_def dentry_tree_def dentry_children_iff
      bind_eq_Some_conv split: option.splits if_splits)

lemma dir_childrenI:
  assumes "cjson_ok J" "d (dentry_id p) = Some t" "cJSON_PrintUnformatted J (JObject ms) = Some t"
    "json_text_ok (JObject ms)" "map_of ms DENTRY_CHILDREN = Some (JArray (map JString cs))"
  shows "dir_children J d p = Some cs"
proof -
  have "cJSON_ParseWithLength J t = Some (JObject ms)"
    using cjson_print_parse [OF assms(1,4)] assms(3) by (metis option.inject)
  then show ?thesis
    using assms by (simp add: dir_children_def dentry_tree_def dentry_children_iff)
qed

lemma dir_children_frame:
  "d (dentry_id p) = d' (dentry_id p) \<Longrightarrow> dir_children J d p = dir_children J d' p"
  by (simp add: dir_children_def)

lemma dir_children_text_ok:
  assumes "dir_children J d p = Some cs" and "c \<in> set cs"
  shows "text_ok c"
  using assms(1)
proof (rule dir_childrenE)
  fix t ms
  assume "json_text_ok (JObject ms)" "map_of ms DENTRY_CHILDREN = Some (JArray (map JString cs))"
  then have "json_text_ok (JArray (map JString cs))" by (rule json_text_ok_member)
  with assms(2) show "text_ok c" by auto
qed

text \<open>There is room for the entries \<open>cs'\<close> in the document of the directory \<open>p\<close>.\<close>

definition dentry_room :: "cjson_lib \<Rightarrow> docs \<Rightarrow> string \<Rightarrow> string list \<Rightarrow> bool" where
  "dentry_room J d p cs' =
     (case Option.bind (d (dentry_id p)) (dentry_tree J) of
        None \<Rightarrow> False
      | Some j \<Rightarrow>
          (case cJSON_PrintUnformatted J (json_put DENTRY_CHILDREN (JArray (map JString cs')) j) of
             None \<Rightarrow> False | Some t \<Rightarrow> fits t))"

section \<open>The operations on the table of directories\<close>

lemma get_dentry_json_spec:
  assumes "server_ok E D C" "key_ok p"
  shows "result_of (get_dentry_json E p) w =
      (case D w (dentry_id p) of
         None \<Rightarrow> (- ENOENT, None)
       | Some t \<Rightarrow> (0, cJSON_ParseWithLength (cjson E) t))"
    and "D (after (get_dentry_json E p) w) = D w"
    and "C (after (get_dentry_json E p) w) = C w"
  using assms
  by (auto simp: get_dentry_json_def prepared prepared_get request_simps key_ok_def
      split: option.split)

text \<open>Writing a directory back: on any failure nothing has changed.\<close>

lemma replace_dentry_spec:
  assumes "server_ok E D C" "key_ok p"
  shows "result_of (replace_dentry E p j) w =
      (case cJSON_PrintUnformatted (cjson E) j of
         None \<Rightarrow> - EIO
       | Some t \<Rightarrow> if fits t \<and> D w (dentry_id p) \<noteq> None then 0 else - ENOENT)"
    and "D (after (replace_dentry E p j) w) =
      (case cJSON_PrintUnformatted (cjson E) j of
         None \<Rightarrow> D w
       | Some t \<Rightarrow> if fits t \<and> D w (dentry_id p) \<noteq> None then (D w)(dentry_id p \<mapsto> t) else D w)"
  using assms
  by (auto simp: replace_dentry_def stored_def prepared prepared_store request_simps key_ok_def
      kv_simps split: option.split)

lemma remove_dentry_spec:
  assumes "server_ok E D C" "key_ok p"
  shows "result_of (remove_dentry E p) w = (if D w (dentry_id p) = None then - ENOENT else 0)"
    and "D (after (remove_dentry E p) w) = (D w)(dentry_id p := None)"
  using assms
  by (auto simp: remove_dentry_def removed_def prepared prepared_remove request_simps key_ok_def
      kv_simps fun_upd_idem)

text \<open>The document of a new directory.\<close>

definition new_dentry :: "string \<Rightarrow> string option \<Rightarrow> json" where
  "new_dentry dir_path parent_path = JObject
     [(DENTRY_DIR_PATH, JString dir_path), (DENTRY_PAR_PATH, JString (case_option [] id parent_path)),
      (DENTRY_CHILDREN, JArray [])]"

lemma create_dentry_empty:
  assumes "cjson_ok J"
  shows "create_dentry J dir_path parent_path [] =
    cJSON_PrintUnformatted J (new_dentry dir_path parent_path)"
  using assms by (cases parent_path) (auto simp: create_dentry_def cjson_build new_dentry_def)

definition new_dentry_fits :: "'w env \<Rightarrow> string \<times> string option \<Rightarrow> bool" where
  "new_dentry_fits E a \<longleftrightarrow> text_ok (fst a) \<and> text_ok (case_option [] id (snd a)) \<and>
     (case cJSON_PrintUnformatted (cjson E) (new_dentry (fst a) (snd a)) of
        None \<Rightarrow> False | Some t \<Rightarrow> fits t)"

lemma json_text_ok_new_dentry:
  "text_ok dir_path \<Longrightarrow> text_ok (case_option [] id parent_path) \<Longrightarrow>
   json_text_ok (new_dentry dir_path parent_path)"
  by (auto simp: new_dentry_def text_ok_def DENTRY_DIR_PATH_def DENTRY_PAR_PATH_def
      DENTRY_CHILDREN_def)

lemma add_new_dentry_frame:
  assumes "server_ok E D C" "key_ok p" "x \<noteq> dentry_id p"
  shows "D (after (add_new_dentry E p dir_path parent_path) w) x = D w x"
  using assms
  by (auto simp: add_new_dentry_def prepared prepared_store request_simps key_ok_def kv_simps
      split: option.split)

lemma add_new_dentry_spec:
  assumes "server_ok E D C" "cjson_ok (cjson E)" "key_ok p"
    and "new_dentry_fits E (dir_path, parent_path)"
  shows "result_of (add_new_dentry E p dir_path parent_path) w =
      (if D w (dentry_id p) = None then 0 else - ENOENT)"
    and "D w (dentry_id p) \<noteq> None \<Longrightarrow> D (after (add_new_dentry E p dir_path parent_path) w) = D w"
    and "D w (dentry_id p) = None \<Longrightarrow>
      dir_children (cjson E) (D (after (add_new_dentry E p dir_path parent_path) w)) p = Some []"
    and "D w (dentry_id p) = None \<Longrightarrow> D (after (add_new_dentry E p dir_path parent_path) w) =
      (D w)(dentry_id p := cJSON_PrintUnformatted (cjson E) (new_dentry dir_path parent_path))"
proof -
  obtain t where t: "cJSON_PrintUnformatted (cjson E) (new_dentry dir_path parent_path) = Some t" "fits t"
    using assms(4) by (auto simp: new_dentry_fits_def split: option.splits)
  note simps = add_new_dentry_def create_dentry_empty [OF assms(2)] stored_def prepared
    prepared_store request_simps key_ok_def kv_simps t
  show "result_of (add_new_dentry E p dir_path parent_path) w =
      (if D w (dentry_id p) = None then 0 else - ENOENT)"
    and "D w (dentry_id p) \<noteq> None \<Longrightarrow> D (after (add_new_dentry E p dir_path parent_path) w) = D w"
    using assms(1,3) by (auto simp: simps)
  assume none: "D w (dentry_id p) = None"
  then show "D (after (add_new_dentry E p dir_path parent_path) w) =
      (D w)(dentry_id p := cJSON_PrintUnformatted (cjson E) (new_dentry dir_path parent_path))"
    using assms(1,3) by (auto simp: simps fun_eq_iff)
  from none have d: "D (after (add_new_dentry E p dir_path parent_path) w) (dentry_id p) = Some t"
    using assms(1,3) by (simp add: simps)
  have "json_text_ok (new_dentry dir_path parent_path)"
    using assms(4) by (intro json_text_ok_new_dentry) (auto simp: new_dentry_fits_def)
  then show "dir_children (cjson E) (D (after (add_new_dentry E p dir_path parent_path) w)) p = Some []"
    using t(1) d unfolding new_dentry_def by (auto intro!: dir_childrenI [OF assms(2)])
qed

text \<open>Adding an entry appends its name; taking one away drops all its occurrences. The tree of
  the directory otherwise stays as it is.\<close>

lemma copy_children_strings:
  assumes "cjson_ok J"
  shows "copy_children J c (Some (JArray ys)) (map JString cs)
    = Some (Some (JArray (ys @ map JString (filter (\<lambda>x. x \<noteq> c) cs))))"
proof (induction cs arbitrary: ys)
  case (Cons x cs)
  then show ?case by (simp add: cjson_read [OF assms] cjson_build [OF assms])
qed simp

lemma replaced_children:
  assumes "cjson_ok J" "json_text_ok (JObject ms)" "map_of ms DENTRY_CHILDREN \<noteq> None"
    and "\<forall>c \<in> set cs'. text_ok c" "d (dentry_id p) = Some t"
    and "cJSON_PrintUnformatted J (JObject (put_member DENTRY_CHILDREN (JArray (map JString cs')) ms)) = Some t"
  shows "dir_children J d p = Some cs'"
proof (rule dir_childrenI [where d = d, OF assms(1,5,6)])
  show "json_text_ok (JObject (put_member DENTRY_CHILDREN (JArray (map JString cs')) ms))"
    using assms(4) by (intro json_text_ok_put_member [OF assms(2)]) auto
  show "map_of (put_member DENTRY_CHILDREN (JArray (map JString cs')) ms) DENTRY_CHILDREN
      = Some (JArray (map JString cs'))"
    using assms(3) by (simp add: map_of_put_member)
qed

lemma add_child_spec:
  assumes "server_ok E D C" "cjson_ok (cjson E)" "key_ok p" "text_ok c"
    and "dir_children (cjson E) (D w) p = Some cs"
  shows "result_of (add_child_to_dentry E p c) w =
      (if dentry_room (cjson E) (D w) p (cs @ [c]) then 0 else - ENOENT)"
    and "dir_children (cjson E) (D (after (add_child_to_dentry E p c) w)) p =
      (if dentry_room (cjson E) (D w) p (cs @ [c]) then Some (cs @ [c]) else Some cs)"
proof -
  obtain t ms where dir: "D w (dentry_id p) = Some t" "cJSON_ParseWithLength (cjson E) t = Some (JObject ms)"
    "cJSON_PrintUnformatted (cjson E) (JObject ms) = Some t" "json_text_ok (JObject ms)"
    "map_of ms DENTRY_CHILDREN = Some (JArray (map JString cs))"
    using assms(5) by (rule dir_childrenE)
  let ?j = "JObject (put_member DENTRY_CHILDREN (JArray (map JString (cs @ [c]))) ms)"
  have "json_text_ok ?j"
    using json_text_ok_member [OF dir(4,5)] assms(4)
    by (intro json_text_ok_put_member [OF dir(4)]) auto
  then obtain t' where t': "cJSON_PrintUnformatted (cjson E) ?j = Some t'"
    by (rule cjson_print_parse [OF assms(2)])
  have room: "dentry_room (cjson E) (D w) p (cs @ [c]) \<longleftrightarrow> fits t'"
    using dir t' by (simp add: dentry_room_def dentry_tree_def)
  note simps = add_child_to_dentry_def get_dentry_json_spec [OF assms(1,3)] dir
    cjson_build [OF assms(2)] cjson_read [OF assms(2)] replace_dentry_spec [OF assms(1,3)] room
  show "result_of (add_child_to_dentry E p c) w =
      (if dentry_room (cjson E) (D w) p (cs @ [c]) then 0 else - ENOENT)"
    using t' by (simp add: simps)
  have docs: "D (after (add_child_to_dentry E p c) w) =
      (if fits t' then (D w)(dentry_id p \<mapsto> t') else D w)"
    using t' by (simp add: simps)
  have names: "\<forall>x \<in> set (cs @ [c]). text_ok x"
    using dir_children_text_ok [OF assms(5)] assms(4) by auto
  have "dir_children (cjson E) ((D w)(dentry_id p \<mapsto> t')) p = Some (cs @ [c])"
    using dir(4,5) names t' by (intro replaced_children [OF assms(2), where ms = ms and t = t']) auto
  then show "dir_children (cjson E) (D (after (add_child_to_dentry E p c) w)) p =
      (if dentry_room (cjson E) (D w) p (cs @ [c]) then Some (cs @ [c]) else Some cs)"
    using assms(5) by (simp add: docs room)
qed

lemma remove_child_spec:
  assumes "server_ok E D C" "cjson_ok (cjson E)" "key_ok p"
    and "dir_children (cjson E) (D w) p = Some cs"
  shows "result_of (remove_child_from_dentry E p c) w = 0"
    and "dir_children (cjson E) (D (after (remove_child_from_dentry E p c) w)) p =
      Some (filter (\<lambda>x. x \<noteq> c) cs)"
proof -
  obtain t ms where dir: "D w (dentry_id p) = Some t" "cJSON_ParseWithLength (cjson E) t = Some (JObject ms)"
    "cJSON_PrintUnformatted (cjson E) (JObject ms) = Some t" "json_text_ok (JObject ms)"
    "map_of ms DENTRY_CHILDREN = Some (JArray (map JString cs))"
    using assms(4) by (rule dir_childrenE)
  let ?cs = "filter (\<lambda>x. x \<noteq> c) cs"
  let ?j = "JObject (put_member DENTRY_CHILDREN (JArray (map JString ?cs)) ms)"
  have names: "\<forall>x \<in> set ?cs. text_ok x"
    using dir_children_text_ok [OF assms(4)] by auto
  then have "json_text_ok ?j"
    by (intro json_text_ok_put_member [OF dir(4)]) auto
  then obtain t' where t': "cJSON_PrintUnformatted (cjson E) ?j = Some t'"
    by (rule cjson_print_parse [OF assms(2)])
  have "length t' \<le> length t"
    using assms(2) dir(3,5) t' unfolding cjson_ok_def cjson_compact_def by blast
  then have fit: "fits t'"
    using sync.doc_size [OF assms(1) dir(1)] by (simp add: fits_def)
  note simps = remove_child_from_dentry_def get_dentry_json_spec [OF assms(1,3)] dir
    cjson_build [OF assms(2)] cjson_read [OF assms(2)] copy_children_strings [OF assms(2)]
    replace_dentry_spec [OF assms(1,3)]
  show "result_of (remove_child_from_dentry E p c) w = 0"
    using t' fit by (simp add: simps)
  have docs: "D (after (remove_child_from_dentry E p c) w) = (D w)(dentry_id p \<mapsto> t')"
    using t' fit by (simp add: simps)
  show "dir_children (cjson E) (D (after (remove_child_from_dentry E p c) w)) p = Some ?cs"
    unfolding docs using dir(4,5) names t'
    by (intro replaced_children [OF assms(2), where ms = ms and t = t']) auto
qed

text \<open>On a path without a directory both fail; whatever the document holds, a call that fails
  has changed nothing, and no other document changes at all.\<close>

lemma child_ops_missing:
  assumes "server_ok E D C" "key_ok p" "D w (dentry_id p) = None"
  shows "result_of (add_child_to_dentry E p c) w = - ENOENT \<and>
         D (after (add_child_to_dentry E p c) w) = D w"
    and "result_of (remove_child_from_dentry E p c) w = - ENOENT \<and>
         D (after (remove_child_from_dentry E p c) w) = D w"
  using assms
  by (simp_all add: add_child_to_dentry_def remove_child_from_dentry_def
      get_dentry_json_spec [OF assms(1,2)])

lemma replace_dentry_frame:
  assumes "server_ok E D C" "key_ok p"
  shows "result_of (replace_dentry E p j) w \<noteq> 0 \<Longrightarrow> D (after (replace_dentry E p j) w) = D w"
    and "x \<noteq> dentry_id p \<Longrightarrow> D (after (replace_dentry E p j) w) x = D w x"
  by (auto simp: replace_dentry_spec [OF assms] split: option.splits if_splits)

lemma child_ops_frame:
  assumes "server_ok E D C" "key_ok p"
  shows "x \<noteq> dentry_id p \<Longrightarrow> D (after (add_child_to_dentry E p c) w) x = D w x"
    and "x \<noteq> dentry_id p \<Longrightarrow> D (after (remove_child_from_dentry E p c) w) x = D w x"
    and "result_of (add_child_to_dentry E p c) w \<noteq> 0 \<Longrightarrow> D (after (add_child_to_dentry E p c) w) = D w"
    and "result_of (remove_child_from_dentry E p c) w \<noteq> 0 \<Longrightarrow>
         D (after (remove_child_from_dentry E p c) w) = D w"
  by (auto simp: add_child_to_dentry_def remove_child_from_dentry_def Let_def
      get_dentry_json_spec [OF assms] replace_dentry_frame [OF assms]
      split: option.splits if_splits)

interpretation add_child_op: document_op server_ok dentry_id add_child_to_dentry
  by unfold_locales (rule child_ops_frame(1))

interpretation remove_child_op: document_op server_ok dentry_id remove_child_from_dentry
  by unfold_locales (rule child_ops_frame(2))

text \<open>\<open>add_new_dentry\<close> and \<open>remove_dentry\<close> form a table of documents.\<close>

definition json_server :: "'w env \<Rightarrow> ('w \<Rightarrow> docs) \<Rightarrow> ('w \<Rightarrow> cas_view) \<Rightarrow> bool" where
  "json_server E D C \<longleftrightarrow> server_ok E D C \<and> cjson_ok (cjson E)"

interpretation dentry_table: document_table json_server dentry_id
  "\<lambda>E p a. add_new_dentry E p (fst a) (snd a)" "\<lambda>E p (_ :: unit). remove_dentry E p" new_dentry_fits
proof (unfold_locales, goal_cases)
  case (1 E D C p x a w)
  then show ?case using add_new_dentry_frame [of E D C p x] by (simp add: json_server_def)
next
  case (2 E D C p x u w)
  then show ?case by (auto simp: json_server_def remove_dentry_spec)
next
  case (3 E D C p a w)
  then have "result_of (add_new_dentry E p (fst a) (snd a)) w = 0"
    and "dir_children (cjson E) (D (after (add_new_dentry E p (fst a) (snd a)) w)) p = Some []"
    by (auto simp: json_server_def add_new_dentry_spec(1-3))
  then show ?case by (auto simp: dir_children_def bind_eq_Some_conv)
next
  case (4 E D C p a w)
  then show ?case by (auto simp: json_server_def add_new_dentry_spec(1-3))
next
  case (5 E D C p w)
  then show ?case by (auto simp: json_server_def remove_dentry_spec)
next
  case (6 E D C p w)
  then show ?case by (auto simp: json_server_def remove_dentry_spec fun_upd_idem)
qed

end
