(* ===== verification/Blocks.thy ===== *)
theory Blocks
  imports Stats
begin

text \<open>
  \<open>data.c\<close>: the contents of a file, one document per path in the collection \<open>blocks\<close>. Buffers
  are byte lists with the sizes the C code keeps beside them; sizes and offsets are 64-bit
  words, offsets compared signed where C does. A call that would read or write outside an
  allocation is \<open>Undefined\<close>. Memory that \<open>malloc\<close> returns has arbitrary contents.
\<close>

section \<open>Operations\<close>

text \<open>
  \<open>get_block\<close> hands the result of the request to the caller; its pointer stays NULL when the
  command could not be built. The model returns the zeroed result then, which no caller reads.
\<close>

definition get_block :: "'w env \<Rightarrow> string \<Rightarrow> ('w, int \<times> sync_get_result) state" where
  "get_block E pkey = do {
     (rc, cmd) \<leftarrow> lcb_prepare E
       [CmdCreate LCB_GET, CmdCollection DEFAULT_SCOPE_STRING BLOCKS_COLLECTION_STRING,
        CmdKey pkey] new_request;
     if rc \<noteq> LCB_SUCCESS then State_Monad.return (- EIO, calloc_get_result)
     else do {
       (rc, result) \<leftarrow> sync_get E cmd;
       State_Monad.return
         (if rc \<noteq> LCB_SUCCESS then (- EIO, result)
          else if gr_status result \<noteq> LCB_SUCCESS then (- ENOENT, result)
          else (0, result)) } }"

text \<open>\<open>memcpy(dst + offset, src, n)\<close> and the bytes read by \<open>memcpy(_, src + offset, n)\<close>, where the
  access stays inside both allocations.\<close>

definition mem_write :: "byte list \<Rightarrow> off_t \<Rightarrow> byte list \<Rightarrow> size_t \<Rightarrow> byte list c_result" where
  "mem_write dst offset src n =
     (if 0 \<le> sint offset \<and> unat offset + unat n \<le> length dst \<and> unat n \<le> length src
      then Defined (take (unat offset) dst @ take (unat n) src @ drop (unat offset + unat n) dst)
      else Undefined)"

definition mem_read :: "byte list \<Rightarrow> off_t \<Rightarrow> size_t \<Rightarrow> byte list c_result" where
  "mem_read src offset n =
     (if 0 \<le> sint offset \<and> unat offset + unat n \<le> length src
      then Defined (take (unat n) (drop (unat offset) src))
      else Undefined)"

text \<open>Nothing is read through NULL.\<close>

definition mem_read_ptr :: "byte list option \<Rightarrow> off_t \<Rightarrow> size_t \<Rightarrow> byte list c_result" where
  "mem_read_ptr src offset n = (case src of None \<Rightarrow> Undefined | Some src \<Rightarrow> mem_read src offset n)"

lemma mem_read_ptr_Some [simp]: "mem_read_ptr (Some src) offset n = mem_read src offset n"
  by (simp add: mem_read_ptr_def)

text \<open>
  The last part of \<open>update_block\<close>: store the first \<open>nvalue\<close> bytes of the buffer. The library
  copies them when the value is set, after the other parts of the command.
\<close>

definition put_block ::
  "'w env \<Rightarrow> string \<Rightarrow> byte list \<Rightarrow> size_t \<Rightarrow> ('w, int c_result) state" where
  "put_block E pkey data nvalue = do {
     (rc, cmd) \<leftarrow> lcb_prepare E
       [CmdCreate LCB_STORE_UPSERT,
        CmdCollection DEFAULT_SCOPE_STRING BLOCKS_COLLECTION_STRING,
        CmdDatatypeRaw, CmdKey pkey] new_request;
     if rc \<noteq> LCB_SUCCESS then State_Monad.return (Defined (- EIO))
     else if length data < unat nvalue then State_Monad.return Undefined
     else do {
       (rc, cmd) \<leftarrow> lcb_prepare E [CmdValue (take (unat nvalue) data)] cmd;
       if rc \<noteq> LCB_SUCCESS then State_Monad.return (Defined (- EIO))
       else do {
         (rc, result) \<leftarrow> sync_store E cmd;
         State_Monad.return (Defined
           (if rc \<noteq> LCB_SUCCESS then - EIO
            else if sr_status result = LCB_SUCCESS then 0
            else if sr_status result = LCB_ERR_DOCUMENT_NOT_FOUND then - ENOENT
            else - EIO)) } } }"

text \<open>
  \<open>update_block\<close> with its output parameter \<open>new_block_size\<close>, a pointer that the truncating
  caller passes as NULL (\<open>None\<close>); writing through NULL is undefined. \<open>buf = None\<close> is NULL.

  \<open>prepare_block\<close> is the part before the store: it takes what \<open>get_block\<close> returned and yields
  an exit with the result of the function (\<open>Inl\<close>), or the buffer to store with its size
  (\<open>Inr\<close>). When the buffer cannot be grown (\<open>memdupm\<close> of \<open>util.h\<close>, a larger copy, gives NULL)
  the code tests the old pointer instead of the new one, so \<open>memcpy\<close> writes through NULL. The old
  pointer is NULL when the look-up was not answered (then its length is 0 and the test leaves with
  \<open>-ENOMEM\<close>), or when the copy of the value failed (then \<open>memdupm\<close> reads through NULL, unless it
  has no memory either).
\<close>

definition isNotTruncate :: "byte list option \<Rightarrow> size_t \<Rightarrow> bool" where
  "isNotTruncate buf nbuf \<longleftrightarrow> buf \<noteq> None \<and> 0 < nbuf"

definition set_out :: "size_t option \<Rightarrow> size_t \<Rightarrow> size_t option c_result" where
  "set_out nbs v = (case nbs of None \<Rightarrow> Undefined | Some _ \<Rightarrow> Defined (Some v))"

definition prepare_block ::
  "'w env \<Rightarrow> byte list option \<Rightarrow> size_t \<Rightarrow> off_t \<Rightarrow> size_t option \<Rightarrow> int \<times> sync_get_result
   \<Rightarrow> ('w, (int + (byte list \<times> size_t \<times> size_t option)) c_result) state" where
  "prepare_block E buf nbuf offset nbs got =
     (let nupdate = offset + nbuf; fresult = fst got; result = snd got in
      if fresult \<noteq> - ENOENT \<and> fresult \<noteq> 0 then State_Monad.return (Defined (Inl fresult))
      else case (if isNotTruncate buf nbuf then buf else None) of
        None \<Rightarrow> State_Monad.return (Defined
          (if fresult = - ENOENT then Inl 0 else Inr (pointed (gr_value result), offset, nbs)))
      | Some src \<Rightarrow>
          if fresult = - ENOENT then do {
            mem \<leftarrow> malloc E nupdate;
            State_Monad.return (case mem of
              None \<Rightarrow> Defined (Inl (- ENOMEM))
            | Some dst \<Rightarrow>
                (case (set_out nbs nupdate, mem_write dst offset src nbuf) of
                   (Defined nbs', Defined data) \<Rightarrow> Defined (Inr (data, nupdate, nbs'))
                 | _ \<Rightarrow> Undefined)) }
          else if gr_nvalue result < nupdate then do {
            mem \<leftarrow> memdupm E (pointed (gr_value result)) (gr_nvalue result) nupdate;
            State_Monad.return (case (gr_value result, mem) of
              (None, _) \<Rightarrow> (if gr_nvalue result = 0 \<or> mem = None then Defined (Inl (- ENOMEM)) else Undefined)
            | (_, None) \<Rightarrow> Undefined
            | (Some _, Some new_data) \<Rightarrow>
                (case (set_out nbs nupdate, mem_write new_data offset src nbuf) of
                   (Defined nbs', Defined data) \<Rightarrow> Defined (Inr (data, nupdate, nbs'))
                 | _ \<Rightarrow> Undefined)) }
          else State_Monad.return
            (case mem_write (pointed (gr_value result)) offset src nbuf of
               Defined data \<Rightarrow> Defined (Inr (data, gr_nvalue result, nbs))
             | Undefined \<Rightarrow> Undefined))"

definition update_block ::
  "'w env \<Rightarrow> string \<Rightarrow> byte list option \<Rightarrow> size_t \<Rightarrow> off_t \<Rightarrow> size_t option
   \<Rightarrow> ('w, (int \<times> size_t option) c_result) state" where
  "update_block E pkey buf nbuf offset nbs =
     (if MAX_FILE_LEN < offset + nbuf then State_Monad.return (Defined (- EFBIG, nbs))
      else do {
        got \<leftarrow> get_block E pkey;
        block \<leftarrow> prepare_block E buf nbuf offset nbs got;
        case block of
          Undefined \<Rightarrow> State_Monad.return Undefined
        | Defined (Inl fresult) \<Rightarrow> State_Monad.return (Defined (fresult, nbs))
        | Defined (Inr (data, nvalue, nbs')) \<Rightarrow> do {
            r \<leftarrow> put_block E pkey data nvalue;
            State_Monad.return (case r of
              Undefined \<Rightarrow> Undefined | Defined fresult \<Rightarrow> Defined (fresult, nbs')) } })"

text \<open>
  \<open>read_data\<close>: the result and the bytes copied to the caller's buffer of \<open>nbuf\<close> bytes. The
  comparison of the offset is signed, the one that trims is unsigned.
\<close>

definition eof_or_error :: "int \<Rightarrow> int" where
  "eof_or_error fresult = (if fresult < 0 then - 1 else fresult)"

definition trimmed_size :: "size_t \<Rightarrow> off_t \<Rightarrow> size_t \<Rightarrow> size_t" where
  "trimmed_size max_size offset nbuf =
     (if max_size < offset + nbuf then max_size - offset else nbuf)"

definition read_data ::
  "'w env \<Rightarrow> string \<Rightarrow> size_t \<Rightarrow> off_t \<Rightarrow> ('w, (int \<times> byte list) c_result) state" where
  "read_data E pkey nbuf offset = do {
     (fresult, result) \<leftarrow> get_block E pkey;
     if fresult \<noteq> 0 then State_Monad.return (Defined (eof_or_error fresult, []))
     else
       let max_size = gr_nvalue result in
       if sint max_size \<le> sint offset then State_Monad.return (Defined (0, []))
       else
         let n = trimmed_size max_size offset nbuf in
         case (if nbuf < n then Undefined else mem_read_ptr (gr_value result) offset n) of
           Undefined \<Rightarrow> State_Monad.return Undefined
         | Defined copied \<Rightarrow> do {
             fresult \<leftarrow> update_stat_atime E pkey;
             State_Monad.return (Defined
               (eof_or_error (if fresult \<noteq> 0 then fresult else int_of_size n), copied)) } }"

definition write_data ::
  "'w env \<Rightarrow> string \<Rightarrow> byte list \<Rightarrow> size_t \<Rightarrow> off_t \<Rightarrow> ('w, int c_result) state" where
  "write_data E pkey buf nbuf offset =
     (if MAX_FILE_LEN < offset + nbuf then State_Monad.return (Defined (eof_or_error (- EFBIG)))
      else do {
        r \<leftarrow> update_block E pkey (Some buf) nbuf offset (Some 0);
        case r of
          Undefined \<Rightarrow> State_Monad.return Undefined
        | Defined (fresult, new_block_size) \<Rightarrow>
            if fresult \<noteq> 0 then State_Monad.return (Defined (eof_or_error fresult))
            else if case_option 0 id new_block_size \<noteq> 0 then do {
              fresult \<leftarrow> update_stat_size E pkey (case_option 0 id new_block_size);
              State_Monad.return (Defined
                (eof_or_error (if fresult \<noteq> 0 then fresult else int_of_size nbuf))) }
            else State_Monad.return (Defined (eof_or_error (int_of_size nbuf))) })"

definition remove_data :: "'w env \<Rightarrow> string \<Rightarrow> ('w, int) state" where
  "remove_data E pkey = do {
     (rc, cmd) \<leftarrow> lcb_prepare E
       [CmdCreate LCB_REMOVE, CmdCollection DEFAULT_SCOPE_STRING BLOCKS_COLLECTION_STRING,
        CmdKey pkey] new_request;
     if rc \<noteq> LCB_SUCCESS then State_Monad.return (- EIO)
     else do {
       p \<leftarrow> sync_remove E cmd;
       State_Monad.return (removed p) } }"

definition truncate_data :: "'w env \<Rightarrow> string \<Rightarrow> off_t \<Rightarrow> ('w, int c_result) state" where
  "truncate_data E pkey offset = do {
     r \<leftarrow> (if offset = 0 then do {
             fresult \<leftarrow> remove_data E pkey;
             State_Monad.return (Defined fresult) }
          else do {
             r \<leftarrow> update_block E pkey None 0 offset None;
             State_Monad.return (case r of Undefined \<Rightarrow> Undefined | Defined p \<Rightarrow> Defined (fst p)) });
     case r of
       Undefined \<Rightarrow> State_Monad.return Undefined
     | Defined fresult \<Rightarrow>
         if fresult \<noteq> 0 then State_Monad.return (Defined fresult)
         else do {
           fresult \<leftarrow> update_stat_size E pkey offset;
           State_Monad.return (Defined fresult) } }"

section \<open>The contents of a file\<close>

abbreviation block_id :: "string \<Rightarrow> doc_id" where
  "block_id p \<equiv> (BLOCKS_COLLECTION_STRING, p)"

definition content :: "docs \<Rightarrow> string \<Rightarrow> byte list" where
  "content d p = case_option [] id (d (block_id p))"

text \<open>
  What writing \<open>b\<close> at offset \<open>n\<close> makes of a file: the old bytes up to the offset, a filling where
  the file was shorter, the data, and what lay behind it.
\<close>

definition file_write :: "byte list \<Rightarrow> nat \<Rightarrow> byte list \<Rightarrow> byte list \<Rightarrow> byte list" where
  "file_write c n b filling = take n (c @ filling) @ b @ drop (n + length b) c"

lemma length_file_write:
  "length filling = n - length c \<Longrightarrow> length (file_write c n b filling) = max (length c) (n + length b)"
  by (auto simp: file_write_def)

lemma take_drop_file_write:
  "length filling = n - length c \<Longrightarrow> take (length b) (drop n (file_write c n b filling)) = b"
  by (auto simp: file_write_def)

lemma mem_write_file_write:
  assumes "n + length b \<le> length c" and "unat off = n" "0 \<le> sint off" "unat nb = length b"
  shows "mem_write c off b nb = Defined (file_write c n b [])"
  using assms by (simp add: mem_write_def file_write_def)

text \<open>Writing at the end of a fresh buffer whose first bytes were copied from the file.\<close>

lemma mem_write_grow:
  assumes "length c \<le> n + length b" "length m = n + length b" "unat off = n" "0 \<le> sint off"
    and "unat nb = length b"
  shows "mem_write (c @ drop (length c) m) off b nb
    = Defined (file_write c n b (take (n - length c) (drop (length c) m)))"
  using assms by (auto simp: mem_write_def file_write_def)

lemma write_range:
  assumes "unat (off :: off_t) + length b \<le> 5368709120"
  shows "unat (of_nat (length b) :: size_t) = length b"
    and "unat (off + of_nat (length b)) = unat off + length b"
    and "0 \<le> sint off"
  using assms by (simp_all add: unat_add_size sint_eq_unat)

section \<open>The operations on the blocks\<close>

lemma get_block_spec:
  assumes "server_ok E D C" "key_ok p"
  shows "result_of (get_block E p) w =
      (case D w (block_id p) of
         None \<Rightarrow> (- ENOENT, calloc_get_result\<lparr>gr_status := LCB_ERR_DOCUMENT_NOT_FOUND\<rparr>)
       | Some v \<Rightarrow> (0, \<lparr>gr_status = LCB_SUCCESS, gr_key = p, gr_nkey = of_nat (length p),
           gr_value = Some v, gr_nvalue = of_nat (length v), gr_cas = C w (block_id p), gr_flags = 0\<rparr>))"
    and "D (after (get_block E p) w) = D w"
    and "C (after (get_block E p) w) = C w"
  using assms
  by (auto simp: get_block_def prepared prepared_get request_simps key_ok_def split: option.split)

lemma put_block_spec:
  assumes "server_ok E D C" "key_ok p" "unat n \<le> length data"
  shows "result_of (put_block E p data n) w =
      Defined (if fits (take (unat n) data) then 0 else - EIO)"
    and "D (after (put_block E p data n) w) =
      (if fits (take (unat n) data) then (D w)(block_id p \<mapsto> take (unat n) data) else D w)"
  using assms
  by (auto simp: put_block_def prepared prepared_store prepare_after request_simps key_ok_def
      kv_simps)

lemma put_block_frame:
  assumes "server_ok E D C" "key_ok p" "x \<noteq> block_id p"
  shows "D (after (put_block E p data n) w) x = D w x"
  using assms
  by (auto simp: put_block_def prepared prepared_store prepare_after request_simps key_ok_def
      kv_simps)

lemma remove_data_spec:
  assumes "server_ok E D C" "key_ok p"
  shows "result_of (remove_data E p) w = (if D w (block_id p) = None then - ENOENT else 0)"
    and "D (after (remove_data E p) w) = (D w)(block_id p := None)"
  using assms
  by (auto simp: remove_data_def removed_def prepared prepared_remove request_simps key_ok_def
      kv_simps fun_upd_idem)

text \<open>The part of \<open>update_block\<close> before the store, for a write that stays inside the file limit.\<close>

lemma malloc_sized:
  assumes "heap_ok E"
  obtains m where "result_of (malloc E n) w = Some m" and "length m = unat n"
  using assms unfolding heap_ok_def heap_sizes_def by blast

lemma prepare_block_write:
  assumes heap: "heap_ok E" and b: "b \<noteq> []" and lim: "unat off + length b \<le> 5368709120"
    and c: "fst got = - ENOENT \<and> c = [] \<or>
            fst got = 0 \<and> gr_value (snd got) = Some c \<and> gr_nvalue (snd got) = of_nat (length c)"
    and fit: "fits c"
  shows "\<exists>filling. length filling = unat off - length c \<and>
    result_of (prepare_block E (Some b) (of_nat (length b)) off (Some 0) got) w =
      Defined (Inr (file_write c (unat off) b filling,
        of_nat (max (length c) (unat off + length b)),
        Some (if length c < unat off + length b then off + of_nat (length b) else 0)))"
proof -
  let ?n = "of_nat (length b) :: size_t"
  note r = write_range [OF lim]
  obtain m where m: "result_of (malloc E (off + ?n)) w = Some m" "length m = unat off + length b"
    using malloc_sized [OF heap] r(2) by metis
  have nt: "isNotTruncate (Some b) ?n"
    using b r(1) by (auto simp: isNotTruncate_def word_gt_0)
  have upd: "of_nat (unat off + length b) = off + ?n"
    using arg_cong [OF r(2), where f = "of_nat :: nat \<Rightarrow> size_t"] by simp
  have lc: "unat (of_nat (length c) :: size_t) = length c"
    using fit by (simp add: fits_def)
  have grow: "mem_write (c @ drop (length c) m) off b ?n
      = Defined (file_write c (unat off) b (take (unat off - length c) (drop (length c) m)))"
    if "length c < unat off + length b"
    using that m r by (intro mem_write_grow) auto
  consider "fst got = - ENOENT" "c = []"
    | "fst got = 0" "gr_value (snd got) = Some c" "gr_nvalue (snd got) = of_nat (length c)"
      "length c < unat off + length b"
    | "fst got = 0" "gr_value (snd got) = Some c" "gr_nvalue (snd got) = of_nat (length c)"
      "unat off + length b \<le> length c"
    using c by fastforce
  then show ?thesis
  proof cases
    case 1
    then show ?thesis
      using grow m b nt upd
      by (intro exI [of _ "take (unat off) m"])
        (auto simp: prepare_block_def set_out_def Let_def)
  next
    case 2
    then have "gr_nvalue (snd got) < off + ?n"
      using lc r(2) by (simp add: word_less_nat_alt)
    with 2 show ?thesis
      using grow m nt upd lc
      by (intro exI [of _ "take (unat off - length c) (drop (length c) m)"])
        (auto simp: prepare_block_def memdupm_def set_out_def Let_def max_def)
  next
    case 3
    then have "\<not> gr_nvalue (snd got) < off + ?n"
      using lc r(2) by (simp add: word_less_nat_alt)
    moreover have "mem_write c off b ?n = Defined (file_write c (unat off) b [])"
      using 3 r by (intro mem_write_file_write) auto
    ultimately show ?thesis
      using 3 nt by (intro exI [of _ "[]"]) (auto simp: prepare_block_def Let_def max_def)
  qed
qed

lemma prepare_block_docs:
  assumes "server_ok E D C"
  shows "D (after (prepare_block E buf n off nbs got) w) = D w"
  using assms by (simp add: prepare_block_def memdupm_def Let_def split: option.split)

text \<open>A write as a whole: the new contents, whether the file grew, and the result; a file over
  the server's limit for a document is refused and stays as it was.\<close>

lemma content_fits: "server_ok E D C \<Longrightarrow> fits (content (D w) p)"
  using sync.doc_size [of E D C w "block_id p"]
  by (auto simp: content_def fits_def split: option.split)

lemma update_block_write:
  fixes E :: "'w env" and w :: 'w
  assumes ok: "server_ok E D C" "heap_ok E" "key_ok p" and b: "b \<noteq> []"
    and lim: "unat off + length b \<le> 5368709120"
  defines "c \<equiv> content (D w) p" and "m \<equiv> update_block E p (Some b) (of_nat (length b)) off (Some 0)"
  shows "\<exists>filling. length filling = unat off - length c \<and>
    result_of m w = Defined (if unat off + length b \<le> 20971520 then 0 else - EIO,
        Some (if length c < unat off + length b then off + of_nat (length b) else 0)) \<and>
    D (after m w) = (if unat off + length b \<le> 20971520
       then (D w)(block_id p \<mapsto> file_write c (unat off) b filling) else D w)"
proof -
  note r = write_range [OF lim]
  have fit: "fits c" unfolding c_def by (rule content_fits [OF ok(1)])
  let ?got = "result_of (get_block E p) w" and ?w = "after (get_block E p) w"
  have got: "fst ?got = - ENOENT \<and> c = [] \<or>
      fst ?got = 0 \<and> gr_value (snd ?got) = Some c \<and> gr_nvalue (snd ?got) = of_nat (length c)"
    by (simp add: get_block_spec [OF ok(1,3)] c_def content_def split: option.split)
  obtain filling where f: "length filling = unat off - length c"
    "result_of (prepare_block E (Some b) (of_nat (length b)) off (Some 0) ?got) ?w =
      Defined (Inr (file_write c (unat off) b filling,
        of_nat (max (length c) (unat off + length b)),
        Some (if length c < unat off + length b then off + of_nat (length b) else 0)))"
    using prepare_block_write [OF ok(2) b lim got fit] by blast
  let ?data = "file_write c (unat off) b filling"
  have len: "length ?data = max (length c) (unat off + length b)"
    using f(1) by (rule length_file_write)
  have nv: "unat (of_nat (max (length c) (unat off + length b)) :: size_t) = length ?data"
    unfolding len using fit lim by (intro unat_of_nat_size) (auto simp: fits_def)
  have fits: "fits ?data \<longleftrightarrow> unat off + length b \<le> 20971520"
    using fit by (auto simp: fits_def len)
  have small: "\<not> MAX_FILE_LEN < off + of_nat (length b)"
    using r lim by (simp add: word_less_nat_alt)
  show ?thesis
    using f nv fits small
    by (intro exI [of _ filling])
      (simp add: m_def update_block_def put_block_spec [OF ok(1,3)] prepare_block_docs [OF ok(1)]
        get_block_spec(2) [OF ok(1,3)])
qed

lemma eof_or_error_simps [simp]:
  "eof_or_error (int n) = int n" "eof_or_error 0 = 0" "eof_or_error (- numeral k) = - 1"
  by (simp_all add: eof_or_error_def)

lemma write_result_int:
  assumes "unat (off :: off_t) + length b \<le> 20971520"
  shows "int_of_size (of_nat (length b)) = int (length b)"
proof -
  have "unat (of_nat (length b) :: size_t) = length b"
    using assms by (intro unat_of_nat_size) simp
  then show ?thesis using assms by (simp add: int_of_size_small)
qed

lemma write_data_at:
  fixes E :: "'w env" and w :: 'w
  assumes ok: "server_ok E D C" "clock_ok E" "heap_ok E" "key_ok p"
    and st: "stat_at (D w) p = Some s" and b: "b \<noteq> []" and lim: "unat off + length b \<le> 20971520"
  defines "c \<equiv> content (D w) p" and "m \<equiv> write_data E p b (of_nat (length b)) off"
    and "ts \<equiv> update_time E p (after (update_block E p (Some b) (of_nat (length b)) off (Some 0)) w)"
  shows "\<exists>filling. length filling = unat off - length c \<and>
    result_of m w = Defined (int (length b)) \<and>
    D (after m w) =
      (if length c < unat off + length b
       then (D w)(block_id p \<mapsto> file_write c (unat off) b filling,
              stat_id p \<mapsto> stat_bytes (s\<lparr>st_mtime := tv_sec ts, st_mtimensec := tv_nsec ts,
                st_size := of_nat (unat off + length b)\<rparr>))
       else (D w)(block_id p \<mapsto> file_write c (unat off) b filling))"
proof -
  have lim': "unat off + length b \<le> 5368709120" using lim by simp
  note r = write_range [OF lim']
  let ?u = "update_block E p (Some b) (of_nat (length b)) off (Some 0)"
  obtain filling where f: "length filling = unat off - length c"
    "result_of ?u w = Defined (0, Some (if length c < unat off + length b
        then off + of_nat (length b) else 0))"
    "D (after ?u w) = (D w)(block_id p \<mapsto> file_write c (unat off) b filling)"
    using update_block_write [OF ok(1,3,4) b lim', of w] lim unfolding c_def by auto
  have small: "\<not> MAX_FILE_LEN < off + of_nat (length b)"
    using r lim by (simp add: word_less_nat_alt)
  have nz: "off + of_nat (length b) \<noteq> 0"
    using r(2) b by (metis add_is_0 length_0_conv unat_0)
  have sz: "off + of_nat (length b) = (of_nat (unat off + length b) :: size_t)"
    using arg_cong [OF r(2), where f = "of_nat :: nat \<Rightarrow> size_t"] by simp
  have st': "stat_at (D (after ?u w)) p = Some s"
    using st by (simp add: f(3) stat_at_docs)
  have ts: "result_of (update_stat_size E p (off + of_nat (length b))) (after ?u w) = 0"
    "D (after (update_stat_size E p (off + of_nat (length b))) (after ?u w)) =
      (D w)(block_id p \<mapsto> file_write c (unat off) b filling,
        stat_id p \<mapsto> stat_bytes (s\<lparr>st_mtime := tv_sec ts, st_mtimensec := tv_nsec ts,
          st_size := off + of_nat (length b)\<rparr>))"
    using update_stat_size_at [OF ok(1,2,4) st', of "off + of_nat (length b)", folded ts_def]
    unfolding f(3) by (blast, blast)
  have n: "int_of_size (of_nat (length b)) = int (length b)"
    using lim by (rule write_result_int)
  show ?thesis
  proof (cases "length c < unat off + length b")
    case True
    then have "result_of m w = Defined (int (length b))"
      and "D (after m w) = (D w)(block_id p \<mapsto> file_write c (unat off) b filling,
        stat_id p \<mapsto> stat_bytes (s\<lparr>st_mtime := tv_sec ts, st_mtimensec := tv_nsec ts,
          st_size := off + of_nat (length b)\<rparr>))"
      using f(1,2) ts small nz n by (simp_all add: m_def write_data_def)
    with True f(1) sz show ?thesis by auto
  next
    case False
    then have "result_of m w = Defined (int (length b))"
      and "D (after m w) = (D w)(block_id p \<mapsto> file_write c (unat off) b filling)"
      using f small n by (simp_all add: m_def write_data_def)
    with False f(1) show ?thesis by auto
  qed
qed

lemma write_data_spec:
  fixes E :: "'w env" and w :: 'w
  assumes "server_ok E D C" "clock_ok E" "heap_ok E" "key_ok p"
    and "stat_at (D w) p = Some s" "b \<noteq> []" "unat off + length b \<le> 20971520"
  defines "c \<equiv> content (D w) p" and "m \<equiv> write_data E p b (of_nat (length b)) off"
  shows "\<exists>filling (ts :: timespec). length filling = unat off - length c \<and>
    result_of m w = Defined (int (length b)) \<and>
    D (after m w) =
      (if length c < unat off + length b
       then (D w)(block_id p \<mapsto> file_write c (unat off) b filling,
              stat_id p \<mapsto> stat_bytes (s\<lparr>st_mtime := tv_sec ts, st_mtimensec := tv_nsec ts,
                st_size := of_nat (unat off + length b)\<rparr>))
       else (D w)(block_id p \<mapsto> file_write c (unat off) b filling))"
  using write_data_at [OF assms(1-7)] unfolding c_def m_def by blast

text \<open>Reading: nothing behind the end, otherwise the bytes of the range that there are.\<close>

lemma sint_of_nat_size: "n < 2 ^ 63 \<Longrightarrow> sint (of_nat n :: size_t) = int n"
  by (simp add: sint_eq_unat)

lemma read_data_at:
  fixes E :: "'w env" and w :: 'w
  assumes ok: "server_ok E D C" "clock_ok E" "key_ok p"
    and st: "stat_at (D w) p = Some s" and v: "D w (block_id p) = Some v"
    and off: "0 \<le> sint off" and nb: "unat nbuf < 2 ^ 31"
  defines "m \<equiv> read_data E p nbuf off" and "ts \<equiv> update_time E p (after (get_block E p) w)"
  shows "result_of m w =
      (if length v \<le> unat off then Defined (0, [])
       else Defined (int (min (unat nbuf) (length v - unat off)), take (unat nbuf) (drop (unat off) v))) \<and>
    D (after m w) =
      (if length v \<le> unat off then D w
       else (D w)(stat_id p \<mapsto> stat_bytes (s\<lparr>st_atime := tv_sec ts, st_atimensec := tv_nsec ts\<rparr>)))"
proof -
  have fit: "length v \<le> 20971520"
    using sync.doc_size [OF ok(1) v] by (simp add: fits_def)
  have lv: "unat (of_nat (length v) :: size_t) = length v" "sint (of_nat (length v) :: size_t) = int (length v)"
    using fit by (simp_all add: sint_of_nat_size)
  note g = get_block_spec [OF ok(1,3), of w]
  have eof: "sint (of_nat (length v) :: size_t) \<le> sint off \<longleftrightarrow> length v \<le> unat off"
    unfolding lv(2) sint_nonneg_unat [OF off] by (simp only: of_nat_le_iff)
  show ?thesis
  proof (cases "length v \<le> unat off")
    case True
    then show ?thesis
      using v eof by (simp add: m_def read_data_def g Let_def)
  next
    case False
    then have o: "unat off < 20971520" using fit by simp
    then have sum: "unat (off + nbuf) = unat off + unat nbuf"
      using nb by (intro unat_add_size) simp
    define n where "n = trimmed_size (of_nat (length v)) off nbuf"
    have n: "unat n = min (unat nbuf) (length v - unat off)"
      using False lv sum by (auto simp: n_def trimmed_size_def word_less_nat_alt unat_sub_if' min_def)
    have rd: "mem_read v off n = Defined (take (unat nbuf) (drop (unat off) v))"
      using False n off by (auto simp: mem_read_def min_def)
    have small: "\<not> nbuf < n" "int_of_size n = int (unat n)"
      using n nb by (auto simp: word_less_nat_alt int_of_size_small)
    have st': "stat_at (D (after (get_block E p) w)) p = Some s"
      using st by (simp add: g)
    note ts = update_stat_atime_at [OF ok(1,2,3) st', folded ts_def]
    show ?thesis
      using False v eof rd small ts n
      by (simp add: m_def read_data_def g Let_def n_def [symmetric])
  qed
qed

lemma read_data_spec:
  fixes E :: "'w env" and w :: 'w
  assumes "server_ok E D C" "clock_ok E" "key_ok p"
    and "stat_at (D w) p = Some s" "D w (block_id p) = Some v" "0 \<le> sint off" "unat nbuf < 2 ^ 31"
  defines "m \<equiv> read_data E p nbuf off"
  shows "\<exists>ts :: timespec.
    result_of m w =
      (if length v \<le> unat off then Defined (0, [])
       else Defined (int (min (unat nbuf) (length v - unat off)), take (unat nbuf) (drop (unat off) v))) \<and>
    D (after m w) =
      (if length v \<le> unat off then D w
       else (D w)(stat_id p \<mapsto> stat_bytes (s\<lparr>st_atime := tv_sec ts, st_atimensec := tv_nsec ts\<rparr>)))"
  using read_data_at [OF assms(1-7)] unfolding m_def by blast

text \<open>Truncating, case by case: \<open>update_block\<close> without data.\<close>

lemma update_block_truncate:
  assumes ok: "server_ok E D C" "key_ok p" and lim: "unat off \<le> 5368709120"
  defines "m \<equiv> update_block E p None 0 off None"
  shows "D w (block_id p) = None \<Longrightarrow> result_of m w = Defined (0, None) \<and> D (after m w) = D w"
    and "D w (block_id p) = Some v \<Longrightarrow> unat off \<le> length v \<Longrightarrow>
      result_of m w = Defined (0, None) \<and> D (after m w) = (D w)(block_id p \<mapsto> take (unat off) v)"
    and "D w (block_id p) = Some v \<Longrightarrow> length v < unat off \<Longrightarrow> result_of m w = Undefined"
proof -
  have small: "\<not> MAX_FILE_LEN < off"
    using lim by (simp add: word_less_nat_alt)
  note g = get_block_spec [OF ok, of w]
  show "D w (block_id p) = None \<Longrightarrow> result_of m w = Defined (0, None) \<and> D (after m w) = D w"
    using small by (simp add: m_def update_block_def g prepare_block_def isNotTruncate_def)
  show "result_of m w = Defined (0, None) \<and> D (after m w) = (D w)(block_id p \<mapsto> take (unat off) v)"
    if v: "D w (block_id p) = Some v" and le: "unat off \<le> length v"
  proof -
    have "fits (take (unat off) v)"
      using sync.doc_size [OF ok(1) v] by (simp add: fits_def)
    then show ?thesis
      using small v le
      by (simp add: m_def update_block_def g prepare_block_def isNotTruncate_def
          put_block_spec [OF ok])
  qed
  show "D w (block_id p) = Some v \<Longrightarrow> length v < unat off \<Longrightarrow> result_of m w = Undefined"
    using small ok by (simp add: m_def update_block_def g prepare_block_def isNotTruncate_def
        put_block_def prepared)
qed

lemma truncate_data_at:
  fixes w :: 'w
  assumes ok: "server_ok E D C" "clock_ok E" "key_ok p" and st: "stat_at (D w) p = Some s"
    and cut: "unat off \<le> length (content (D w) p) \<and> (off = 0 \<longrightarrow> D w (block_id p) \<noteq> None)"
  defines "m \<equiv> truncate_data E p off"
    and "ts \<equiv> update_time E p (if off = 0 then after (remove_data E p) w
      else after (update_block E p None 0 off None) w)"
  shows "result_of m w = Defined 0 \<and>
    D (after m w) = (D w)(
      block_id p := (if off = 0 then None else Some (take (unat off) (content (D w) p))),
      stat_id p \<mapsto> stat_bytes (s\<lparr>st_mtime := tv_sec ts, st_mtimensec := tv_nsec ts, st_size := off\<rparr>))"
proof -
  define u :: "('w, int c_result) state" where "u = (if off = 0
      then State_Monad.bind (remove_data E p) (\<lambda>fresult. State_Monad.return (Defined fresult))
      else State_Monad.bind (update_block E p None 0 off None) (\<lambda>r. State_Monad.return
        (case r of Undefined \<Rightarrow> Undefined | Defined p \<Rightarrow> Defined (fst p))))"
  have fit: "fits (content (D w) p)" by (rule content_fits [OF ok(1)])
  have u: "result_of u w = Defined 0 \<and> D (after u w) =
      (D w)(block_id p := (if off = 0 then None else Some (take (unat off) (content (D w) p))))"
  proof (cases "off = 0")
    case True
    then show ?thesis using cut by (auto simp: u_def remove_data_spec [OF ok(1,3)])
  next
    case False
    then have "0 < unat off" by (simp add: unat_gt_0)
    with cut obtain v where v: "D w (block_id p) = Some v" "content (D w) p = v"
      by (auto simp: content_def split: option.splits)
    then have "unat off \<le> 5368709120" "unat off \<le> length v"
      using fit cut by (auto simp: fits_def)
    from update_block_truncate(2) [OF ok(1,3) this(1) v(1) this(2)] False v
    show ?thesis by (simp add: u_def)
  qed
  have st': "stat_at (D (after u w)) p = Some s"
    using st u by (simp add: stat_at_docs)
  have t: "ts = update_time E p (after u w)" by (simp add: ts_def u_def)
  have at: "result_of (update_stat_size E p off) (after u w) = 0"
    "D (after (update_stat_size E p off) (after u w)) = (D (after u w))(stat_id p \<mapsto>
      stat_bytes (s\<lparr>st_mtime := tv_sec ts, st_mtimensec := tv_nsec ts, st_size := off\<rparr>))"
    using update_stat_size_at [OF ok(1,2,3) st', of off] unfolding t by (blast, blast)
  have m: "result_of m w = Defined 0"
    "D (after m w) = D (after (update_stat_size E p off) (after u w))"
    using conjunct1 [OF u] at(1) unfolding m_def truncate_data_def u_def [symmetric] by simp_all
  show ?thesis
    unfolding m at(2) conjunct2 [OF u] by (rule conjI) (rule refl)+
qed

lemma truncate_data_spec:
  fixes w :: 'w
  assumes "server_ok E D C" "clock_ok E" "key_ok p" "stat_at (D w) p = Some s"
    and "unat off \<le> length (content (D w) p) \<and> (off = 0 \<longrightarrow> D w (block_id p) \<noteq> None)"
  defines "m \<equiv> truncate_data E p off"
  shows "\<exists>ts :: timespec. result_of m w = Defined 0 \<and>
    D (after m w) = (D w)(
      block_id p := (if off = 0 then None else Some (take (unat off) (content (D w) p))),
      stat_id p \<mapsto> stat_bytes (s\<lparr>st_mtime := tv_sec ts, st_mtimensec := tv_nsec ts, st_size := off\<rparr>))"
  using truncate_data_at [OF assms(1-5)] unfolding m_def by blast

text \<open>What the contract of \<open>document_op\<close> is for operations that touch a file's data and its
  stat: every other document is as before, whatever the outcome.\<close>

lemma update_block_frame:
  assumes "server_ok E D C" "key_ok p" "x \<noteq> block_id p"
  shows "D (after (update_block E p buf n off nbs) w) x = D w x"
  using assms
  by (auto simp: update_block_def get_block_spec(2) prepare_block_docs put_block_frame
      split: c_result.split sum.split)

lemma data_ops_frame:
  assumes "server_ok E D C" "key_ok p" "x \<noteq> block_id p" "x \<noteq> stat_id p"
  shows "D (after (read_data E p n off) w) x = D w x"
    and "D (after (write_data E p b n off) w) x = D w x"
    and "D (after (truncate_data E p off) w) x = D w x"
  using assms
  by (auto simp: read_data_def write_data_def truncate_data_def Let_def get_block_spec(2)
      remove_data_spec update_block_frame update_frame split: c_result.split)

interpretation remove_data_op: document_op server_ok block_id "\<lambda>E p (_ :: unit). remove_data E p"
  by unfold_locales (simp add: remove_data_spec)

interpretation put_block_op: document_op server_ok block_id "\<lambda>E p a. put_block E p (fst a) (snd a)"
  by unfold_locales (simp add: put_block_frame)

section \<open>Results in any world\<close>

lemma get_block_le [nonpos]: "fst (result_of (get_block E p) w) \<le> 0"
  by (simp add: get_block_def split: prod.split)

lemma prepare_block_le:
  "result_of (prepare_block E buf n off nbs got) w = Defined (Inl r) \<Longrightarrow> fst got \<le> 0 \<Longrightarrow> r \<le> 0"
  by (auto simp: prepare_block_def memdupm_def Let_def split: if_splits option.splits c_result.splits)

lemma put_block_le: "result_of (put_block E p data n) w = Defined r \<Longrightarrow> r \<le> 0"
  by (auto simp: put_block_def split: if_splits prod.splits)

lemma update_block_le:
  assumes "result_of (update_block E p buf n off nbs) w = Defined (r, nbs')"
  shows "r \<le> 0"
proof (cases "MAX_FILE_LEN < off + n")
  case True
  then show ?thesis using assms by (simp add: update_block_def)
next
  case False
  let ?got = "result_of (get_block E p) w" and ?w = "after (get_block E p) w"
  show ?thesis
  proof (cases "result_of (prepare_block E buf n off nbs ?got) ?w")
    case Undefined
    then show ?thesis using assms False by (simp add: update_block_def)
  next
    case (Defined x)
    show ?thesis
    proof (cases x)
      case (Inl y)
      with Defined have "y \<le> 0" using prepare_block_le get_block_le by metis
      with Inl Defined show ?thesis using assms False by (simp add: update_block_def)
    next
      case (Inr y)
      then show ?thesis
        using assms False Defined put_block_le
        by (cases y) (auto simp: update_block_def split: c_result.splits)
    qed
  qed
qed

lemma write_data_results:
  "result_of (write_data E p b n off) w = Undefined \<or>
   result_of (write_data E p b n off) w = Defined (- 1) \<or>
   result_of (write_data E p b n off) w = Defined (int_of_size n)"
proof (cases "MAX_FILE_LEN < off + n")
  case True
  then show ?thesis by (simp add: write_data_def)
next
  case False
  have neg: "r \<le> 0 \<Longrightarrow> r \<noteq> 0 \<Longrightarrow> eof_or_error r = - 1" for r
    by (simp add: eof_or_error_def)
  have last: "eof_or_error r = - 1 \<or> eof_or_error r = r" for r
    by (simp add: eof_or_error_def)
  show ?thesis
  proof (cases "result_of (update_block E p (Some b) n off (Some 0)) w")
    case Undefined
    then show ?thesis using False by (simp add: write_data_def)
  next
    case (Defined x)
    obtain fr nbs where x: "x = (fr, nbs)" by (cases x)
    have "fr \<le> 0" using update_block_le [of E p "Some b" n off "Some 0" w fr nbs] Defined x by simp
    then show ?thesis
      using False Defined x neg neg [OF update_stat_le(2)] last [of "int_of_size n"]
      by (auto simp: write_data_def)
  qed
qed

text \<open>
  A read never leaves the buffers, whatever the server and the clock do, for offsets that are not
  negative: the values the library hands over have the sizes of objects in memory, and there is
  memory for their copies.
\<close>

definition values_fit :: "'w env \<Rightarrow> bool" where
  "values_fit E \<longleftrightarrow> (\<forall>w. \<forall>resp \<in> set (snd (result_of (lcb_wait E) w)). length (rs_value resp) < 2 ^ 63)"

definition value_held :: "sync_get_result \<Rightarrow> bool" where
  "value_held res \<longleftrightarrow> (case gr_value res of
     None \<Rightarrow> gr_nvalue res = 0
   | Some v \<Rightarrow> gr_nvalue res = of_nat (length v) \<and> length v < 2 ^ 63)"

lemma callbacks_held:
  assumes "heap_ok E"
  shows "\<forall>resp \<in> set rs. length (rs_value resp) < 2 ^ 63 \<Longrightarrow> value_held res \<Longrightarrow>
    value_held (result_of (sync_get_callbacks E rs res) w)"
proof (induction rs arbitrary: res w)
  case (Cons resp rs)
  have "result_of (copy_value E (rs_value resp)) w = Some (rs_value resp)"
    by (rule heap_copies [OF assms])
  then have "value_held (result_of (sync_get_callback E resp res) w)"
    using Cons.prems
    by (cases "rs_status resp = LCB_SUCCESS")
      (simp_all add: sync_get_callback_def value_held_def split: option.splits)
  with Cons show ?case by simp
qed simp

lemma get_block_held:
  assumes "heap_ok E" "values_fit E"
  shows "value_held (snd (result_of (get_block E p) w))"
proof -
  have zero: "value_held calloc_get_result"
    by (simp add: value_held_def calloc_get_result_def)
  have "value_held (snd (result_of (sync_get E r) w))" for r w
    using assms(2) zero
    by (auto simp: sync_get_def values_fit_def split: prod.split intro!: callbacks_held [OF assms(1)]
        dest: spec [where x = "after (lcb_cmd_destroy E) (after (lcb_submit E r) w)"])
  then show ?thesis
    using zero by (auto simp: get_block_def split: prod.split)
qed

lemma trimmed_inside:
  assumes "length v < 2 ^ 63" "0 \<le> sint off" "unat off < length v" "unat n < 2 ^ 31"
  defines "k \<equiv> trimmed_size (of_nat (length v)) off n"
  shows "unat k = min (unat n) (length v - unat off)"
proof -
  have lv: "unat (of_nat (length v) :: size_t) = length v"
    using assms(1) by (intro unat_of_nat_size) simp
  have sum: "unat (off + n) = unat off + unat n"
    using assms(1,3,4) by (intro unat_add_size) simp
  show ?thesis
    using assms(3) lv sum by (auto simp: k_def trimmed_size_def word_less_nat_alt unat_sub_if' min_def)
qed

lemma read_data_results:
  assumes "heap_ok E" "values_fit E" "0 \<le> sint off" "unat n < 2 ^ 31"
  shows "\<exists>b r. result_of (read_data E p n off) w = Defined (r, b) \<and> length b \<le> unat n \<and>
    (r = - 1 \<or> r = int (length b))"
proof -
  let ?res = "snd (result_of (get_block E p) w)" and ?w = "after (get_block E p) w"
  have neg: "r \<le> 0 \<Longrightarrow> r \<noteq> 0 \<Longrightarrow> eof_or_error r = - 1" for r
    by (simp add: eof_or_error_def)
  show ?thesis
  proof (cases "fst (result_of (get_block E p) w) = 0 \<and> \<not> sint (gr_nvalue ?res) \<le> sint off")
    case False
    then show ?thesis
      using neg [OF get_block_le] by (auto simp: read_data_def Let_def)
  next
    case True
    then obtain v where v: "gr_value ?res = Some v" "gr_nvalue ?res = of_nat (length v)" "length v < 2 ^ 63"
      using get_block_held [OF assms(1,2), of p w] assms(3) by (auto simp: value_held_def split: option.splits)
    then have "sint (gr_nvalue ?res) = int (length v)" by (simp add: sint_of_nat_size)
    then have "int (unat off) < int (length v)"
      using True sint_nonneg_unat [OF assms(3)] by linarith
    then have off: "unat off < length v" by (simp only: of_nat_less_iff)
    define k where "k = trimmed_size (of_nat (length v)) off n"
    have k: "unat k = min (unat n) (length v - unat off)"
      unfolding k_def by (rule trimmed_inside [OF v(3) assms(3) off assms(4)])
    then have rd: "mem_read v off k = Defined (take (unat k) (drop (unat off) v))"
      using off assms(3) by (auto simp: mem_read_def)
    have "\<not> n < k" "int_of_size k = int (unat k)"
      using k assms(4) by (auto simp: word_less_nat_alt int_of_size_small)
    then show ?thesis
      using True v(1,2) k rd neg [OF update_stat_le(1), of E p ?w]
      by (cases "result_of (update_stat_atime E p) ?w = 0")
        (simp_all add: read_data_def Let_def k_def [symmetric])
  qed
qed

end
