(* ===== verification/Operations.thy ===== *)
theory Operations
  imports Dentries Blocks
begin

text \<open>
  \<open>cbfuse.c\<close>: the FUSE handlers, the creation of the root directory and the check of the root at
  start-up. A handler returns the integer it hands to FUSE; out-parameters are results of their
  own. Then what the handlers do to the documents in a world that behaves.
\<close>

section \<open>Handlers\<close>

text \<open>The fields of \<open>struct stat\<close> that \<open>cbfuse_getattr\<close> fills; the others keep what FUSE put there.\<close>

record file_attr =
  fa_uid :: "32 word"
  fa_gid :: "32 word"
  fa_mode :: mode_t
  fa_atime :: "64 word"
  fa_atimensec :: "64 word"
  fa_mtime :: "64 word"
  fa_mtimensec :: "64 word"
  fa_ctime :: "64 word"
  fa_ctimensec :: "64 word"
  fa_size :: off_t

definition fill_attr :: "32 word \<times> 32 word \<Rightarrow> cbfuse_stat \<Rightarrow> file_attr" where
  "fill_attr fc s = \<lparr>fa_uid = fst fc, fa_gid = snd fc, fa_mode = st_mode s,
     fa_atime = st_atime s, fa_atimensec = st_atimensec s,
     fa_mtime = st_mtime s, fa_mtimensec = st_mtimensec s,
     fa_ctime = st_ctime s, fa_ctimensec = st_ctimensec s, fa_size = st_size s\<rparr>"

text \<open>The error for a path that is too long is the positive number, as in the source.\<close>

definition cbfuse_getattr :: "'w env \<Rightarrow> string \<Rightarrow> file_attr \<Rightarrow> ('w, int \<times> file_attr) state" where
  "cbfuse_getattr E path stbuf = do {
     (rc, cmd) \<leftarrow> lcb_prepare E
       [CmdCreate LCB_GET, CmdCollection DEFAULT_SCOPE_STRING STATS_COLLECTION_STRING] new_request;
     if rc \<noteq> LCB_SUCCESS then State_Monad.return (- EIO, stbuf)
     else if path_too_long path then State_Monad.return (ENAMETOOLONG, stbuf)
     else do {
       (rc, cmd) \<leftarrow> lcb_prepare E [CmdKey path] cmd;
       if rc \<noteq> LCB_SUCCESS then State_Monad.return (- EIO, stbuf)
       else do {
         (rc, result) \<leftarrow> sync_get E cmd;
         if rc \<noteq> LCB_SUCCESS then State_Monad.return (- EIO, stbuf)
         else if gr_status result \<noteq> LCB_SUCCESS then State_Monad.return (- ENOENT, stbuf)
         else if gr_nvalue result \<noteq> CBFUSE_STAT_STRUCT_SIZE
         then State_Monad.return (- EBADF, stbuf)
         else do {
           fc \<leftarrow> fuse_context E;
           State_Monad.return (0, fill_attr fc (stat_of_bytes (pointed (gr_value result)))) } } } }"

definition cbfuse_open :: "'w env \<Rightarrow> string \<Rightarrow> ('w, int) state" where
  "cbfuse_open E path =
     (if path_too_long path then State_Monad.return ENAMETOOLONG
      else do {
        (fresult, stat, cas) \<leftarrow> get_stat E path zero_stat None;
        State_Monad.return fresult })"

definition cbfuse_create :: "'w env \<Rightarrow> string \<Rightarrow> mode_t \<Rightarrow> ('w, int) state" where
  "cbfuse_create E path mode =
     (case (dirname path, basename path) of
        (Some dname, Some bname) \<Rightarrow>
          if \<not> S_ISREG mode then State_Monad.return (- EINVAL)
          else if path_too_long path then State_Monad.return ENAMETOOLONG
          else do {
            fresult \<leftarrow> insert_stat E path mode;
            if fresult \<noteq> 0 then State_Monad.return fresult
            else add_child_to_dentry E dname bname }
      | _ \<Rightarrow> State_Monad.return (- ENOENT))"

definition cbfuse_unlink :: "'w env \<Rightarrow> string \<Rightarrow> ('w, int) state" where
  "cbfuse_unlink E path =
     (case (dirname path, basename path) of
        (Some dname, Some bname) \<Rightarrow> do {
          _ \<leftarrow> remove_data E path;
          _ \<leftarrow> remove_child_from_dentry E dname bname;
          remove_stat E path }
      | _ \<Rightarrow> State_Monad.return (- ENOENT))"

text \<open>
  \<open>filler\<close> is FUSE's callback: it gets the buffer, a name and the offset of the next entry and
  returns 0, or 1 when the buffer is full. The loop goes on whatever it returns.
\<close>

fun readdir_loop ::
  "cjson_lib \<Rightarrow> ('b \<Rightarrow> string \<Rightarrow> int \<Rightarrow> int \<times> 'b) \<Rightarrow> int \<Rightarrow> int \<Rightarrow> int \<Rightarrow> json list \<Rightarrow> 'b \<Rightarrow> int \<times> 'b" where
  "readdir_loop J filler offset child_offset fresult [] buf = (fresult, buf)"
| "readdir_loop J filler offset child_offset fresult (child # children) buf =
     (if offset \<le> child_offset
      then (if \<not> cJSON_IsString J (Some child) then (0, buf)
            else (case filler buf (cJSON_GetStringValue J child) (child_offset + 1) of
                (fresult', buf') \<Rightarrow>
                  readdir_loop J filler offset (child_offset + 1) fresult' children buf'))
      else readdir_loop J filler offset (child_offset + 1) fresult children buf)"

definition cbfuse_readdir ::
  "'w env \<Rightarrow> string \<Rightarrow> 'b \<Rightarrow> ('b \<Rightarrow> string \<Rightarrow> int \<Rightarrow> int \<times> 'b) \<Rightarrow> off_t \<Rightarrow> ('w, int \<times> 'b) state" where
  "cbfuse_readdir E path buf filler offset = do {
     (fresult, dentry_json) \<leftarrow> get_dentry_json E path;
     if fresult \<noteq> 0 then State_Monad.return (fresult, buf)
     else
       let J = cjson E;
           children = cJSON_GetObjectItemCaseSensitive J dentry_json DENTRY_CHILDREN
       in if \<not> cJSON_IsArray J children then State_Monad.return (0, buf)
          else State_Monad.return
            (readdir_loop J filler (sint offset) 0 fresult (json_children children) buf) }"

definition cbfuse_read ::
  "'w env \<Rightarrow> string \<Rightarrow> size_t \<Rightarrow> off_t \<Rightarrow> ('w, (int \<times> byte list) c_result) state" where
  "cbfuse_read E path size' offset = read_data E path size' offset"

definition cbfuse_write ::
  "'w env \<Rightarrow> string \<Rightarrow> byte list \<Rightarrow> size_t \<Rightarrow> off_t \<Rightarrow> ('w, int c_result) state" where
  "cbfuse_write E path buf size' offset = write_data E path buf size' offset"

definition cbfuse_chmod :: "'w env \<Rightarrow> string \<Rightarrow> mode_t \<Rightarrow> ('w, int) state" where
  "cbfuse_chmod E path mode = update_stat_mode E path mode"

definition cbfuse_truncate :: "'w env \<Rightarrow> string \<Rightarrow> off_t \<Rightarrow> ('w, int c_result) state" where
  "cbfuse_truncate E path offset = truncate_data E path offset"

definition cbfuse_utimens ::
  "'w env \<Rightarrow> string \<Rightarrow> (timespec \<times> timespec) option \<Rightarrow> ('w, int) state" where
  "cbfuse_utimens E path tv = update_stat_utimens E path tv"

text \<open>The test \<open>mode|S_IFDIR\<close> is on a number with that bit set, so it never fails; the mode is
  stored as it came.\<close>

definition cbfuse_mkdir :: "'w env \<Rightarrow> string \<Rightarrow> mode_t \<Rightarrow> ('w, int) state" where
  "cbfuse_mkdir E path mode =
     (case (dirname path, basename path) of
        (Some dname, Some bname) \<Rightarrow>
          if mode OR S_IFDIR = 0 then State_Monad.return (- EINVAL)
          else do {
            fresult \<leftarrow> insert_stat E path mode;
            if fresult \<noteq> 0 then State_Monad.return fresult
            else do {
              fresult \<leftarrow> add_new_dentry E path path (Some dname);
              if fresult \<noteq> 0 then State_Monad.return fresult
              else add_child_to_dentry E dname bname } }
      | _ \<Rightarrow> State_Monad.return (- ENOENT))"

definition cbfuse_rmdir :: "'w env \<Rightarrow> string \<Rightarrow> ('w, int) state" where
  "cbfuse_rmdir E path =
     (case (dirname path, basename path) of
        (Some dname, Some bname) \<Rightarrow> do {
          _ \<leftarrow> remove_dentry E path;
          _ \<leftarrow> remove_child_from_dentry E dname bname;
          remove_stat E path }
      | _ \<Rightarrow> State_Monad.return (- ENOENT))"

section \<open>The root directory\<close>

definition insert_root :: "'w env \<Rightarrow> ('w, int) state" where
  "insert_root E = do {
     fresult \<leftarrow> insert_stat E ROOT_DIR_STRING (S_IFDIR OR 0x1ED);
     if fresult \<noteq> 0 then State_Monad.return fresult
     else add_new_dentry E ROOT_DIR_STRING ROOT_DIR_STRING None }"

text \<open>The check in \<open>main\<close> before the file system is mounted: 0 when it goes on to mount.
  \<open>root_stat\<close> is uninitialised; it is read only after a successful \<open>cbfuse_getattr\<close>.\<close>

definition verify_root :: "'w env \<Rightarrow> file_attr \<Rightarrow> ('w, int) state" where
  "verify_root E root_stat = do {
     (get_root_rc, root_stat) \<leftarrow> cbfuse_getattr E ROOT_DIR_STRING root_stat;
     if get_root_rc = 0
     then State_Monad.return (if \<not> S_ISDIR (fa_mode root_stat) then EXIT_FAILURE else 0)
     else if get_root_rc = - ENOENT
     then do {
       r \<leftarrow> insert_root E;
       State_Monad.return (if r \<noteq> 0 then EXIT_FAILURE else 0) }
     else State_Monad.return EXIT_FAILURE }"

section \<open>Results that no operation returns\<close>

lemma not_einval [simp]:
  "stored a \<noteq> - EINVAL" "removed b \<noteq> - EINVAL"
  "result_of (insert_stat E p m) w \<noteq> - EINVAL"
  "result_of (add_new_dentry E p x y) w \<noteq> - EINVAL"
  "fst (result_of (get_dentry_json E p) w) \<noteq> - EINVAL"
  "result_of (replace_dentry E p j) w \<noteq> - EINVAL"
  "result_of (add_child_to_dentry E p c) w \<noteq> - EINVAL"
proof -
  show s: "stored a \<noteq> - EINVAL" "removed b \<noteq> - EINVAL" for a b
    by (simp_all add: stored_def removed_def)
  show "result_of (insert_stat E p m) w \<noteq> - EINVAL"
    by (simp add: insert_stat_def s split: option.split)
  show "result_of (add_new_dentry E p x y) w \<noteq> - EINVAL"
    by (simp add: add_new_dentry_def s split: option.split)
  show g: "fst (result_of (get_dentry_json E p) w) \<noteq> - EINVAL" for w
    by (simp add: get_dentry_json_def split: prod.split)
  show r: "result_of (replace_dentry E p j) w \<noteq> - EINVAL" for w j
    by (simp add: replace_dentry_def s split: option.split)
  show "result_of (add_child_to_dentry E p c) w \<noteq> - EINVAL"
    using g [of w] r by (simp add: add_child_to_dentry_def Let_def split: option.split)
qed

end
