(* ===== verification/Namespace.thy ===== *)
theory Namespace
  imports Operations
begin

text \<open>
  What the handlers promise of the file names: an abstract name space (which directories there
  are, what they list, which paths have a stat and with which mode), the operations of FUSE on
  it, and the refinement: each handler, run in a world that behaves, does to the abstraction of
  the documents what the abstract operation does, error results included.
\<close>

section \<open>The abstract name space\<close>

record namespace =
  ns_dirs :: "string \<Rightarrow> string list option"
  ns_mode :: "string \<Rightarrow> mode_t option"

definition abs_ns :: "cjson_lib \<Rightarrow> docs \<Rightarrow> namespace" where
  "abs_ns J d = \<lparr>ns_dirs = dir_children J d, ns_mode = (\<lambda>p. map_option st_mode (stat_at d p))\<rparr>"

text \<open>Every document of a stat or a directory is one the program wrote.\<close>

definition readable :: "cjson_lib \<Rightarrow> docs \<Rightarrow> bool" where
  "readable J d \<longleftrightarrow> (\<forall>p. (d (dentry_id p) \<noteq> None \<longrightarrow> dir_children J d p \<noteq> None) \<and>
                         (d (stat_id p) \<noteq> None \<longrightarrow> stat_at d p \<noteq> None))"

text \<open>The paths FUSE passes for an entry, short enough for a key.\<close>

definition fuse_path :: "string \<Rightarrow> bool" where
  "fuse_path p \<longleftrightarrow> path_ok p \<and> key_ok p \<and> text_ok p"

definition ns_add :: "bool \<Rightarrow> string \<Rightarrow> namespace \<Rightarrow> int \<times> namespace" where
  "ns_add room p ns =
     (case ns_dirs ns (dir_part p) of
        None \<Rightarrow> (- ENOENT, ns)
      | Some cs \<Rightarrow>
          if room then (0, ns\<lparr>ns_dirs := (ns_dirs ns)(dir_part p \<mapsto> cs @ [base_part p])\<rparr>)
          else (- ENOENT, ns))"

definition ns_drop :: "string \<Rightarrow> namespace \<Rightarrow> namespace" where
  "ns_drop p ns =
     (case ns_dirs ns (dir_part p) of
        None \<Rightarrow> ns
      | Some cs \<Rightarrow> ns\<lparr>ns_dirs := (ns_dirs ns)(dir_part p \<mapsto> filter (\<lambda>c. c \<noteq> base_part p) cs)\<rparr>)"

text \<open>\<open>room\<close> tells whether the server has room for the longer document of the parent.\<close>

definition ns_create :: "bool \<Rightarrow> string \<Rightarrow> mode_t \<Rightarrow> namespace \<Rightarrow> int \<times> namespace" where
  "ns_create room p mode ns =
     (if \<not> S_ISREG mode then (- EINVAL, ns)
      else if ns_mode ns p \<noteq> None then (- ENOENT, ns)
      else ns_add room p (ns\<lparr>ns_mode := (ns_mode ns)(p \<mapsto> mode)\<rparr>))"

definition ns_unlink :: "string \<Rightarrow> namespace \<Rightarrow> int \<times> namespace" where
  "ns_unlink p ns =
     (if ns_mode ns p = None then - ENOENT else 0,
      (ns_drop p ns)\<lparr>ns_mode := (ns_mode ns)(p := None)\<rparr>)"

definition ns_mkdir :: "bool \<Rightarrow> string \<Rightarrow> mode_t \<Rightarrow> namespace \<Rightarrow> int \<times> namespace" where
  "ns_mkdir room p mode ns =
     (if ns_mode ns p \<noteq> None then (- ENOENT, ns)
      else let ns = ns\<lparr>ns_mode := (ns_mode ns)(p \<mapsto> mode)\<rparr> in
        if ns_dirs ns p \<noteq> None then (- ENOENT, ns)
        else ns_add room p (ns\<lparr>ns_dirs := (ns_dirs ns)(p \<mapsto> [])\<rparr>))"

definition ns_rmdir :: "string \<Rightarrow> namespace \<Rightarrow> int \<times> namespace" where
  "ns_rmdir p ns = ns_unlink p (ns\<lparr>ns_dirs := (ns_dirs ns)(p := None)\<rparr>)"

definition ns_chmod :: "string \<Rightarrow> mode_t \<Rightarrow> namespace \<Rightarrow> int \<times> namespace" where
  "ns_chmod p mode ns =
     (if ns_mode ns p = None then (- ENOENT, ns)
      else (0, ns\<lparr>ns_mode := (ns_mode ns)(p \<mapsto> mode)\<rparr>))"

section \<open>Changes of documents and of the name space\<close>

lemma abs_stat_put:
  "abs_ns J (d(stat_id p \<mapsto> stat_bytes s)) = (abs_ns J d)\<lparr>ns_mode := (ns_mode (abs_ns J d))(p \<mapsto> st_mode s)\<rparr>"
  "readable J d \<Longrightarrow> readable J (d(stat_id p \<mapsto> stat_bytes s))"
  by (auto simp: abs_ns_def stat_at_def dir_children_def fun_eq_iff readable_def)

lemma abs_stat_del:
  "abs_ns J (d(stat_id p := None)) = (abs_ns J d)\<lparr>ns_mode := (ns_mode (abs_ns J d))(p := None)\<rparr>"
  "readable J d \<Longrightarrow> readable J (d(stat_id p := None))"
  by (auto simp: abs_ns_def stat_at_def dir_children_def fun_eq_iff readable_def)

lemma abs_dentry_del:
  "abs_ns J (d(dentry_id p := None)) = (abs_ns J d)\<lparr>ns_dirs := (ns_dirs (abs_ns J d))(p := None)\<rparr>"
  "readable J d \<Longrightarrow> readable J (d(dentry_id p := None))"
  by (auto simp: abs_ns_def stat_at_def dir_children_def fun_eq_iff readable_def)

lemma abs_dentry_put:
  assumes "d' = d(dentry_id p := v)" and "dir_children J d' p = Some cs"
  shows "abs_ns J d' = (abs_ns J d)\<lparr>ns_dirs := (ns_dirs (abs_ns J d))(p \<mapsto> cs)\<rparr>"
    and "readable J d \<Longrightarrow> readable J d'"
  using assms by (auto simp: abs_ns_def stat_at_def dir_children_def fun_eq_iff readable_def)

lemma abs_frame:
  assumes "\<And>p. d' (dentry_id p) = d (dentry_id p)" and "\<And>p. d' (stat_id p) = d (stat_id p)"
  shows "abs_ns J d' = abs_ns J d" and "readable J d' = readable J d"
  using assms by (simp_all add: abs_ns_def stat_at_def dir_children_def fun_eq_iff readable_def)

lemma abs_ns_simps [simp]:
  "ns_dirs (abs_ns J d) p = dir_children J d p"
  "ns_mode (abs_ns J d) p = map_option st_mode (stat_at d p)"
  by (simp_all add: abs_ns_def)

lemma readable_mode:
  "readable J d \<Longrightarrow> d (stat_id p) = None \<longleftrightarrow> ns_mode (abs_ns J d) p = None"
  unfolding readable_def by (auto simp: stat_at_def)

lemma readable_dir:
  "readable J d \<Longrightarrow> d (dentry_id p) = None \<longleftrightarrow> ns_dirs (abs_ns J d) p = None"
  by (auto simp: readable_def dir_children_def)

lemma fuse_path_parts:
  assumes "fuse_path p"
  shows "dirname p = Some (dir_part p)" "basename p = Some (base_part p)"
    and "key_ok p" "key_ok (dir_part p)" "text_ok p" "text_ok (dir_part p)" "text_ok (base_part p)"
    and "\<not> path_too_long p"
proof -
  have p: "path_ok p" "0 < length p" "length p \<le> 250" "text_ok p"
    using assms by (auto simp: fuse_path_def key_ok_def)
  have parts: "p = join (dir_part p) (base_part p)" "dir_ok (dir_part p)"
    using p(1) by (auto simp: path_ok_def)
  have "length (dir_part p) \<le> length p" "length (base_part p) \<le> length p"
    using length_join_parts(1) [of "dir_part p" "base_part p"]
      length_join_parts(2) [of "base_part p" "dir_part p"] parts(1) by auto
  with p parts show "dirname p = Some (dir_part p)" "basename p = Some (base_part p)"
    "key_ok p" "key_ok (dir_part p)" "\<not> path_too_long p"
    by (auto simp: dirname_Some basename_Some MAXPATHLEN_def key_ok_def dir_ok_def)
  have "set d \<subseteq> set (join d c)" "set c \<subseteq> set (join d c)" for d c
    by (auto simp: join_def)
  then have "set (dir_part p) \<subseteq> set p" "set (base_part p) \<subseteq> set p"
    using parts(1) by metis+
  with p(4) show "text_ok p" "text_ok (dir_part p)" "text_ok (base_part p)"
    by (auto simp: text_ok_def)
qed

section \<open>The handlers refine the abstract operations\<close>

definition has_room :: "cjson_lib \<Rightarrow> docs \<Rightarrow> string \<Rightarrow> bool" where
  "has_room J d p \<longleftrightarrow>
     (case dir_children J d (dir_part p) of
        None \<Rightarrow> False | Some cs \<Rightarrow> dentry_room J d (dir_part p) (cs @ [base_part p]))"

lemma has_room_frame:
  "d (dentry_id (dir_part p)) = d' (dentry_id (dir_part p)) \<Longrightarrow> has_room J d p = has_room J d' p"
  using dir_children_frame [of d "dir_part p" d' J]
  by (auto simp: has_room_def dentry_room_def cong: option.case_cong)

lemma add_child_refines:
  assumes ok: "json_server E D C" "fuse_path p" and rd: "readable (cjson E) (D w)"
  defines "m \<equiv> add_child_to_dentry E (dir_part p) (base_part p)"
  shows "(result_of m w, abs_ns (cjson E) (D (after m w))) =
      ns_add (has_room (cjson E) (D w) p) p (abs_ns (cjson E) (D w))"
    and "readable (cjson E) (D (after m w))"
proof -
  have s: "server_ok E D C" and j: "cjson_ok (cjson E)" using ok(1) by (auto simp: json_server_def)
  note f = fuse_path_parts [OF ok(2)]
  obtain v where v: "D (after m w) = (D w)(dentry_id (dir_part p) := v)"
    using add_child_op.only_ident [OF s f(4), where a = "base_part p" and w = w] unfolding m_def by blast
  show "(result_of m w, abs_ns (cjson E) (D (after m w))) =
      ns_add (has_room (cjson E) (D w) p) p (abs_ns (cjson E) (D w))"
    and "readable (cjson E) (D (after m w))"
  proof (atomize (full), cases "dir_children (cjson E) (D w) (dir_part p)")
    case None
    then have "D w (dentry_id (dir_part p)) = None"
      using rd by (auto simp: readable_def)
    from child_ops_missing(1) [OF s f(4) this]
    show "(result_of m w, abs_ns (cjson E) (D (after m w))) =
        ns_add (has_room (cjson E) (D w) p) p (abs_ns (cjson E) (D w)) \<and>
      readable (cjson E) (D (after m w))"
      using None rd by (simp add: m_def ns_add_def)
  next
    case (Some cs)
    let ?cs = "cs @ [base_part p]"
    let ?room = "dentry_room (cjson E) (D w) (dir_part p) ?cs"
    note spec = add_child_spec [OF s j f(4,7) Some, folded m_def]
    have room: "has_room (cjson E) (D w) p = ?room" using Some by (simp add: has_room_def)
    have new: "dir_children (cjson E) (D (after m w)) (dir_part p) = Some (if ?room then ?cs else cs)"
      using spec(2) by simp
    note put = abs_dentry_put [OF v new]
    have "(ns_dirs (abs_ns (cjson E) (D w)))(dir_part p \<mapsto> cs) = ns_dirs (abs_ns (cjson E) (D w))"
      using Some by (simp add: fun_upd_idem)
    then show "(result_of m w, abs_ns (cjson E) (D (after m w))) =
        ns_add (has_room (cjson E) (D w) p) p (abs_ns (cjson E) (D w)) \<and>
      readable (cjson E) (D (after m w))"
      using put rd spec(1) room Some by (auto simp: ns_add_def)
  qed
qed

text \<open>\<open>run_ns\<close>: result and abstraction after a handler, to state each refinement as one equation.\<close>

definition run_ns :: "'w env \<Rightarrow> ('w \<Rightarrow> docs) \<Rightarrow> ('w, int) state \<Rightarrow> 'w \<Rightarrow> int \<times> namespace" where
  "run_ns E D m w = (result_of m w, abs_ns (cjson E) (D (after m w)))"

lemma stat_after_insert:
  assumes "server_ok E D C" "clock_ok E" "key_ok p" "D w (stat_id p) = None"
  shows "abs_ns J (D (after (insert_stat E p mode) w)) =
      (abs_ns J (D w))\<lparr>ns_mode := (ns_mode (abs_ns J (D w)))(p \<mapsto> mode)\<rparr>"
    and "readable J (D w) \<Longrightarrow> readable J (D (after (insert_stat E p mode) w))"
proof -
  obtain ts where "D (after (insert_stat E p mode) w) = (D w)(stat_id p \<mapsto> stat_bytes (new_stat mode ts))"
    using insert_stat_spec(2) [OF assms(1-3), of mode w] assms(4) by auto
  then show "abs_ns J (D (after (insert_stat E p mode) w)) =
      (abs_ns J (D w))\<lparr>ns_mode := (ns_mode (abs_ns J (D w)))(p \<mapsto> mode)\<rparr>"
    and "readable J (D w) \<Longrightarrow> readable J (D (after (insert_stat E p mode) w))"
    using abs_stat_put [where s = "new_stat mode ts"] by (simp_all add: new_stat_def)
qed

lemma insert_stat_taken:
  assumes "server_ok E D C" "clock_ok E" "key_ok p" "D w (stat_id p) \<noteq> None"
  shows "result_of (insert_stat E p mode) w = - ENOENT" "D (after (insert_stat E p mode) w) = D w"
  using insert_stat_spec [OF assms(1-3), of mode w] assms(4) by auto

lemma create_refines:
  assumes ok: "json_server E D C" "clock_ok E" "fuse_path p" and rd: "readable (cjson E) (D w)"
  shows "run_ns E D (cbfuse_create E p mode) w =
      ns_create (has_room (cjson E) (D w) p) p mode (abs_ns (cjson E) (D w))"
    and "readable (cjson E) (D (after (cbfuse_create E p mode) w))"
proof -
  have s: "server_ok E D C" using ok(1) by (auto simp: json_server_def)
  note f = fuse_path_parts [OF ok(3)]
  let ?i = "insert_stat E p mode" and ?J = "cjson E"
  show "run_ns E D (cbfuse_create E p mode) w =
      ns_create (has_room ?J (D w) p) p mode (abs_ns ?J (D w))"
    and "readable ?J (D (after (cbfuse_create E p mode) w))"
  proof (atomize (full), cases "D w (stat_id p)")
    case None
    have ins: "result_of ?i w = 0" using insert_stat_spec(1) [OF s ok(2) f(3)] None by simp
    note new = stat_after_insert [OF s ok(2) f(3) None]
    have room: "has_room ?J (D (after ?i w)) p = has_room ?J (D w) p"
      using insert_frame [OF s f(3)] by (intro has_room_frame) simp
    have fresh: "ns_mode (abs_ns ?J (D w)) p = None"
      using readable_mode [OF rd] None by blast
    from add_child_refines [OF ok(1,3) new(2) [OF rd, of mode]]
    show "run_ns E D (cbfuse_create E p mode) w =
        ns_create (has_room ?J (D w) p) p mode (abs_ns ?J (D w)) \<and>
      readable ?J (D (after (cbfuse_create E p mode) w))"
      using rd fresh by (simp add: run_ns_def cbfuse_create_def ns_create_def f ins new(1) room)
  next
    case (Some b)
    then have "ns_mode (abs_ns ?J (D w)) p \<noteq> None"
      using readable_mode [OF rd, of p] by simp
    then show "run_ns E D (cbfuse_create E p mode) w =
        ns_create (has_room ?J (D w) p) p mode (abs_ns ?J (D w)) \<and>
      readable ?J (D (after (cbfuse_create E p mode) w))"
      using rd Some insert_stat_taken [OF s ok(2) f(3), of w mode]
      by (simp add: run_ns_def cbfuse_create_def ns_create_def f)
  qed
qed

lemma drop_refines:
  assumes ok: "json_server E D C" "fuse_path p" and rd: "readable (cjson E) (D w)"
  defines "m \<equiv> remove_child_from_dentry E (dir_part p) (base_part p)"
  shows "abs_ns (cjson E) (D (after m w)) = ns_drop p (abs_ns (cjson E) (D w))"
    and "readable (cjson E) (D (after m w))"
proof -
  have s: "server_ok E D C" and j: "cjson_ok (cjson E)" using ok(1) by (auto simp: json_server_def)
  note f = fuse_path_parts [OF ok(2)]
  obtain v where v: "D (after m w) = (D w)(dentry_id (dir_part p) := v)"
    using remove_child_op.only_ident [OF s f(4), where a = "base_part p" and w = w]
    unfolding m_def by blast
  show "abs_ns (cjson E) (D (after m w)) = ns_drop p (abs_ns (cjson E) (D w))"
    and "readable (cjson E) (D (after m w))"
  proof (atomize (full), cases "dir_children (cjson E) (D w) (dir_part p)")
    case None
    then have "D w (dentry_id (dir_part p)) = None"
      using rd by (auto simp: readable_def)
    from child_ops_missing(2) [OF s f(4) this]
    show "abs_ns (cjson E) (D (after m w)) = ns_drop p (abs_ns (cjson E) (D w)) \<and>
        readable (cjson E) (D (after m w))"
      using None rd by (simp add: m_def ns_drop_def)
  next
    case (Some cs)
    note new = remove_child_spec(2) [OF s j f(4) Some, of "base_part p", folded m_def]
    show "abs_ns (cjson E) (D (after m w)) = ns_drop p (abs_ns (cjson E) (D w)) \<and>
        readable (cjson E) (D (after m w))"
      using abs_dentry_put [OF v new] rd Some by (simp add: ns_drop_def)
  qed
qed

lemma unlink_tail:
  assumes ok: "json_server E D C" "fuse_path p" and rd: "readable (cjson E) (D w)"
  defines "m \<equiv> State_Monad.bind (remove_child_from_dentry E (dir_part p) (base_part p))
    (\<lambda>_. remove_stat E p)"
  shows "run_ns E D m w = ns_unlink p (abs_ns (cjson E) (D w))"
    and "readable (cjson E) (D (after m w))"
proof -
  have s: "server_ok E D C" using ok(1) by (auto simp: json_server_def)
  note f = fuse_path_parts [OF ok(2)]
  let ?m = "remove_child_from_dentry E (dir_part p) (base_part p)"
  note drop = drop_refines [OF ok rd]
  have "D (after ?m w) (stat_id p) = D w (stat_id p)"
    using child_ops_frame(2) [OF s f(4)] by simp
  then have res: "result_of m w = (if ns_mode (abs_ns (cjson E) (D w)) p = None then - ENOENT else 0)"
    using readable_mode [OF rd] by (simp add: m_def remove_stat_spec [OF s f(3)] del: abs_ns_simps)
  show "run_ns E D m w = ns_unlink p (abs_ns (cjson E) (D w))"
    and "readable (cjson E) (D (after m w))"
    unfolding run_ns_def res
    by (auto simp: m_def remove_stat_spec [OF s f(3)] abs_stat_del drop ns_unlink_def ns_drop_def
        split: option.split)
qed

lemma unlink_refines:
  assumes ok: "json_server E D C" "fuse_path p" and rd: "readable (cjson E) (D w)"
  shows "run_ns E D (cbfuse_unlink E p) w = ns_unlink p (abs_ns (cjson E) (D w))"
    and "readable (cjson E) (D (after (cbfuse_unlink E p) w))"
proof -
  have s: "server_ok E D C" using ok(1) by (auto simp: json_server_def)
  note f = fuse_path_parts [OF ok(2)]
  let ?w = "after (remove_data E p) w"
  have "abs_ns (cjson E) (D ?w) = abs_ns (cjson E) (D w)"
    and "readable (cjson E) (D ?w) = readable (cjson E) (D w)"
    by (rule abs_frame; simp add: remove_data_spec [OF s f(3)])+
  with unlink_tail [OF ok, of ?w] rd
  show "run_ns E D (cbfuse_unlink E p) w = ns_unlink p (abs_ns (cjson E) (D w))"
    and "readable (cjson E) (D (after (cbfuse_unlink E p) w))"
    by (simp_all add: run_ns_def cbfuse_unlink_def f)
qed

lemma rmdir_refines:
  assumes ok: "json_server E D C" "fuse_path p" and rd: "readable (cjson E) (D w)"
  shows "run_ns E D (cbfuse_rmdir E p) w = ns_rmdir p (abs_ns (cjson E) (D w))"
    and "readable (cjson E) (D (after (cbfuse_rmdir E p) w))"
proof -
  have s: "server_ok E D C" using ok(1) by (auto simp: json_server_def)
  note f = fuse_path_parts [OF ok(2)]
  let ?w = "after (remove_dentry E p) w"
  have "D ?w = (D w)(dentry_id p := None)" by (rule remove_dentry_spec(2) [OF s f(3)])
  with unlink_tail [OF ok, of ?w] rd
  show "run_ns E D (cbfuse_rmdir E p) w = ns_rmdir p (abs_ns (cjson E) (D w))"
    and "readable (cjson E) (D (after (cbfuse_rmdir E p) w))"
    by (simp_all add: run_ns_def cbfuse_rmdir_def ns_rmdir_def f abs_dentry_del)
qed

lemma chmod_refines:
  assumes ok: "server_ok E D C" "key_ok p" and rd: "readable (cjson E) (D w)"
  shows "run_ns E D (cbfuse_chmod E p mode) w = ns_chmod p mode (abs_ns (cjson E) (D w))"
    and "readable (cjson E) (D (after (cbfuse_chmod E p mode) w))"
proof -
  show "run_ns E D (cbfuse_chmod E p mode) w = ns_chmod p mode (abs_ns (cjson E) (D w))"
    and "readable (cjson E) (D (after (cbfuse_chmod E p mode) w))"
  proof (atomize (full), cases "stat_at (D w) p")
    case None
    then have "D w (stat_id p) = None" using rd by (auto simp: readable_def)
    with None show "run_ns E D (cbfuse_chmod E p mode) w = ns_chmod p mode (abs_ns (cjson E) (D w)) \<and>
        readable (cjson E) (D (after (cbfuse_chmod E p mode) w))"
      using update_stat_failed(4) [OF ok None] rd
      by (simp add: run_ns_def cbfuse_chmod_def ns_chmod_def)
  next
    case (Some st)
    show "run_ns E D (cbfuse_chmod E p mode) w = ns_chmod p mode (abs_ns (cjson E) (D w)) \<and>
        readable (cjson E) (D (after (cbfuse_chmod E p mode) w))"
      using Some rd abs_stat_put
      by (simp add: run_ns_def cbfuse_chmod_def ns_chmod_def update_stat_mode_spec [OF ok Some])
  qed
qed

text \<open>\<open>mkdir\<close>: the document of the new directory has to fit into the server's limit, which the
  short paths FUSE passes guarantee for any sensible printer.\<close>

definition new_dir_fits :: "'w env \<Rightarrow> string \<Rightarrow> bool" where
  "new_dir_fits E p \<longleftrightarrow> new_dentry_fits E (p, Some (dir_part p))"

lemma dir_part_neq:
  assumes "path_ok p"
  shows "dir_part p \<noteq> p"
proof
  assume e: "dir_part p = p"
  have "p = join (dir_part p) (base_part p)"
    using assms unfolding path_ok_def by blast
  from arg_cong [OF this, where f = length]
  have "length p = length (join (dir_part p) (base_part p))" .
  moreover have "p \<noteq> ''/''" using path_ok_not_root [OF assms] .
  ultimately show False by (simp add: e join_def)
qed

lemma mkdir_mode_test: "mode OR S_IFDIR \<noteq> 0"
  by (simp add: or_eq_0_iff)

lemma add_dir_refines:
  assumes ok: "json_server E D C" "fuse_path p" "new_dir_fits E p" and rd: "readable (cjson E) (D w)"
  defines "m \<equiv> add_new_dentry E p p (Some (dir_part p))"
  shows "result_of m w = (if ns_dirs (abs_ns (cjson E) (D w)) p = None then 0 else - ENOENT)"
    and "abs_ns (cjson E) (D (after m w)) = (if ns_dirs (abs_ns (cjson E) (D w)) p = None
      then (abs_ns (cjson E) (D w))\<lparr>ns_dirs := (ns_dirs (abs_ns (cjson E) (D w)))(p \<mapsto> [])\<rparr>
      else abs_ns (cjson E) (D w))"
    and "readable (cjson E) (D (after m w))"
proof -
  have s: "server_ok E D C" and j: "cjson_ok (cjson E)" using ok(1) by (auto simp: json_server_def)
  note f = fuse_path_parts [OF ok(2)]
  note spec = add_new_dentry_spec [OF s j f(3) ok(3) [unfolded new_dir_fits_def], of w, folded m_def]
  note dir = readable_dir [OF rd, of p]
  show "result_of m w = (if ns_dirs (abs_ns (cjson E) (D w)) p = None then 0 else - ENOENT)"
    using spec(1) dir by simp
  obtain v where v: "D (after m w) = (D w)(dentry_id p := v)"
    using dentry_table.ins.only_ident [OF ok(1) f(3), where a = "(p, Some (dir_part p))" and w = w]
    unfolding m_def by auto
  show "abs_ns (cjson E) (D (after m w)) = (if ns_dirs (abs_ns (cjson E) (D w)) p = None
      then (abs_ns (cjson E) (D w))\<lparr>ns_dirs := (ns_dirs (abs_ns (cjson E) (D w)))(p \<mapsto> [])\<rparr>
      else abs_ns (cjson E) (D w))"
    and "readable (cjson E) (D (after m w))"
    using spec(2,3) dir abs_dentry_put [OF v] rd by (auto split: if_splits)
qed

lemma mkdir_refines:
  assumes ok: "json_server E D C" "clock_ok E" "fuse_path p" "new_dir_fits E p"
    and rd: "readable (cjson E) (D w)"
  shows "run_ns E D (cbfuse_mkdir E p mode) w =
      ns_mkdir (has_room (cjson E) (D w) p) p mode (abs_ns (cjson E) (D w))"
    and "readable (cjson E) (D (after (cbfuse_mkdir E p mode) w))"
proof -
  have s: "server_ok E D C" using ok(1) by (auto simp: json_server_def)
  note f = fuse_path_parts [OF ok(3)]
  have neq: "dir_part p \<noteq> p" using ok(3) dir_part_neq by (simp add: fuse_path_def)
  let ?J = "cjson E" and ?i = "insert_stat E p mode" and ?a = "add_new_dentry E p p (Some (dir_part p))"
  show "run_ns E D (cbfuse_mkdir E p mode) w =
      ns_mkdir (has_room ?J (D w) p) p mode (abs_ns ?J (D w))"
    and "readable ?J (D (after (cbfuse_mkdir E p mode) w))"
  proof (atomize (full), cases "D w (stat_id p)")
    case None
    have ins: "result_of ?i w = 0" using insert_stat_spec(1) [OF s ok(2) f(3)] None by simp
    note new = stat_after_insert [OF s ok(2) f(3) None, where mode = mode]
    have fresh: "ns_mode (abs_ns ?J (D w)) p = None"
      using readable_mode [OF rd] None by blast
    note dir = add_dir_refines [OF ok(1,3,4) new(2) [OF rd]]
    have room: "has_room ?J (D (after ?a (after ?i w))) p = has_room ?J (D w) p"
      using insert_frame [OF s f(3)] add_new_dentry_frame [OF s f(3)] neq
      by (intro has_room_frame) simp
    from add_child_refines [OF ok(1,3) dir(3)]
    show "run_ns E D (cbfuse_mkdir E p mode) w =
        ns_mkdir (has_room ?J (D w) p) p mode (abs_ns ?J (D w)) \<and>
      readable ?J (D (after (cbfuse_mkdir E p mode) w))"
      using rd fresh dir
      by (simp add: run_ns_def cbfuse_mkdir_def ns_mkdir_def f ins new(1) room mkdir_mode_test Let_def)
  next
    case (Some b)
    then have "ns_mode (abs_ns ?J (D w)) p \<noteq> None"
      using readable_mode [OF rd, of p] by simp
    then show "run_ns E D (cbfuse_mkdir E p mode) w =
        ns_mkdir (has_room ?J (D w) p) p mode (abs_ns ?J (D w)) \<and>
      readable ?J (D (after (cbfuse_mkdir E p mode) w))"
      using rd Some insert_stat_taken [OF s ok(2) f(3), of w mode]
      by (simp add: run_ns_def cbfuse_mkdir_def ns_mkdir_def f mkdir_mode_test)
  qed
qed

end
