(* ===== verification/FileSystem.thy ===== *)
theory FileSystem
  imports Namespace
begin

text \<open>
  The running file system: the table of operations that \<open>main\<close> hands to FUSE, the calls FUSE
  makes one after the other (the program adds the option \<open>-s\<close>, single-threaded), and the
  states of the bucket that a history of calls can reach from the bootstrap on. The calls are
  the steps of a transition relation; the invariants are proved by rule induction.
\<close>

section \<open>The table of operations\<close>

datatype fs_op =
    Getattr string file_attr
  | Open string
  | Create string mode_t
  | Unlink string
  | Readdir string off_t
  | Read string size_t off_t
  | Write string "byte list" size_t off_t
  | Chmod string mode_t
  | Truncate string off_t
  | Utimens string "(timespec \<times> timespec) option"
  | Mkdir string mode_t
  | Rmdir string

fun op_path :: "fs_op \<Rightarrow> string" where
  "op_path (Getattr p st) = p" | "op_path (Open p) = p" | "op_path (Create p m) = p"
| "op_path (Unlink p) = p" | "op_path (Readdir p off) = p" | "op_path (Read p n off) = p"
| "op_path (Write p b n off) = p" | "op_path (Chmod p m) = p" | "op_path (Truncate p off) = p"
| "op_path (Utimens p tv) = p" | "op_path (Mkdir p m) = p" | "op_path (Rmdir p) = p"

text \<open>
  \<open>cb_filesystem_operations\<close>: which handler answers which call. The result is the integer FUSE
  gets; \<open>filler\<close> and \<open>buf\<close> are FUSE's. The entry \<open>.init\<close> of the table is \<open>cbfuse_init\<close> (theory
  Startup), which FUSE calls once and which answers no call.
\<close>

fun cb_filesystem_operations ::
  "'w env \<Rightarrow> ('b \<Rightarrow> string \<Rightarrow> int \<Rightarrow> int \<times> 'b) \<Rightarrow> 'b \<Rightarrow> fs_op \<Rightarrow> ('w, int c_result) state" where
  "cb_filesystem_operations E filler buf (Getattr p st) =
     do { r \<leftarrow> cbfuse_getattr E p st; State_Monad.return (Defined (fst r)) }"
| "cb_filesystem_operations E filler buf (Open p) =
     do { r \<leftarrow> cbfuse_open E p; State_Monad.return (Defined r) }"
| "cb_filesystem_operations E filler buf (Create p m) =
     do { r \<leftarrow> cbfuse_create E p m; State_Monad.return (Defined r) }"
| "cb_filesystem_operations E filler buf (Unlink p) =
     do { r \<leftarrow> cbfuse_unlink E p; State_Monad.return (Defined r) }"
| "cb_filesystem_operations E filler buf (Readdir p off) =
     do { r \<leftarrow> cbfuse_readdir E p buf filler off; State_Monad.return (Defined (fst r)) }"
| "cb_filesystem_operations E filler buf (Read p n off) =
     do { r \<leftarrow> cbfuse_read E p n off;
          State_Monad.return (case r of Undefined \<Rightarrow> Undefined | Defined q \<Rightarrow> Defined (fst q)) }"
| "cb_filesystem_operations E filler buf (Write p b n off) = cbfuse_write E p b n off"
| "cb_filesystem_operations E filler buf (Chmod p m) =
     do { r \<leftarrow> cbfuse_chmod E p m; State_Monad.return (Defined r) }"
| "cb_filesystem_operations E filler buf (Truncate p off) = cbfuse_truncate E p off"
| "cb_filesystem_operations E filler buf (Utimens p tv) =
     do { r \<leftarrow> cbfuse_utimens E p tv; State_Monad.return (Defined r) }"
| "cb_filesystem_operations E filler buf (Mkdir p m) =
     do { r \<leftarrow> cbfuse_mkdir E p m; State_Monad.return (Defined r) }"
| "cb_filesystem_operations E filler buf (Rmdir p) =
     do { r \<leftarrow> cbfuse_rmdir E p; State_Monad.return (Defined r) }"

section \<open>Calls that leave the name space alone\<close>

lemma getattr_docs:
  assumes "server_ok E D C" "key_ok p"
  shows "D (after (cbfuse_getattr E p st) w) = D w"
proof -
  let ?r = "new_request\<lparr>rq_collection := STATS_COLLECTION_STRING, rq_key := p\<rparr>"
  have "addressable ?r" "is_get ?r" using assms(2) by (auto simp: request_simps key_ok_def)
  then show ?thesis
    using assms
    by (auto simp: cbfuse_getattr_def prepared prepare_after sync.get_docs request_simps key_ok_def)
qed

lemma open_docs:
  assumes "server_ok E D C" "key_ok p"
  shows "D (after (cbfuse_open E p) w) = D w"
  using assms by (simp add: cbfuse_open_def get_stat_spec)

lemma readdir_docs:
  assumes "server_ok E D C" "key_ok p"
  shows "D (after (cbfuse_readdir E p buf filler off) w) = D w"
  using assms by (simp add: cbfuse_readdir_def get_dentry_json_spec Let_def)

lemmas read_only = getattr_docs open_docs readdir_docs

text \<open>Updates of times and size keep every mode.\<close>

lemma same_mode_stat_put:
  assumes "stat_at d p = Some s" and "st_mode t = st_mode s"
  shows "abs_ns J (d(stat_id p \<mapsto> stat_bytes t)) = abs_ns J d"
proof -
  have "(ns_mode (abs_ns J d))(p \<mapsto> st_mode t) = ns_mode (abs_ns J d)"
    using assms by (simp add: fun_upd_idem)
  then show ?thesis by (simp add: abs_stat_put)
qed

lemma apply_utimens_mode [simp]: "st_mode (apply_utimens tv ts s) = st_mode s"
  by (auto simp: apply_utimens_def Let_def split: option.split)

definition same_names :: "cjson_lib \<Rightarrow> docs \<Rightarrow> docs \<Rightarrow> bool" where
  "same_names J d d' \<longleftrightarrow> abs_ns J d' = abs_ns J d \<and> (readable J d \<longrightarrow> readable J d')"

lemma same_names_refl [simp]: "same_names J d d"
  by (simp add: same_names_def)

lemma same_names_trans: "same_names J d d' \<Longrightarrow> same_names J d' d'' \<Longrightarrow> same_names J d d''"
  by (simp add: same_names_def)

lemma same_names_block: "(\<And>x. x \<noteq> block_id p \<Longrightarrow> d' x = d x) \<Longrightarrow> same_names J d d'"
  unfolding same_names_def using abs_frame [of d' d J] by simp

lemma same_names_stat:
  "stat_at d p = Some s \<Longrightarrow> st_mode t = st_mode s \<Longrightarrow>
   same_names J d (d(stat_id p \<mapsto> stat_bytes t))"
  unfolding same_names_def by (simp add: same_mode_stat_put abs_stat_put(2))

lemma update_stat_same_names:
  assumes "server_ok E D C" "clock_ok E" "key_ok p"
  shows "same_names J (D w) (D (after (update_stat_atime E p) w))"
    and "same_names J (D w) (D (after (update_stat_size E p n) w))"
    and "same_names J (D w) (D (after (update_stat_utimens E p tv) w))"
proof (atomize (full), cases "stat_at (D w) p")
  case None
  show "same_names J (D w) (D (after (update_stat_atime E p) w)) \<and>
    same_names J (D w) (D (after (update_stat_size E p n) w)) \<and>
    same_names J (D w) (D (after (update_stat_utimens E p tv) w))"
    using update_stat_failed(1-3) [OF assms(1,3) None] by simp
next
  case (Some s)
  have "same_names J (D w) (D (after (update_stat_atime E p) w))"
    using update_stat_atime_spec [OF assms Some] by (auto simp: same_names_stat [OF Some])
  moreover have "same_names J (D w) (D (after (update_stat_size E p n) w))"
    using update_stat_size_spec [OF assms Some, of n] by (auto simp: same_names_stat [OF Some])
  moreover have "same_names J (D w) (D (after (update_stat_utimens E p tv) w))"
    using update_stat_utimens_spec [OF assms Some, of tv] by (auto simp: same_names_stat [OF Some])
  ultimately show "same_names J (D w) (D (after (update_stat_atime E p) w)) \<and>
    same_names J (D w) (D (after (update_stat_size E p n) w)) \<and>
    same_names J (D w) (D (after (update_stat_utimens E p tv) w))" by blast
qed

lemma data_ops_same_names:
  assumes ok: "server_ok E D C" "clock_ok E" "key_ok p"
  shows "same_names J (D w) (D (after (read_data E p n off) w))"
    and "same_names J (D w) (D (after (write_data E p b n off) w))"
    and "same_names J (D w) (D (after (truncate_data E p off) w))"
proof -
  note upd = update_stat_same_names [OF ok]
  have blk: "same_names J (D w) (D (after (update_block E p buf m off nbs) w))" for buf m nbs
    by (rule same_names_block [where p = p]) (rule update_block_frame [OF ok(1,3)])
  have del: "same_names J (D w) (D (after (remove_data E p) w))"
    by (rule same_names_block [where p = p]) (simp add: remove_data_spec [OF ok(1,3)])
  have get: "D (after (get_block E p) w) = D w"
    by (rule get_block_spec(2) [OF ok(1,3)])
  show "same_names J (D w) (D (after (read_data E p n off) w))"
    using upd(1) [of J "after (get_block E p) w"] get
    by (auto simp: read_data_def Let_def split: c_result.split)
  show "same_names J (D w) (D (after (write_data E p b n off) w))"
    using blk [of "Some b" n "Some 0"] same_names_trans [OF blk [of "Some b" n "Some 0"] upd(2)]
    by (auto simp: write_data_def split: c_result.split)
  show "same_names J (D w) (D (after (truncate_data E p off) w))"
    using blk [of None 0 None] del same_names_trans [OF blk [of None 0 None] upd(2)]
      same_names_trans [OF del upd(2)]
    by (auto simp: truncate_data_def split: c_result.split)
qed

section \<open>Every call refines its abstract operation\<close>

fun ns_exec :: "bool \<Rightarrow> fs_op \<Rightarrow> namespace \<Rightarrow> namespace" where
  "ns_exec room (Create p m) ns = snd (ns_create room p m ns)"
| "ns_exec room (Unlink p) ns = snd (ns_unlink p ns)"
| "ns_exec room (Mkdir p m) ns = snd (ns_mkdir room p m ns)"
| "ns_exec room (Rmdir p) ns = snd (ns_rmdir p ns)"
| "ns_exec room (Chmod p m) ns = snd (ns_chmod p m ns)"
| "ns_exec room _ ns = ns"

text \<open>
  The calls FUSE makes: it creates and removes entries of directories, never the root, and all
  paths are short enough for a key.
\<close>

fun makes_entry :: "fs_op \<Rightarrow> bool" where
  "makes_entry (Create p m) = True" | "makes_entry (Unlink p) = True"
| "makes_entry (Mkdir p m) = True" | "makes_entry (Rmdir p) = True"
| "makes_entry _ = False"

definition fuse_call :: "fs_op \<Rightarrow> bool" where
  "fuse_call c \<longleftrightarrow> key_ok (op_path c) \<and> (makes_entry c \<longrightarrow> fuse_path (op_path c))"

text \<open>A world in which everything behaves: server, JSON library, clock, heap; and the printer
  makes documents of new directories that the server accepts.\<close>

definition world_ok :: "'w env \<Rightarrow> ('w \<Rightarrow> docs) \<Rightarrow> ('w \<Rightarrow> cas_view) \<Rightarrow> bool" where
  "world_ok E D C \<longleftrightarrow> json_server E D C \<and> clock_ok E \<and> heap_ok E \<and>
     new_dentry_fits E (ROOT_DIR_STRING, None) \<and> (\<forall>p. fuse_path p \<longrightarrow> new_dir_fits E p)"

lemma world_okD:
  assumes "world_ok E D C"
  shows "json_server E D C" "server_ok E D C" "cjson_ok (cjson E)" "clock_ok E" "heap_ok E"
    "new_dentry_fits E (ROOT_DIR_STRING, None)" "fuse_path p \<Longrightarrow> new_dir_fits E p"
  using assms by (auto simp: world_ok_def json_server_def)

lemma same_names_exec:
  "readable J d \<Longrightarrow> same_names J d d' \<Longrightarrow> abs_ns J d' = abs_ns J d \<and> readable J d'"
  by (simp add: same_names_def)

lemma after_defined [simp]:
  "after (State_Monad.bind m (\<lambda>r. State_Monad.return (f r))) w = after m w"
  by simp

lemma call_refines:
  assumes ok: "world_ok E D C" and c: "fuse_call c" and rd: "readable (cjson E) (D w)"
  shows "abs_ns (cjson E) (D (after (cb_filesystem_operations E filler buf c) w)) =
      ns_exec (has_room (cjson E) (D w) (op_path c)) c (abs_ns (cjson E) (D w)) \<and>
    readable (cjson E) (D (after (cb_filesystem_operations E filler buf c) w))"
proof -
  note w = world_okD [OF ok]
  have key: "key_ok (op_path c)" and entry: "makes_entry c \<Longrightarrow> fuse_path (op_path c)"
    using c by (auto simp: fuse_call_def)
  show ?thesis
  proof (cases c)
    case (Getattr p st)
    then show ?thesis using rd getattr_docs [OF w(2)] key by simp
  next
    case (Open p)
    then show ?thesis using rd open_docs [OF w(2)] key by simp
  next
    case (Create p m)
    with entry have "fuse_path p" by simp
    from create_refines [OF w(1,4) this rd, of m] show ?thesis
      using Create by (simp add: run_ns_def prod_eq_iff)
  next
    case (Unlink p)
    with entry have "fuse_path p" by simp
    from unlink_refines [OF w(1) this rd] show ?thesis
      using Unlink by (simp add: run_ns_def prod_eq_iff)
  next
    case (Readdir p off)
    then show ?thesis using rd key by (simp add: readdir_docs [OF w(2)])
  next
    case (Read p n off)
    then show ?thesis
      using same_names_exec [OF rd data_ops_same_names(1) [OF w(2,4)]] key by (simp add: cbfuse_read_def)
  next
    case (Write p b n off)
    then show ?thesis
      using same_names_exec [OF rd data_ops_same_names(2) [OF w(2,4)]] key by (simp add: cbfuse_write_def)
  next
    case (Chmod p m)
    with key have "key_ok p" by simp
    from chmod_refines [OF w(2) this rd, of m] show ?thesis
      using Chmod by (simp add: run_ns_def prod_eq_iff)
  next
    case (Truncate p off)
    then show ?thesis
      using same_names_exec [OF rd data_ops_same_names(3) [OF w(2,4)]] key
      by (simp add: cbfuse_truncate_def)
  next
    case (Utimens p tv)
    then show ?thesis
      using same_names_exec [OF rd update_stat_same_names(3) [OF w(2,4)]] key
      by (simp add: cbfuse_utimens_def)
  next
    case (Mkdir p m)
    with entry have p: "fuse_path p" by simp
    from mkdir_refines [OF w(1,4) p w(7) [OF p] rd, of m] show ?thesis
      using Mkdir by (simp add: run_ns_def prod_eq_iff)
  next
    case (Rmdir p)
    with entry have "fuse_path p" by simp
    from rmdir_refines [OF w(1) this rd] show ?thesis
      using Rmdir by (simp add: run_ns_def prod_eq_iff)
  qed
qed

section \<open>Histories\<close>

text \<open>
  \<open>fs_step\<close>: FUSE makes one call that is \<open>allowed\<close> in the present documents and the handler
  returns (\<open>Defined\<close>). \<open>mounted\<close>: the states after the check of the root succeeded on an empty
  bucket, and after any sequence of calls.
\<close>

inductive fs_step ::
  "'w env \<Rightarrow> ('w \<Rightarrow> docs) \<Rightarrow> (docs \<Rightarrow> fs_op \<Rightarrow> bool) \<Rightarrow> 'w \<Rightarrow> fs_op \<Rightarrow> int \<Rightarrow> 'w \<Rightarrow> bool"
  for E :: "'w env" and D :: "'w \<Rightarrow> docs" and allowed :: "docs \<Rightarrow> fs_op \<Rightarrow> bool" where
  call: "allowed (D w) c \<Longrightarrow>
    result_of (cb_filesystem_operations E (\<lambda>b n off. (0, b)) () c) w = Defined r \<Longrightarrow>
    fs_step E D allowed w c r (after (cb_filesystem_operations E (\<lambda>b n off. (0, b)) () c) w)"

inductive mounted :: "'w env \<Rightarrow> ('w \<Rightarrow> docs) \<Rightarrow> (docs \<Rightarrow> fs_op \<Rightarrow> bool) \<Rightarrow> 'w \<Rightarrow> bool"
  for E :: "'w env" and D :: "'w \<Rightarrow> docs" and allowed :: "docs \<Rightarrow> fs_op \<Rightarrow> bool" where
  boot: "D w = (\<lambda>_. None) \<Longrightarrow> result_of (verify_root E st) w = 0 \<Longrightarrow>
    mounted E D allowed (after (verify_root E st) w)"
| run: "mounted E D allowed w \<Longrightarrow> fs_step E D allowed w c r w' \<Longrightarrow> mounted E D allowed w'"

inductive_cases fs_stepE: "fs_step E D allowed w c r w'"
inductive_simps fs_step_simps: "fs_step E D allowed w c r w'"

text \<open>The handlers are functions of the world, so a call has one outcome.\<close>

lemma fs_step_unique:
  "fs_step E D allowed w c r w' \<Longrightarrow> fs_step E D allowed w c r' w'' \<Longrightarrow> r' = r \<and> w'' = w'"
  by (auto simp: fs_step_simps)

lemma mounted_call:
  assumes "mounted E D allowed w" "allowed (D w) c"
    and "result_of (cb_filesystem_operations E (\<lambda>b n off. (0, b)) () c) w = Defined r"
  shows "mounted E D allowed (after (cb_filesystem_operations E (\<lambda>b n off. (0, b)) () c) w)"
  using assms by (blast intro: mounted.run fs_step.call)

text \<open>The bootstrap on an empty bucket.\<close>

lemma S_ISDIR_root: "S_ISDIR (S_IFDIR OR 0x1ED)"
  by (simp add: S_ISDIR_def)

lemma getattr_missing:
  assumes "server_ok E D C" "key_ok p" "D w (stat_id p) = None"
  shows "result_of (cbfuse_getattr E p st) w = (- ENOENT, st)"
proof -
  have "\<not> path_too_long p" using assms(2) by (auto simp: key_ok_def)
  then show ?thesis
    using assms by (simp add: cbfuse_getattr_def prepared prepare_after prepared_get request_simps
        key_ok_def sync.get_answer get_reply)
qed

lemma root_key [simp]: "key_ok ROOT_DIR_STRING"
  by (simp add: key_ok_def ROOT_DIR_STRING_def)

lemma insert_root_docs:
  assumes ok: "world_ok E D C" and empty: "D w = (\<lambda>_. None)"
  shows "result_of (insert_root E) w = 0"
    and "\<exists>ts. D (after (insert_root E) w) = (\<lambda>_. None)
      (stat_id ROOT_DIR_STRING \<mapsto> stat_bytes (new_stat (S_IFDIR OR 0x1ED) ts),
       dentry_id ROOT_DIR_STRING := cJSON_PrintUnformatted (cjson E) (new_dentry ROOT_DIR_STRING None))"
    and "dir_children (cjson E) (D (after (insert_root E) w)) ROOT_DIR_STRING = Some []"
proof -
  note w = world_okD [OF ok]
  let ?r = ROOT_DIR_STRING
  let ?i = "insert_stat E ?r (S_IFDIR OR 0x1ED)"
  obtain ts where i: "result_of ?i w = 0"
    "D (after ?i w) = (\<lambda>_. None)(stat_id ?r \<mapsto> stat_bytes (new_stat (S_IFDIR OR 0x1ED) ts))"
    using insert_stat_spec [OF w(2,4) root_key, where w = w] empty by (metis option.simps(3))
  note spec = add_new_dentry_spec [OF w(2,3) root_key w(6), of "after ?i w"]
  have none: "D (after ?i w) (dentry_id ?r) = None" using i(2) by simp
  show "result_of (insert_root E) w = 0"
    using i spec(1) by (simp add: insert_root_def)
  show "dir_children (cjson E) (D (after (insert_root E) w)) ?r = Some []"
    using i spec(3) none by (simp add: insert_root_def)
  show "\<exists>ts. D (after (insert_root E) w) = (\<lambda>_. None)
      (stat_id ?r \<mapsto> stat_bytes (new_stat (S_IFDIR OR 0x1ED) ts),
       dentry_id ?r := cJSON_PrintUnformatted (cjson E) (new_dentry ?r None))"
    using i spec(4) none by (intro exI [of _ ts]) (simp add: insert_root_def)
qed

lemma verify_root_empty:
  assumes ok: "world_ok E D C" and empty: "D w = (\<lambda>_. None)"
  shows "result_of (verify_root E st) w = 0"
    and "D (after (verify_root E st) w) =
      D (after (insert_root E) (after (cbfuse_getattr E ROOT_DIR_STRING st) w))"
    and "D (after (cbfuse_getattr E ROOT_DIR_STRING st) w) = (\<lambda>_. None)"
proof -
  note w = world_okD [OF ok]
  have miss: "result_of (cbfuse_getattr E ROOT_DIR_STRING st) w = (- ENOENT, st)"
    using empty by (intro getattr_missing [OF w(2)]) simp_all
  show keep: "D (after (cbfuse_getattr E ROOT_DIR_STRING st) w) = (\<lambda>_. None)"
    using empty by (simp add: getattr_docs [OF w(2)])
  show "result_of (verify_root E st) w = 0"
    and "D (after (verify_root E st) w) =
      D (after (insert_root E) (after (cbfuse_getattr E ROOT_DIR_STRING st) w))"
    using miss insert_root_docs(1) [OF ok keep] by (simp_all add: verify_root_def)
qed

definition root_ns :: namespace where
  "root_ns = \<lparr>ns_dirs = [ROOT_DIR_STRING \<mapsto> []], ns_mode = [ROOT_DIR_STRING \<mapsto> S_IFDIR OR 0x1ED]\<rparr>"

lemma boot_ns:
  fixes st :: file_attr
  assumes ok: "world_ok E D C" and empty: "D w = (\<lambda>_. None)"
  defines "d \<equiv> D (after (verify_root E st) w)"
  shows "abs_ns (cjson E) d = root_ns" and "readable (cjson E) d"
    and "d (block_id p) = None"
    and "stat_at d p = Some s \<Longrightarrow> st_size s = 0"
proof -
  let ?r = ROOT_DIR_STRING
  note v = verify_root_empty [OF ok empty, of st]
  obtain ts where d: "d = (\<lambda>_. None)
      (stat_id ?r \<mapsto> stat_bytes (new_stat (S_IFDIR OR 0x1ED) ts),
       dentry_id ?r := cJSON_PrintUnformatted (cjson E) (new_dentry ?r None))"
    using insert_root_docs(2) [OF ok v(3)] unfolding d_def v(2) by blast
  have c: "dir_children (cjson E) d ?r = Some []"
    using insert_root_docs(3) [OF ok v(3)] unfolding d_def v(2) .
  have others: "q \<noteq> ?r \<Longrightarrow> dir_children (cjson E) d q = None" for q
    by (simp add: d dir_children_def)
  have st: "stat_at d q = (if q = ?r then Some (new_stat (S_IFDIR OR 0x1ED) ts) else None)" for q
    by (simp add: d stat_at_def)
  show "abs_ns (cjson E) d = root_ns"
    using c others st by (auto simp: abs_ns_def root_ns_def fun_eq_iff new_stat_def)
  have "d (dentry_id q) \<noteq> None \<Longrightarrow> q = ?r" "d (stat_id q) \<noteq> None \<Longrightarrow> q = ?r" for q
    by (auto simp: d split: if_splits)
  then show "readable (cjson E) d"
    using c st unfolding readable_def by (metis option.simps(3))
  show "d (block_id p) = None" by (simp add: d)
  show "stat_at d p = Some s \<Longrightarrow> st_size s = 0"
    using st by (auto simp: new_stat_def zero_stat_def split: if_splits)
qed

section \<open>The name space stays sound\<close>

text \<open>Directories list names, each once, and every name they list is that of a path with a stat.\<close>

definition ns_sound :: "namespace \<Rightarrow> bool" where
  "ns_sound ns \<longleftrightarrow> (\<forall>d cs. ns_dirs ns d = Some cs \<longrightarrow>
     dir_ok d \<and> distinct cs \<and>
     (\<forall>c \<in> set cs. name_ok c \<and> fuse_path (join d c) \<and> ns_mode ns (join d c) \<noteq> None))"

lemma ns_soundD:
  "ns_sound ns \<Longrightarrow> ns_dirs ns d = Some cs \<Longrightarrow> dir_ok d"
  "ns_sound ns \<Longrightarrow> ns_dirs ns d = Some cs \<Longrightarrow> distinct cs"
  "ns_sound ns \<Longrightarrow> ns_dirs ns d = Some cs \<Longrightarrow> c \<in> set cs \<Longrightarrow> name_ok c"
  "ns_sound ns \<Longrightarrow> ns_dirs ns d = Some cs \<Longrightarrow> c \<in> set cs \<Longrightarrow> ns_mode ns (join d c) \<noteq> None"
  "ns_sound ns \<Longrightarrow> ns_dirs ns d = Some cs \<Longrightarrow> c \<in> set cs \<Longrightarrow> fuse_path (join d c)"
  by (auto simp: ns_sound_def)

lemma ns_sound_mode: "ns_sound ns \<Longrightarrow> ns_sound (ns\<lparr>ns_mode := (ns_mode ns)(p \<mapsto> m)\<rparr>)"
  by (auto simp: ns_sound_def)

lemma ns_sound_dir_del: "ns_sound ns \<Longrightarrow> ns_sound (ns\<lparr>ns_dirs := (ns_dirs ns)(p := None)\<rparr>)"
  by (auto simp: ns_sound_def)

lemma ns_sound_dir_new: "ns_sound ns \<Longrightarrow> dir_ok p \<Longrightarrow> ns_sound (ns\<lparr>ns_dirs := (ns_dirs ns)(p \<mapsto> [])\<rparr>)"
  by (auto simp: ns_sound_def)

lemma path_ok_parts:
  assumes "fuse_path p"
  shows "dir_ok (dir_part p)" "name_ok (base_part p)" "join (dir_part p) (base_part p) = p"
  using assms unfolding fuse_path_def path_ok_def by simp_all

lemma ns_sound_add:
  assumes s: "ns_sound ns" and p: "fuse_path p" and m: "ns_mode ns p \<noteq> None"
    and new: "\<And>cs. ns_dirs ns (dir_part p) = Some cs \<Longrightarrow> base_part p \<notin> set cs"
  shows "ns_sound (snd (ns_add room p ns))"
  using s m new path_ok_parts [OF p] p
  by (auto simp: ns_add_def ns_sound_def split: option.splits)

lemma not_listed:
  assumes "ns_sound ns" "fuse_path p" "ns_mode ns p = None" "ns_dirs ns (dir_part p) = Some cs"
  shows "base_part p \<notin> set cs"
  using ns_soundD(4) [OF assms(1,4), of "base_part p"] path_ok_parts [OF assms(2)] assms(3) by auto

lemma ns_drop_mode [simp]: "ns_mode (ns_drop p ns) = ns_mode ns"
  by (simp add: ns_drop_def split: option.split)

lemma ns_sound_unlink:
  assumes s: "ns_sound ns" and p: "fuse_path p"
  shows "ns_sound (snd (ns_unlink p ns))"
proof -
  note parts = path_ok_parts [OF p]
  have "join d c \<noteq> p"
    if "ns_dirs (ns_drop p ns) d = Some cs" "c \<in> set cs" for d cs c
  proof
    assume j: "join d c = p"
    have "\<exists>cs0. ns_dirs ns d = Some cs0 \<and> set cs \<subseteq> set cs0"
      using that(1) by (cases "ns_dirs ns (dir_part p)") (auto simp: ns_drop_def split: if_splits)
    then obtain cs0 where c0: "ns_dirs ns d = Some cs0" "set cs \<subseteq> set cs0" by blast
    then have "dir_ok d" "name_ok c"
      using ns_soundD(1) [OF s c0(1)] ns_soundD(3) [OF s c0(1)] that(2) by auto
    then have e: "d = dir_part p" "c = base_part p"
      using j by auto
    with c0 that show False by (auto simp: ns_drop_def)
  qed
  moreover have "ns_sound (ns_drop p ns)"
    using s by (auto simp: ns_sound_def ns_drop_def split: option.splits)
  ultimately show ?thesis
    by (auto simp: ns_unlink_def ns_sound_def)
qed

lemma ns_sound_exec:
  assumes s: "ns_sound ns" and c: "makes_entry c \<Longrightarrow> fuse_path (op_path c)"
  shows "ns_sound (ns_exec room c ns)"
proof (cases c)
  case (Create p m)
  then have p: "fuse_path p" using c by simp
  have "ns_sound (snd (ns_add room p (ns\<lparr>ns_mode := (ns_mode ns)(p \<mapsto> m)\<rparr>)))" if "ns_mode ns p = None"
    by (rule ns_sound_add [OF ns_sound_mode [OF s] p]) (use not_listed [OF s p that] in auto)
  then show ?thesis using s Create by (auto simp: ns_create_def)
next
  case (Unlink p)
  then show ?thesis using ns_sound_unlink [OF s] c by simp
next
  case (Mkdir p m)
  then have p: "fuse_path p" using c by simp
  let ?ns = "ns\<lparr>ns_mode := (ns_mode ns)(p \<mapsto> m)\<rparr>"
  have "ns_sound (?ns\<lparr>ns_dirs := (ns_dirs ?ns)(p \<mapsto> [])\<rparr>)"
    by (rule ns_sound_dir_new [OF ns_sound_mode [OF s] path_ok_dir_ok]) (use p in \<open>simp add: fuse_path_def\<close>)
  then have "ns_sound (snd (ns_add room p (?ns\<lparr>ns_dirs := (ns_dirs ?ns)(p \<mapsto> [])\<rparr>)))"
    if "ns_mode ns p = None"
    by (rule ns_sound_add [OF _ p])
      (use not_listed [OF s p that] dir_part_neq [of p] p in \<open>auto simp: fuse_path_def split: if_splits\<close>)
  then show ?thesis using s Mkdir by (auto simp: ns_mkdir_def Let_def intro: ns_sound_mode)
next
  case (Rmdir p)
  then show ?thesis using ns_sound_unlink [OF ns_sound_dir_del [OF s]] c by (simp add: ns_rmdir_def)
next
  case (Chmod p m)
  then show ?thesis using ns_sound_mode [OF s] s by (auto simp: ns_chmod_def)
qed (use s in auto)

lemma root_ns_sound: "ns_sound root_ns"
  by (auto simp: ns_sound_def root_ns_def dir_ok_def ROOT_DIR_STRING_def)

text \<open>Every state of a mounted file system is sound and holds only documents the program wrote.\<close>

lemma mounted_sound:
  assumes ok: "world_ok E D C" and allowed: "\<And>d c. allowed d c \<Longrightarrow> fuse_call c"
    and m: "mounted E D allowed w"
  shows "readable (cjson E) (D w) \<and> ns_sound (abs_ns (cjson E) (D w))"
  using m
proof (induction rule: mounted.induct)
  case (boot w st)
  then show ?case using boot_ns [OF ok boot(1)] root_ns_sound by simp
next
  case (run w c r w')
  from run(2) show ?case
  proof (cases rule: fs_step.cases)
    case call
    then have f: "fuse_call c" using allowed by blast
    then have "makes_entry c \<Longrightarrow> fuse_path (op_path c)" by (simp add: fuse_call_def)
    then show ?thesis
      using conjunct2 [OF run.IH] call
      by (simp add: ns_sound_exec call_refines [OF ok f conjunct1 [OF run.IH]])
  qed
qed

lemma mounted_readable:
  "world_ok E D C \<Longrightarrow> mounted E D (\<lambda>_. fuse_call) w \<Longrightarrow> readable (cjson E) (D w)"
  using mounted_sound [of E D C "\<lambda>_. fuse_call" w] by simp

lemma mounted_ns_sound:
  "world_ok E D C \<Longrightarrow> mounted E D (\<lambda>_. fuse_call) w \<Longrightarrow> ns_sound (abs_ns (cjson E) (D w))"
  using mounted_sound [of E D C "\<lambda>_. fuse_call" w] by simp

section \<open>What getattr and readdir answer\<close>

lemma getattr_found:
  assumes "server_ok E D C" "key_ok p" "stat_at (D w) p = Some s"
  shows "\<exists>fc. result_of (cbfuse_getattr E p st) w = (0, fill_attr fc s)"
proof -
  have "\<not> path_too_long p" using assms(2) by (auto simp: key_ok_def)
  then show ?thesis
    using assms
    by (auto simp: cbfuse_getattr_def prepared prepare_after prepared_get request_simps stat_at_docs
        key_ok_def sync.get_answer get_reply stat_size_test CBFUSE_STAT_STRUCT_SIZE_def
        simp del: split_paired_Ex)
qed

text \<open>A filler that always has room and keeps the names with the offsets it is given.\<close>

definition collect :: "(string \<times> int) list \<Rightarrow> string \<Rightarrow> int \<Rightarrow> int \<times> (string \<times> int) list" where
  "collect buf name next = (0, buf @ [(name, next)])"

text \<open>The entries with their offsets, the offset of an entry being that of the one behind it.\<close>

definition entries_from :: "int \<Rightarrow> string list \<Rightarrow> (string \<times> int) list" where
  "entries_from k cs = zip cs (map (\<lambda>i. k + 1 + int i) [0..<length cs])"

lemma entries_from_simps [simp]:
  "entries_from k [] = []"
  "entries_from k (c # cs) = (c, k + 1) # entries_from (k + 1) cs"
proof -
  have "map (\<lambda>i. k + 1 + int i) [0..<Suc n] = (k + 1) # map (\<lambda>i. k + 1 + 1 + int i) [0..<n]" for n
    by (simp add: upt_conv_Cons map_Suc_upt [symmetric] del: upt_Suc)
  then show "entries_from k [] = []" "entries_from k (c # cs) = (c, k + 1) # entries_from (k + 1) cs"
    by (simp_all add: entries_from_def del: upt_Suc)
qed

lemma map_fst_entries [simp]: "map fst (entries_from k cs) = cs"
  by (simp add: entries_from_def)

lemma readdir_loop_strings:
  assumes "cjson_ok J"
  shows "readdir_loop J collect offset k 0 (map JString cs) buf
    = (0, buf @ drop (nat (offset - k)) (entries_from k cs))"
proof (induction cs arbitrary: k buf)
  case (Cons c cs)
  show ?case
  proof (cases "offset \<le> k")
    case True
    then have "readdir_loop J collect offset k 0 (map JString (c # cs)) buf =
        readdir_loop J collect offset (k + 1) 0 (map JString cs) (buf @ [(c, k + 1)])"
      by (simp add: cjson_read [OF assms] collect_def)
    with True show ?thesis by (simp add: Cons)
  next
    case False
    then have "nat (offset - k) = Suc (nat (offset - (k + 1)))" by simp
    with False show ?thesis by (simp add: Cons)
  qed
qed simp

lemma readdir_spec:
  assumes "server_ok E D C" "cjson_ok (cjson E)" "key_ok p"
    and "dir_children (cjson E) (D w) p = Some cs"
  shows "result_of (cbfuse_readdir E p [] collect off) w
    = (0, drop (nat (sint off)) (entries_from 0 cs))"
  using assms(4)
proof (rule dir_childrenE)
  fix t ms
  assume "D w (dentry_id p) = Some t" "cJSON_ParseWithLength (cjson E) t = Some (JObject ms)"
    "map_of ms DENTRY_CHILDREN = Some (JArray (map JString cs))"
  then show ?thesis
    by (simp add: cbfuse_readdir_def get_dentry_json_spec [OF assms(1,3)] cjson_read [OF assms(2)]
        Let_def readdir_loop_strings [OF assms(2)])
qed

text \<open>A filler that is always full.\<close>

lemma readdir_loop_full:
  assumes "cjson_ok J"
  shows "offset \<le> k \<Longrightarrow> readdir_loop J (\<lambda>buf name next. (1, buf @ [name])) offset k r (map JString cs) buf
    = (if cs = [] then r else 1, buf @ cs)"
  by (induction cs arbitrary: k r buf) (simp_all add: cjson_read [OF assms])

lemma readdir_missing:
  assumes "server_ok E D C" "key_ok p" "D w (dentry_id p) = None"
  shows "result_of (cbfuse_readdir E p buf filler off) w = (- ENOENT, buf)"
  using assms(3) by (simp add: cbfuse_readdir_def get_dentry_json_spec [OF assms(1,2)])

text \<open>A name in a listing is an entry of the directory.\<close>

lemma listed_child:
  assumes ok: "world_ok E D C" and rd: "readable (cjson E) (D w)" and k: "key_ok d"
    and l: "c \<in> set (map fst (snd (result_of (cbfuse_readdir E d [] collect off) w)))"
  shows "\<exists>cs. dir_children (cjson E) (D w) d = Some cs \<and> c \<in> set cs"
proof (cases "dir_children (cjson E) (D w) d")
  case None
  then have "D w (dentry_id d) = None" using rd by (auto simp: readable_def)
  with l show ?thesis by (simp add: readdir_missing [OF world_okD(2) [OF ok] k])
next
  case (Some cs)
  from l have "c \<in> set (map fst (drop (nat (sint off)) (entries_from 0 cs)))"
    by (simp add: readdir_spec [OF world_okD(2,3) [OF ok] k Some])
  then have "c \<in> set (map fst (entries_from 0 cs))"
    unfolding drop_map [symmetric] by (rule in_set_dropD)
  with Some show ?thesis by simp
qed

lemma listing_distinct:
  assumes ok: "world_ok E D C" and rd: "readable (cjson E) (D w)" and k: "key_ok d"
    and s: "ns_sound (abs_ns (cjson E) (D w))"
  shows "distinct (map fst (snd (result_of (cbfuse_readdir E d [] collect off) w)))"
proof (cases "dir_children (cjson E) (D w) d")
  case None
  then have "D w (dentry_id d) = None" using rd by (auto simp: readable_def)
  then show ?thesis by (simp add: readdir_missing [OF world_okD(2) [OF ok] k])
next
  case (Some cs)
  with ns_soundD(2) [OF s, of d] have "distinct cs" by simp
  then show ?thesis
    by (simp add: readdir_spec [OF world_okD(2,3) [OF ok] k Some] drop_map [symmetric])
qed

end
