(* ===== verification/Files.thy ===== *)
theory Files
  imports FileSystem
begin

text \<open>
  Files over a history of calls: what the handlers do to the stat and the contents of each path
  (\<open>file_at\<close>), the agreement of \<open>st_size\<close> with the contents as an invariant of the mounted file
  system, and reading back what was written.
\<close>

section \<open>Writes the server has no room for\<close>

text \<open>A file is one document, so a write that ends behind the 20 MiB of a document fails and
  changes nothing, also where it is below the limit for files that the code tests.\<close>

lemma write_data_refused:
  fixes E :: "'w env" and w :: 'w
  assumes ok: "server_ok E D C" "heap_ok E" "key_ok p" and b: "b \<noteq> []"
    and lim: "20971520 < unat off + length b" "unat off + length b < 2 ^ 64"
  shows "result_of (write_data E p b (of_nat (length b)) off) w = Defined (- 1)"
    and "D (after (write_data E p b (of_nat (length b)) off) w) = D w"
proof -
  have lb: "unat (of_nat (length b) :: size_t) = length b"
    using lim(2) by (intro unat_of_nat_size) simp
  then have sum: "unat (off + of_nat (length b)) = unat off + length b"
    using lim(2) by (simp add: unat_add_size)
  show "result_of (write_data E p b (of_nat (length b)) off) w = Defined (- 1)"
    and "D (after (write_data E p b (of_nat (length b)) off) w) = D w"
  proof (atomize (full), cases "5368709120 < unat off + length b")
    case True
    then have "MAX_FILE_LEN < off + of_nat (length b)"
      using sum by (simp add: word_less_nat_alt)
    then show "result_of (write_data E p b (of_nat (length b)) off) w = Defined (- 1) \<and>
        D (after (write_data E p b (of_nat (length b)) off) w) = D w"
      by (simp add: write_data_def)
  next
    case False
    then have small: "\<not> MAX_FILE_LEN < off + of_nat (length b)"
      using sum by (simp add: word_less_nat_alt)
    let ?u = "update_block E p (Some b) (of_nat (length b)) off (Some 0)"
    have "\<exists>nbs. result_of ?u w = Defined (- EIO, nbs)" and "D (after ?u w) = D w"
      using update_block_write [OF ok(1,2,3) b, of off w] False lim(1) by auto
    with small show "result_of (write_data E p b (of_nat (length b)) off) w = Defined (- 1) \<and>
        D (after (write_data E p b (of_nat (length b)) off) w) = D w"
      by (auto simp: write_data_def)
  qed
qed

section \<open>Stat and contents of a path\<close>

definition file_at :: "docs \<Rightarrow> string \<Rightarrow> cbfuse_stat option \<times> byte list option" where
  "file_at d p = (stat_at d p, d (block_id p))"

lemma file_at_cong:
  "d' (stat_id p) = d (stat_id p) \<Longrightarrow> d' (block_id p) = d (block_id p) \<Longrightarrow> file_at d' p = file_at d p"
  by (simp add: file_at_def stat_at_def)

lemma file_at_dentry [simp]: "file_at (d(dentry_id q := v)) p = file_at d p"
  by (rule file_at_cong) simp_all

lemma file_at_add_child:
  "server_ok E D C \<Longrightarrow> key_ok q \<Longrightarrow> file_at (D (after (add_child_to_dentry E q c) w)) p = file_at (D w) p"
  by (rule file_at_cong; rule child_ops_frame(1); simp)

lemma file_at_remove_child:
  "server_ok E D C \<Longrightarrow> key_ok q \<Longrightarrow> file_at (D (after (remove_child_from_dentry E q c) w)) p = file_at (D w) p"
  by (rule file_at_cong; rule child_ops_frame(2); simp)

lemma file_at_add_new_dentry:
  "server_ok E D C \<Longrightarrow> key_ok q \<Longrightarrow> file_at (D (after (add_new_dentry E q x y) w)) p = file_at (D w) p"
  by (rule file_at_cong; rule add_new_dentry_frame; simp)

lemmas file_at_dentry_ops = file_at_add_child file_at_remove_child file_at_add_new_dentry

text \<open>Creating: a new stat where there was none; removing: neither stat nor contents.\<close>

lemma file_at_insert:
  assumes "server_ok E D C" "clock_ok E" "key_ok p"
  shows "\<exists>ts. \<forall>q. file_at (D (after (insert_stat E p m) w)) q =
    (if q = p \<and> D w (stat_id p) = None then (Some (new_stat m ts), D w (block_id p))
     else file_at (D w) q)"
  using insert_stat_spec(2) [OF assms, of m w] by (auto simp: file_at_def stat_at_def)

lemma create_files:
  assumes ok: "world_ok E D C" "fuse_path p"
  shows "\<exists>ts. \<forall>q. file_at (D (after (cbfuse_create E p m) w)) q =
    (if q = p \<and> S_ISREG m \<and> D w (stat_id p) = None then (Some (new_stat m ts), D w (block_id p))
     else file_at (D w) q)"
proof -
  note w = world_okD [OF ok(1)] and f = fuse_path_parts [OF ok(2)]
  obtain ts where "\<forall>q. file_at (D (after (insert_stat E p m) w)) q =
    (if q = p \<and> D w (stat_id p) = None then (Some (new_stat m ts), D w (block_id p))
     else file_at (D w) q)"
    using file_at_insert [OF w(2,4) f(3)] by blast
  then show ?thesis
    by (intro exI [of _ ts]) (auto simp: cbfuse_create_def f file_at_add_child [OF w(2) f(4)])
qed

lemma mkdir_files:
  assumes ok: "world_ok E D C" "fuse_path p"
  shows "\<exists>ts. \<forall>q. file_at (D (after (cbfuse_mkdir E p m) w)) q =
    (if q = p \<and> D w (stat_id p) = None then (Some (new_stat m ts), D w (block_id p))
     else file_at (D w) q)"
proof -
  note w = world_okD [OF ok(1)] and f = fuse_path_parts [OF ok(2)]
  obtain ts where "\<forall>q. file_at (D (after (insert_stat E p m) w)) q =
    (if q = p \<and> D w (stat_id p) = None then (Some (new_stat m ts), D w (block_id p))
     else file_at (D w) q)"
    using file_at_insert [OF w(2,4) f(3)] by blast
  then show ?thesis
    by (intro exI [of _ ts])
      (auto simp: cbfuse_mkdir_def f mkdir_mode_test file_at_add_child [OF w(2) f(4)]
        file_at_add_new_dentry [OF w(2) f(3)])
qed

lemma unlink_files:
  assumes ok: "world_ok E D C" "fuse_path p"
  shows "file_at (D (after (cbfuse_unlink E p) w)) q = (if q = p then (None, None) else file_at (D w) q)"
proof -
  note w = world_okD [OF ok(1)] and f = fuse_path_parts [OF ok(2)]
  let ?w = "after (remove_child_from_dentry E (dir_part p) (base_part p)) (after (remove_data E p) w)"
  have "file_at (D ?w) q = file_at ((D w)(block_id p := None)) q" for q
    by (simp add: file_at_remove_child [OF w(2) f(4)] remove_data_spec [OF w(2) f(3)])
  then show ?thesis
    by (auto simp: cbfuse_unlink_def f remove_stat_spec [OF w(2) f(3)] file_at_def stat_at_def)
qed

lemma rmdir_files:
  assumes ok: "world_ok E D C" "fuse_path p"
  shows "file_at (D (after (cbfuse_rmdir E p) w)) q =
    (if q = p then (None, D w (block_id p)) else file_at (D w) q)"
proof -
  note w = world_okD [OF ok(1)] and f = fuse_path_parts [OF ok(2)]
  let ?w = "after (remove_child_from_dentry E (dir_part p) (base_part p)) (after (remove_dentry E p) w)"
  have "file_at (D ?w) q = file_at (D w) q" for q
    by (simp add: file_at_remove_child [OF w(2) f(4)] remove_dentry_spec [OF w(2) f(3)])
  then show ?thesis
    by (auto simp: cbfuse_rmdir_def f remove_stat_spec [OF w(2) f(3)] file_at_def stat_at_def)
qed

section \<open>The size in the stat is the length of the contents\<close>

definition size_ok :: "cbfuse_stat option \<times> byte list option \<Rightarrow> bool" where
  "size_ok v \<longleftrightarrow> (case v of
     (None, b) \<Rightarrow> b = None
   | (Some s, b) \<Rightarrow> unat (st_size s) = length (case_option [] id b))"

definition sizes_match :: "docs \<Rightarrow> bool" where
  "sizes_match d \<longleftrightarrow> (\<forall>p. size_ok (file_at d p))"

lemma size_ok_simps [simp]:
  "size_ok (None, b) \<longleftrightarrow> b = None"
  "size_ok (Some s, b) \<longleftrightarrow> unat (st_size s) = length (case_option [] id b)"
  by (simp_all add: size_ok_def)

lemma sizes_match_same: "(\<And>p. file_at d' p = file_at d p) \<Longrightarrow> sizes_match d' = sizes_match d"
  by (simp add: sizes_match_def)

lemma sizes_match_upd:
  "sizes_match d \<Longrightarrow> (\<And>q. q \<noteq> p \<Longrightarrow> file_at d' q = file_at d q) \<Longrightarrow> size_ok (file_at d' p) \<Longrightarrow>
   sizes_match d'"
  unfolding sizes_match_def by metis

lemma sizes_matchD:
  assumes "sizes_match d"
  shows "stat_at d p = Some s \<Longrightarrow> unat (st_size s) = length (content d p)"
    and "stat_at d p = None \<Longrightarrow> d (block_id p) = None"
  using spec [OF assms [unfolded sizes_match_def], of p] by (auto simp: file_at_def content_def)

lemma file_at_stat_put:
  "file_at (d(stat_id p \<mapsto> stat_bytes s)) q = (if q = p then (Some s, d (block_id p)) else file_at d q)"
  by (auto simp: file_at_def stat_at_def)

lemma sizes_match_stat_put:
  assumes "sizes_match d" "stat_at d p = Some s" "st_size t = st_size s"
  shows "sizes_match (d(stat_id p \<mapsto> stat_bytes t))"
  using sizes_matchD(1) [OF assms(1,2)] assms(3)
  by (intro sizes_match_upd [OF assms(1), of p]) (auto simp: file_at_stat_put content_def)

lemma apply_utimens_size [simp]: "st_size (apply_utimens tv ts s) = st_size s"
  by (auto simp: apply_utimens_def Let_def split: option.split)

text \<open>Attribute changes and reading.\<close>

lemma attr_sizes:
  assumes ok: "server_ok E D C" "clock_ok E" "key_ok p" and m: "sizes_match (D w)"
  shows "sizes_match (D (after (update_stat_atime E p) w))"
    and "sizes_match (D (after (update_stat_utimens E p tv) w))"
    and "sizes_match (D (after (update_stat_mode E p md) w))"
proof (atomize (full), cases "stat_at (D w) p")
  case None
  show "sizes_match (D (after (update_stat_atime E p) w)) \<and>
    sizes_match (D (after (update_stat_utimens E p tv) w)) \<and>
    sizes_match (D (after (update_stat_mode E p md) w))"
    using update_stat_failed [OF ok(1,3) None] m by simp
next
  case (Some s)
  note put = sizes_match_stat_put [OF m Some]
  show "sizes_match (D (after (update_stat_atime E p) w)) \<and>
    sizes_match (D (after (update_stat_utimens E p tv) w)) \<and>
    sizes_match (D (after (update_stat_mode E p md) w))"
    using update_stat_atime_spec [OF ok Some] update_stat_utimens_spec [OF ok Some, of tv]
      update_stat_mode_spec [OF ok(1,3) Some, of md]
    by (auto simp: put)
qed

lemma read_sizes:
  assumes ok: "server_ok E D C" "clock_ok E" "key_ok p" and m: "sizes_match (D w)"
  shows "sizes_match (D (after (read_data E p n off) w))"
  using attr_sizes(1) [OF ok, of "after (get_block E p) w"] m
  by (auto simp: read_data_def Let_def get_block_spec(2) [OF ok(1,3)] split: c_result.split)

text \<open>Writing and truncating an existing file.\<close>

lemma write_sizes:
  assumes ok: "server_ok E D C" "clock_ok E" "heap_ok E" "key_ok p" and m: "sizes_match (D w)"
    and st: "stat_at (D w) p = Some s" and b: "b \<noteq> []" and lim: "unat off + length b < 2 ^ 64"
  shows "sizes_match (D (after (write_data E p b (of_nat (length b)) off) w))"
proof (cases "unat off + length b \<le> 20971520")
  case False
  then show ?thesis
    using write_data_refused [OF ok(1,3,4) b] lim m by simp
next
  case True
  let ?c = "content (D w) p" and ?d = "D (after (write_data E p b (of_nat (length b)) off) w)"
  have len: "unat (st_size s) = length ?c" by (rule sizes_matchD(1) [OF m st])
  obtain filling and ts :: timespec where f: "length filling = unat off - length ?c" and
    d: "?d = (if length ?c < unat off + length b
       then (D w)(block_id p \<mapsto> file_write ?c (unat off) b filling,
              stat_id p \<mapsto> stat_bytes (s\<lparr>st_mtime := tv_sec ts, st_mtimensec := tv_nsec ts,
                st_size := of_nat (unat off + length b)\<rparr>))
       else (D w)(block_id p \<mapsto> file_write ?c (unat off) b filling))"
    using write_data_spec [OF ok st b True] by blast
  have n: "unat (of_nat (unat off + length b) :: off_t) = unat off + length b"
    using True by (intro unat_of_nat_size) simp
  show ?thesis
  proof (rule sizes_match_upd [OF m])
    show "q \<noteq> p \<Longrightarrow> file_at ?d q = file_at (D w) q" for q
      by (rule file_at_cong) (simp_all add: d)
    show "size_ok (file_at ?d p)"
      using st n len length_file_write [OF f, of b] unfolding d
      by (simp add: file_at_def stat_at_docs [THEN iffD1, OF st] stat_at_def max_def)
  qed
qed

lemma truncate_sizes:
  assumes ok: "server_ok E D C" "clock_ok E" "key_ok p" and m: "sizes_match (D w)"
    and st: "stat_at (D w) p = Some s" and le: "unat off \<le> length (content (D w) p)"
  shows "sizes_match (D (after (truncate_data E p off) w))"
proof (cases "off = 0 \<and> D w (block_id p) = None")
  case True
  then show ?thesis
    using m by (simp add: truncate_data_def remove_data_spec [OF ok(1,3)] fun_upd_idem)
next
  case False
  let ?d = "D (after (truncate_data E p off) w)"
  from False le have cut: "unat off \<le> length (content (D w) p) \<and> (off = 0 \<longrightarrow> D w (block_id p) \<noteq> None)"
    by auto
  obtain ts :: timespec where
    d: "?d = (D w)(
      block_id p := (if off = 0 then None else Some (take (unat off) (content (D w) p))),
      stat_id p \<mapsto> stat_bytes (s\<lparr>st_mtime := tv_sec ts, st_mtimensec := tv_nsec ts, st_size := off\<rparr>))"
    using truncate_data_spec [OF ok st cut] by blast
  show ?thesis
  proof (rule sizes_match_upd [OF m])
    show "q \<noteq> p \<Longrightarrow> file_at ?d q = file_at (D w) q" for q
      by (rule file_at_cong) (simp_all add: d)
    show "size_ok (file_at ?d p)"
      using le unfolding d by (simp add: file_at_def stat_at_def)
  qed
qed

text \<open>
  How programs use files through FUSE: they write data to files that exist, at offsets that do
  not overflow, cut files at most to their length, and remove directories as directories.
\<close>

fun well_used_call :: "docs \<Rightarrow> fs_op \<Rightarrow> bool" where
  "well_used_call d (Write p b n off) \<longleftrightarrow>
     stat_at d p \<noteq> None \<and> b \<noteq> [] \<and> n = of_nat (length b) \<and> unat off + length b < 2 ^ 64"
| "well_used_call d (Truncate p off) \<longleftrightarrow> stat_at d p \<noteq> None \<and> unat off \<le> length (content d p)"
| "well_used_call d (Rmdir p) \<longleftrightarrow> d (block_id p) = None"
| "well_used_call d _ \<longleftrightarrow> True"

definition well_used :: "docs \<Rightarrow> fs_op \<Rightarrow> bool" where
  "well_used d c \<longleftrightarrow> fuse_call c \<and> well_used_call d c"

lemma new_stat_size [simp]: "st_size (new_stat m ts) = 0"
  by (simp add: new_stat_def zero_stat_def)

lemma entry_sizes:
  assumes m: "sizes_match d" and rd: "readable J d"
    and d': "\<forall>q. file_at d' q = (if q = p \<and> P \<and> d (stat_id p) = None
      then (Some (new_stat md ts), d (block_id p)) else file_at d q)"
  shows "sizes_match d'"
proof (cases "P \<and> d (stat_id p) = None")
  case True
  then have "stat_at d p = None" by (simp add: stat_at_def)
  from sizes_matchD(2) [OF m this] True d' show ?thesis
    by (intro sizes_match_upd [OF m, of p]) simp_all
next
  case False
  with d' have "\<forall>q. file_at d' q = file_at d q" by auto
  with m show ?thesis using sizes_match_same by blast
qed

lemma call_sizes:
  assumes ok: "world_ok E D C" and c: "well_used (D w) c" and rd: "readable (cjson E) (D w)"
    and m: "sizes_match (D w)"
  shows "sizes_match (D (after (cb_filesystem_operations E filler buf c) w))"
proof -
  note w = world_okD [OF ok]
  have key: "key_ok (op_path c)" and entry: "makes_entry c \<Longrightarrow> fuse_path (op_path c)"
    and use: "well_used_call (D w) c"
    using c by (auto simp: fuse_call_def well_used_def)
  show ?thesis
  proof (cases c)
    case (Create p md)
    with entry have p: "fuse_path p" by simp
    obtain ts where "\<forall>q. file_at (D (after (cbfuse_create E p md) w)) q =
        (if q = p \<and> S_ISREG md \<and> D w (stat_id p) = None
         then (Some (new_stat md ts), D w (block_id p)) else file_at (D w) q)"
      using create_files [OF ok p] by blast
    from entry_sizes [OF m rd this] show ?thesis using Create by simp
  next
    case (Mkdir p md)
    with entry have p: "fuse_path p" by simp
    obtain ts where "\<forall>q. file_at (D (after (cbfuse_mkdir E p md) w)) q =
        (if q = p \<and> True \<and> D w (stat_id p) = None
         then (Some (new_stat md ts), D w (block_id p)) else file_at (D w) q)"
      using mkdir_files [OF ok p, of md w] by auto
    from entry_sizes [OF m rd this] show ?thesis using Mkdir by simp
  next
    case (Unlink p)
    with entry have p: "fuse_path p" by simp
    show ?thesis
      using Unlink by (simp add: sizes_match_upd [OF m, of p] unlink_files [OF ok p])
  next
    case (Rmdir p)
    with entry have p: "fuse_path p" by simp
    show ?thesis
      using Rmdir use by (simp add: sizes_match_upd [OF m, of p] rmdir_files [OF ok p])
  next
    case (Write p b n off)
    with use obtain s where "stat_at (D w) p = Some s" "b \<noteq> []" "n = of_nat (length b)"
      "unat off + length b < 2 ^ 64"
      by auto
    with write_sizes [OF w(2,4,5) _ m this(1,2,4)] show ?thesis
      using Write key by (simp add: cbfuse_write_def)
  next
    case (Truncate p off)
    with use obtain s where "stat_at (D w) p = Some s" "unat off \<le> length (content (D w) p)"
      by auto
    with truncate_sizes [OF w(2,4) _ m this] show ?thesis
      using Truncate key by (simp add: cbfuse_truncate_def)
  next
    case (Read p n off)
    then show ?thesis using read_sizes [OF w(2,4) _ m] key by (simp add: cbfuse_read_def)
  next
    case (Chmod p md)
    then show ?thesis using attr_sizes(3) [OF w(2,4) _ m] key by (simp add: cbfuse_chmod_def)
  next
    case (Utimens p tv)
    then show ?thesis using attr_sizes(2) [OF w(2,4) _ m] key by (simp add: cbfuse_utimens_def)
  qed (use m key in \<open>simp_all add: read_only [OF w(2)]\<close>)
qed

lemma boot_sizes:
  fixes st :: file_attr
  assumes "world_ok E D C" "D w = (\<lambda>_. None)"
  shows "sizes_match (D (after (verify_root E st) w))"
proof -
  let ?d = "D (after (verify_root E st) w)"
  have "size_ok (file_at ?d p)" for p
    using boot_ns(3) [OF assms, of st p] boot_ns(4) [OF assms, of st p]
    by (cases "stat_at ?d p") (simp_all add: file_at_def)
  then show ?thesis by (simp add: sizes_match_def)
qed

lemma mounted_sizes:
  assumes ok: "world_ok E D C" and m: "mounted E D well_used w"
  shows "sizes_match (D w)"
  using m
proof (induction rule: mounted.induct)
  case (boot w st)
  then show ?case using boot_sizes [OF ok] by simp
next
  case (run w c r w')
  have rd: "readable (cjson E) (D w)"
    using mounted_sound [OF ok _ run(1)] by (simp add: well_used_def)
  from run(2) show ?case
    by (rule fs_stepE) (simp add: call_sizes [OF ok _ rd run.IH])
qed

section \<open>Reading back\<close>

lemma write_read:
  fixes E :: "'w env"
  assumes ok: "server_ok E D C" "clock_ok E" "heap_ok E" "key_ok p" and st: "stat_at (D w) p = Some s"
    and b: "b \<noteq> []" and lim: "unat off + length b \<le> 20971520"
  shows "result_of (cbfuse_write E p b (of_nat (length b)) off) w = Defined (int (length b)) \<and>
    result_of (cbfuse_read E p (of_nat (length b)) off)
      (after (cbfuse_write E p b (of_nat (length b)) off) w) = Defined (int (length b), b)"
proof -
  let ?m = "write_data E p b (of_nat (length b)) off" and ?c = "content (D w) p"
  obtain filling and ts :: timespec where f: "length filling = unat off - length ?c"
    and res: "result_of ?m w = Defined (int (length b))"
    and docs: "D (after ?m w) =
      (if length ?c < unat off + length b
       then (D w)(block_id p \<mapsto> file_write ?c (unat off) b filling,
              stat_id p \<mapsto> stat_bytes (s\<lparr>st_mtime := tv_sec ts, st_mtimensec := tv_nsec ts,
                st_size := of_nat (unat off + length b)\<rparr>))
       else (D w)(block_id p \<mapsto> file_write ?c (unat off) b filling))"
    using write_data_spec [OF ok st b lim] by blast
  let ?v = "file_write ?c (unat off) b filling"
  have v: "D (after ?m w) (block_id p) = Some ?v" by (simp add: docs)
  have "\<exists>s'. stat_at (D (after ?m w)) p = Some s'"
    using st by (auto simp: docs stat_at_docs)
  then obtain s' where s': "stat_at (D (after ?m w)) p = Some s'" by blast
  have lb: "unat (of_nat (length b) :: size_t) = length b"
    using lim by (intro unat_of_nat_size) simp
  have off: "0 \<le> sint off"
    using lim by (simp add: sint_eq_unat)
  have len: "length ?v = max (length ?c) (unat off + length b)"
    by (rule length_file_write [OF f])
  have "length b \<noteq> 0" using b by simp
  then have more: "\<not> length ?v \<le> unat off" "min (length b) (length ?v - unat off) = length b"
    by (simp_all add: len)
  have small: "unat (of_nat (length b) :: size_t) < 2 ^ 31" using lb lim by simp
  from read_data_spec [OF ok(1,2,4) s' v off small] more lb take_drop_file_write [OF f, of b]
  have "result_of (read_data E p (of_nat (length b)) off) (after ?m w) = Defined (int (length b), b)"
    by simp
  with res show ?thesis by (simp add: cbfuse_write_def cbfuse_read_def)
qed

section \<open>A call touches one file\<close>

lemma call_isolated:
  assumes ok: "world_ok E D C" and c: "fuse_call c" and q: "q \<noteq> op_path c"
  shows "file_at (D (after (cb_filesystem_operations E filler buf c) w)) q = file_at (D w) q"
proof -
  note w = world_okD [OF ok]
  have key: "key_ok (op_path c)" and entry: "makes_entry c \<Longrightarrow> fuse_path (op_path c)"
    using c by (auto simp: fuse_call_def)
  show ?thesis
  proof (cases c)
    case (Create p md)
    then have "fuse_path p" "q \<noteq> p" using entry q by auto
    with create_files [OF ok, of p md w] show ?thesis using Create by auto
  next
    case (Mkdir p md)
    then have "fuse_path p" "q \<noteq> p" using entry q by auto
    with mkdir_files [OF ok, of p md w] show ?thesis using Mkdir by auto
  next
    case (Unlink p)
    then have "fuse_path p" "q \<noteq> p" using entry q by auto
    with unlink_files [OF ok, of p w q] show ?thesis using Unlink by auto
  next
    case (Rmdir p)
    then have "fuse_path p" "q \<noteq> p" using entry q by auto
    with rmdir_files [OF ok, of p w q] show ?thesis using Rmdir by auto
  next
    case (Write p b n off)
    then show ?thesis using key q
      by (auto simp: cbfuse_write_def data_ops_frame [OF w(2)] intro!: file_at_cong)
  next
    case (Read p n off)
    then show ?thesis using key q
      by (auto simp: cbfuse_read_def data_ops_frame [OF w(2)] intro!: file_at_cong)
  next
    case (Truncate p off)
    then show ?thesis using key q
      by (auto simp: cbfuse_truncate_def data_ops_frame [OF w(2)] intro!: file_at_cong)
  next
    case (Chmod p md)
    then show ?thesis using key q
      by (auto simp: cbfuse_chmod_def update_frame [OF w(2)] intro!: file_at_cong)
  next
    case (Utimens p tv)
    then show ?thesis using key q
      by (auto simp: cbfuse_utimens_def update_frame [OF w(2)] intro!: file_at_cong)
  qed (use key in \<open>simp_all add: read_only [OF w(2)]\<close>)
qed

section \<open>The change time\<close>

text \<open>\<open>keeps_ctime d d'\<close>: every stat of \<open>d\<close> is one of \<open>d'\<close>, with the same \<open>st_ctime\<close>.\<close>

definition same_ctime :: "cbfuse_stat \<Rightarrow> cbfuse_stat \<Rightarrow> bool" where
  "same_ctime s t \<longleftrightarrow> st_ctime t = st_ctime s \<and> st_ctimensec t = st_ctimensec s"

definition keeps_ctime :: "docs \<Rightarrow> docs \<Rightarrow> bool" where
  "keeps_ctime d d' \<longleftrightarrow> (\<forall>p s. stat_at d p = Some s \<longrightarrow> (\<exists>t. stat_at d' p = Some t \<and> same_ctime s t))"

lemma same_ctime_refl [simp]: "same_ctime s s"
  by (simp add: same_ctime_def)

lemma keeps_ctime_refl [simp]: "keeps_ctime d d"
  by (simp add: keeps_ctime_def)

lemma keeps_ctime_trans: "keeps_ctime d d' \<Longrightarrow> keeps_ctime d' d'' \<Longrightarrow> keeps_ctime d d''"
  unfolding keeps_ctime_def same_ctime_def by metis

lemma keeps_ctime_block:
  assumes "\<And>x. x \<noteq> block_id p \<Longrightarrow> d' x = d x"
  shows "keeps_ctime d d'"
proof -
  have "stat_at d' q = stat_at d q" for q using assms by (simp add: stat_at_def)
  then show ?thesis by (simp add: keeps_ctime_def)
qed

lemma keeps_ctime_put:
  "stat_at d p = Some s \<Longrightarrow> same_ctime s t \<Longrightarrow> keeps_ctime d (d(stat_id p \<mapsto> stat_bytes t))"
proof -
  have "stat_at (d(stat_id p \<mapsto> stat_bytes t)) q = (if q = p then Some t else stat_at d q)" for q
    by (auto simp: stat_at_def)
  then show "stat_at d p = Some s \<Longrightarrow> same_ctime s t \<Longrightarrow> keeps_ctime d (d(stat_id p \<mapsto> stat_bytes t))"
    by (simp add: keeps_ctime_def)
qed

lemma apply_utimens_ctime [simp]: "same_ctime s (apply_utimens tv ts s)"
  by (auto simp: apply_utimens_def same_ctime_def Let_def split: option.split)

lemma updates_keep_ctime:
  assumes ok: "server_ok E D C" "clock_ok E" "key_ok p"
  shows "keeps_ctime (D w) (D (after (update_stat_atime E p) w))"
    and "keeps_ctime (D w) (D (after (update_stat_size E p n) w))"
    and "keeps_ctime (D w) (D (after (update_stat_utimens E p tv) w))"
    and "keeps_ctime (D w) (D (after (update_stat_mode E p m) w))"
proof (atomize (full), cases "stat_at (D w) p")
  case None
  show "(keeps_ctime (D w) (D (after (update_stat_atime E p) w)) \<and>
    keeps_ctime (D w) (D (after (update_stat_size E p n) w))) \<and>
    keeps_ctime (D w) (D (after (update_stat_utimens E p tv) w)) \<and>
    keeps_ctime (D w) (D (after (update_stat_mode E p m) w))"
    using update_stat_failed [OF ok(1,3) None] by simp
next
  case (Some s)
  have put: "st_ctime t = st_ctime s \<Longrightarrow> st_ctimensec t = st_ctimensec s \<Longrightarrow>
      keeps_ctime (D w) ((D w)(stat_id p \<mapsto> stat_bytes t))" for t
    by (rule keeps_ctime_put [OF Some]) (simp add: same_ctime_def)
  have times: "st_ctime (apply_utimens tv ts s) = st_ctime s"
    "st_ctimensec (apply_utimens tv ts s) = st_ctimensec s" for ts
    using apply_utimens_ctime [of s tv ts] by (simp_all add: same_ctime_def)
  show "(keeps_ctime (D w) (D (after (update_stat_atime E p) w)) \<and>
    keeps_ctime (D w) (D (after (update_stat_size E p n) w))) \<and>
    keeps_ctime (D w) (D (after (update_stat_utimens E p tv) w)) \<and>
    keeps_ctime (D w) (D (after (update_stat_mode E p m) w))"
    using update_stat_atime_spec [OF ok Some] update_stat_size_spec [OF ok Some, of n]
      update_stat_utimens_spec [OF ok Some, of tv] update_stat_mode_spec [OF ok(1,3) Some, of m]
    by (auto simp: put times)
qed

lemma data_ops_keep_ctime:
  assumes ok: "server_ok E D C" "clock_ok E" "key_ok p"
  shows "keeps_ctime (D w) (D (after (read_data E p n off) w))"
    and "keeps_ctime (D w) (D (after (write_data E p b n off) w))"
    and "keeps_ctime (D w) (D (after (truncate_data E p off) w))"
proof -
  note upd = updates_keep_ctime [OF ok]
  have blk: "keeps_ctime (D w) (D (after (update_block E p buf m off nbs) w))" for buf m nbs
    by (rule keeps_ctime_block [where p = p]) (rule update_block_frame [OF ok(1,3)])
  have del: "keeps_ctime (D w) (D (after (remove_data E p) w))"
    by (rule keeps_ctime_block [where p = p]) (simp add: remove_data_spec [OF ok(1,3)])
  show "keeps_ctime (D w) (D (after (read_data E p n off) w))"
    using upd(1) [of "after (get_block E p) w"] get_block_spec(2) [OF ok(1,3), of w]
    by (auto simp: read_data_def Let_def split: c_result.split)
  show "keeps_ctime (D w) (D (after (write_data E p b n off) w))"
    using blk [of "Some b" n "Some 0"] keeps_ctime_trans [OF blk [of "Some b" n "Some 0"] upd(2)]
    by (auto simp: write_data_def split: c_result.split)
  show "keeps_ctime (D w) (D (after (truncate_data E p off) w))"
    using blk [of None 0 None] del keeps_ctime_trans [OF blk [of None 0 None] upd(2)]
      keeps_ctime_trans [OF del upd(2)]
    by (auto simp: truncate_data_def split: c_result.split)
qed

lemma keeps_ctimeD:
  "keeps_ctime d d' \<Longrightarrow> stat_at d p = Some s \<Longrightarrow> stat_at d' p = Some t \<Longrightarrow> same_ctime s t"
  unfolding keeps_ctime_def by fastforce

text \<open>No call changes the change time of a stat that is there before and after it.\<close>

lemma call_keeps_ctime:
  assumes ok: "world_ok E D C" and c: "fuse_call c"
    and s: "stat_at (D w) q = Some s"
      "stat_at (D (after (cb_filesystem_operations E filler buf c) w)) q = Some t"
  shows "same_ctime s t"
proof (cases "q = op_path c")
  case False
  with call_isolated [OF ok c, of q filler buf w] s show ?thesis by (simp add: file_at_def)
next
  case True
  note w = world_okD [OF ok]
  have key: "key_ok (op_path c)" and entry: "makes_entry c \<Longrightarrow> fuse_path (op_path c)"
    using c by (auto simp: fuse_call_def)
  have there: "D w (stat_id q) \<noteq> None" using s(1) by (auto simp: stat_at_docs)
  show ?thesis
  proof (cases c)
    case (Create p md)
    with create_files [OF ok, of p md w] entry there True s show ?thesis
      by (auto simp: file_at_def)
  next
    case (Mkdir p md)
    with mkdir_files [OF ok, of p md w] entry there True s show ?thesis
      by (auto simp: file_at_def)
  next
    case (Unlink p)
    with unlink_files [OF ok, of p w q] entry True s show ?thesis by (auto simp: file_at_def)
  next
    case (Rmdir p)
    with rmdir_files [OF ok, of p w q] entry True s show ?thesis by (auto simp: file_at_def)
  next
    case (Write p b n off)
    then show ?thesis using keeps_ctimeD [OF data_ops_keep_ctime(2) [OF w(2,4)] s(1)] s(2) key
      by (simp add: cbfuse_write_def)
  next
    case (Read p n off)
    then show ?thesis using keeps_ctimeD [OF data_ops_keep_ctime(1) [OF w(2,4)] s(1)] s(2) key
      by (simp add: cbfuse_read_def)
  next
    case (Truncate p off)
    then show ?thesis using keeps_ctimeD [OF data_ops_keep_ctime(3) [OF w(2,4)] s(1)] s(2) key
      by (simp add: cbfuse_truncate_def)
  next
    case (Chmod p md)
    then show ?thesis using keeps_ctimeD [OF updates_keep_ctime(4) [OF w(2,4)] s(1)] s(2) key
      by (simp add: cbfuse_chmod_def)
  next
    case (Utimens p tv)
    then show ?thesis using keeps_ctimeD [OF updates_keep_ctime(3) [OF w(2,4)] s(1)] s(2) key
      by (simp add: cbfuse_utimens_def)
  qed (use s key in \<open>simp_all add: read_only [OF w(2)]\<close>)
qed

end
