(* ===== verification/FileStore.thy ===== *)
theory FileStore
  imports Files
begin

text \<open>
  The whole file system as its callers see it: the name space together with the contents of every
  path, what each call answers and what it changes. The simulation: the handlers, run in a world
  that behaves, answer and change exactly that, so every history of calls is one of the abstract
  file system.
\<close>

section \<open>The abstract file system\<close>

record afs =
  fs_ns :: namespace
  fs_data :: "string \<Rightarrow> byte list option"

definition abs_fs :: "cjson_lib \<Rightarrow> docs \<Rightarrow> afs" where
  "abs_fs J d = \<lparr>fs_ns = abs_ns J d, fs_data = (\<lambda>p. d (block_id p))\<rparr>"

lemma abs_fs_simps [simp]:
  "fs_ns (abs_fs J d) = abs_ns J d" "fs_data (abs_fs J d) p = d (block_id p)"
  by (simp_all add: abs_fs_def)

text \<open>What a call answers: \<open>room\<close> as in \<open>ns_create\<close>.\<close>

definition found :: "string \<Rightarrow> afs \<Rightarrow> int" where
  "found p A = (if ns_mode (fs_ns A) p = None then - ENOENT else 0)"

fun fs_answer :: "bool \<Rightarrow> fs_op \<Rightarrow> afs \<Rightarrow> int" where
  "fs_answer room (Getattr p st) A = found p A"
| "fs_answer room (Open p) A = found p A"
| "fs_answer room (Create p m) A = fst (ns_create room p m (fs_ns A))"
| "fs_answer room (Unlink p) A = fst (ns_unlink p (fs_ns A))"
| "fs_answer room (Readdir p off) A = (if ns_dirs (fs_ns A) p = None then - ENOENT else 0)"
| "fs_answer room (Read p n off) A = (case fs_data A p of
     None \<Rightarrow> - 1 | Some v \<Rightarrow> int (min (unat n) (length v - unat off)))"
| "fs_answer room (Write p b n off) A = (if unat off + length b \<le> 20971520 then int (length b) else - 1)"
| "fs_answer room (Chmod p m) A = fst (ns_chmod p m (fs_ns A))"
| "fs_answer room (Truncate p off) A = (if fs_data A p = None then - ENOENT else 0)"
| "fs_answer room (Utimens p tv) A = found p A"
| "fs_answer room (Mkdir p m) A = fst (ns_mkdir room p m (fs_ns A))"
| "fs_answer room (Rmdir p) A = fst (ns_rmdir p (fs_ns A))"

text \<open>
  What a call makes of the contents. Only a write leaves something open, the bytes between the old
  end of the file and the offset (\<open>filling\<close>).
\<close>

fun data_exec :: "byte list \<Rightarrow> fs_op \<Rightarrow> (string \<Rightarrow> byte list option) \<Rightarrow> string \<Rightarrow> byte list option" where
  "data_exec filling (Write p b n off) F =
     (if unat off + length b \<le> 20971520
      then F(p \<mapsto> file_write (case_option [] id (F p)) (unat off) b filling) else F)"
| "data_exec filling (Truncate p off) F =
     F(p := if off = 0 then None else map_option (take (unat off)) (F p))"
| "data_exec filling (Unlink p) F = F(p := None)"
| "data_exec filling _ F = F"

fun gap :: "fs_op \<Rightarrow> (string \<Rightarrow> byte list option) \<Rightarrow> nat" where
  "gap (Write p b n off) F = unat off - length (case_option [] id (F p))"
| "gap _ F = 0"

definition fs_exec :: "bool \<Rightarrow> byte list \<Rightarrow> fs_op \<Rightarrow> afs \<Rightarrow> afs" where
  "fs_exec room filling c A =
     \<lparr>fs_ns = ns_exec room c (fs_ns A), fs_data = data_exec filling c (fs_data A)\<rparr>"

text \<open>The calls of well-behaved programs (\<open>well_used\<close>), with reads that a file can answer: at an
  offset that is not negative, of less than 2 GiB.\<close>

fun read_in_range :: "fs_op \<Rightarrow> bool" where
  "read_in_range (Read p n off) \<longleftrightarrow> 0 \<le> sint off \<and> unat n < 2 ^ 31"
| "read_in_range _ \<longleftrightarrow> True"

definition file_use :: "docs \<Rightarrow> fs_op \<Rightarrow> bool" where
  "file_use d c \<longleftrightarrow> well_used d c \<and> read_in_range c"

section \<open>The answers\<close>

text \<open>The filler of \<open>fs_step\<close> always has room.\<close>

lemma readdir_loop_no_fill:
  "cjson_ok J \<Longrightarrow>
   readdir_loop J (\<lambda>b n off. (0, b)) offset k 0 (map JString cs) buf = (0, buf)"
  by (induction cs arbitrary: k) (simp_all add: cjson_read)

lemma readdir_answer:
  assumes "server_ok E D C" "cjson_ok (cjson E)" "key_ok p" "readable (cjson E) (D w)"
  shows "fst (result_of (cbfuse_readdir E p buf (\<lambda>b n off. (0, b)) off) w) =
    (if dir_children (cjson E) (D w) p = None then - ENOENT else 0)"
proof (cases "dir_children (cjson E) (D w) p")
  case None
  then have "D w (dentry_id p) = None" using assms(4) by (auto simp: readable_def)
  with None show ?thesis by (simp add: readdir_missing [OF assms(1,3)])
next
  case (Some cs)
  then show ?thesis
  proof (rule dir_childrenE)
    fix t ms
    assume "D w (dentry_id p) = Some t" "cJSON_ParseWithLength (cjson E) t = Some (JObject ms)"
      "map_of ms DENTRY_CHILDREN = Some (JArray (map JString cs))"
    with Some show ?thesis
      by (simp add: cbfuse_readdir_def get_dentry_json_spec [OF assms(1,3)] cjson_read [OF assms(2)]
          Let_def readdir_loop_no_fill [OF assms(2)])
  qed
qed

lemma stat_answers:
  assumes ok: "server_ok E D C" "clock_ok E" "key_ok p" and rd: "readable (cjson E) (D w)"
  defines "r \<equiv> found p (abs_fs (cjson E) (D w))"
  shows "fst (result_of (cbfuse_getattr E p st) w) = r"
    and "result_of (cbfuse_open E p) w = r"
    and "result_of (cbfuse_utimens E p tv) w = r"
proof -
  have short: "\<not> path_too_long p" using ok(3) by (auto simp: key_ok_def)
  show "fst (result_of (cbfuse_getattr E p st) w) = r"
    and "result_of (cbfuse_open E p) w = r"
    and "result_of (cbfuse_utimens E p tv) w = r"
  proof (atomize (full), cases "stat_at (D w) p")
    case None
    then have "D w (stat_id p) = None" using rd by (auto simp: readable_def)
    with None show "fst (result_of (cbfuse_getattr E p st) w) = r \<and>
        result_of (cbfuse_open E p) w = r \<and> result_of (cbfuse_utimens E p tv) w = r"
      using getattr_missing [OF ok(1,3), of w st] update_stat_failed(3) [OF ok(1,3) None, of tv] short
      by (simp add: r_def found_def cbfuse_open_def cbfuse_utimens_def get_stat_spec [OF ok(1,3)])
  next
    case (Some s)
    show "fst (result_of (cbfuse_getattr E p st) w) = r \<and>
        result_of (cbfuse_open E p) w = r \<and> result_of (cbfuse_utimens E p tv) w = r"
      using getattr_found [OF ok(1,3) Some, of st] update_stat_utimens_spec [OF ok Some, of tv] Some short
      by (auto simp: r_def found_def cbfuse_open_def cbfuse_utimens_def get_stat_found [OF ok(1,3) Some])
  qed
qed

section \<open>Writing, reading and truncating\<close>

lemma write_simulated:
  assumes ok: "server_ok E D C" "clock_ok E" "heap_ok E" "key_ok p"
    and use: "stat_at (D w) p \<noteq> None" "b \<noteq> []" "n = of_nat (length b)" "unat off + length b < 2 ^ 64"
  defines "A \<equiv> abs_fs (cjson E) (D w)" and "w' \<equiv> after (cbfuse_write E p b n off) w"
  shows "result_of (cbfuse_write E p b n off) w = Defined (fs_answer room (Write p b n off) A)"
    and "\<exists>filling. length filling = gap (Write p b n off) (fs_data A) \<and>
      fs_data (abs_fs (cjson E) (D w')) = data_exec filling (Write p b n off) (fs_data A)"
proof (atomize (full), cases "unat off + length b \<le> 20971520")
  case False
  then have "result_of (write_data E p b n off) w = Defined (- 1)" "D (after (write_data E p b n off) w) = D w"
    using write_data_refused [OF ok(1,3,4) use(2), of off w] use(3,4) by simp_all
  with False show "result_of (cbfuse_write E p b n off) w = Defined (fs_answer room (Write p b n off) A) \<and>
    (\<exists>filling. length filling = gap (Write p b n off) (fs_data A) \<and>
      fs_data (abs_fs (cjson E) (D w')) = data_exec filling (Write p b n off) (fs_data A))"
    unfolding A_def w'_def cbfuse_write_def by (simp add: abs_fs_def Ex_list_of_length)
next
  case True
  obtain s where "stat_at (D w) p = Some s" using use(1) by blast
  from write_data_spec [OF ok this use(2) True]
  obtain filling and ts :: timespec where "length filling = unat off - length (content (D w) p)"
    "result_of (write_data E p b n off) w = Defined (int (length b))"
    "D (after (write_data E p b n off) w) = (if length (content (D w) p) < unat off + length b
       then (D w)(block_id p \<mapsto> file_write (content (D w) p) (unat off) b filling,
              stat_id p \<mapsto> stat_bytes (s\<lparr>st_mtime := tv_sec ts, st_mtimensec := tv_nsec ts,
                st_size := of_nat (unat off + length b)\<rparr>))
       else (D w)(block_id p \<mapsto> file_write (content (D w) p) (unat off) b filling))"
    unfolding use(3) by blast
  with True show "result_of (cbfuse_write E p b n off) w = Defined (fs_answer room (Write p b n off) A) \<and>
    (\<exists>filling. length filling = gap (Write p b n off) (fs_data A) \<and>
      fs_data (abs_fs (cjson E) (D w')) = data_exec filling (Write p b n off) (fs_data A))"
    unfolding A_def w'_def cbfuse_write_def
    by (intro conjI exI [of _ filling]) (auto simp: fun_eq_iff abs_fs_def content_def)
qed

lemma read_simulated:
  assumes ok: "server_ok E D C" "clock_ok E" "key_ok p" and m: "sizes_match (D w)"
    and use: "0 \<le> sint off" "unat n < 2 ^ 31"
  defines "A \<equiv> abs_fs (cjson E) (D w)"
  shows "result_of (cbfuse_read E p n off) w = Defined (fs_answer room (Read p n off) A,
      take (unat n) (drop (unat off) (content (D w) p)))"
proof (cases "D w (block_id p)")
  case None
  then show ?thesis
    by (simp add: A_def cbfuse_read_def read_data_def get_block_spec [OF ok(1,3)] content_def)
next
  case (Some v)
  then obtain s where "stat_at (D w) p = Some s" using sizes_matchD(2) [OF m, of p] by auto
  from read_data_spec [OF ok this Some use] Some show ?thesis
    by (auto simp: A_def cbfuse_read_def content_def)
qed

lemma truncate_simulated:
  assumes ok: "server_ok E D C" "clock_ok E" "key_ok p"
    and use: "stat_at (D w) p \<noteq> None" "unat off \<le> length (content (D w) p)"
  defines "A \<equiv> abs_fs (cjson E) (D w)" and "w' \<equiv> after (cbfuse_truncate E p off) w"
  shows "result_of (cbfuse_truncate E p off) w = Defined (fs_answer room (Truncate p off) A)"
    and "fs_data (abs_fs (cjson E) (D w')) = data_exec filling (Truncate p off) (fs_data A)"
proof (atomize (full), cases "D w (block_id p)")
  case None
  with use have "off = 0" by (simp add: content_def unat_eq_0)
  with None show "result_of (cbfuse_truncate E p off) w = Defined (fs_answer room (Truncate p off) A) \<and>
      fs_data (abs_fs (cjson E) (D w')) = data_exec filling (Truncate p off) (fs_data A)"
    unfolding A_def w'_def
    by (simp add: cbfuse_truncate_def truncate_data_def remove_data_spec [OF ok(1,3)] fun_eq_iff)
next
  case (Some v)
  obtain s where st: "stat_at (D w) p = Some s" using use(1) by blast
  have "unat off \<le> length (content (D w) p) \<and> (off = 0 \<longrightarrow> D w (block_id p) \<noteq> None)"
    using use(2) Some by simp
  from truncate_data_spec [OF ok st this]
  have "result_of (truncate_data E p off) w = Defined 0 \<and> (\<forall>q. D (after (truncate_data E p off) w) (block_id q) =
      ((D w)(block_id p := if off = 0 then None else Some (take (unat off) v))) (block_id q))"
    using Some by (auto simp: content_def)
  with Some show "result_of (cbfuse_truncate E p off) w = Defined (fs_answer room (Truncate p off) A) \<and>
      fs_data (abs_fs (cjson E) (D w')) = data_exec filling (Truncate p off) (fs_data A)"
    unfolding A_def w'_def by (simp add: cbfuse_truncate_def fun_eq_iff)
qed

section \<open>The simulation\<close>

text \<open>What the calls other than write and truncate make of the contents.\<close>

fun edits :: "fs_op \<Rightarrow> bool" where
  "edits (Write p b n off) = True" | "edits (Truncate p off) = True" | "edits _ = False"

lemma data_simulated:
  assumes ok: "world_ok E D C" and c: "fuse_call c" "\<not> edits c"
  shows "D (after (cb_filesystem_operations E filler buf c) w) (block_id q) =
    data_exec filling c (\<lambda>q. D w (block_id q)) q"
proof -
  note w = world_okD [OF ok]
  have key: "key_ok (op_path c)" and entry: "makes_entry c \<Longrightarrow> fuse_path (op_path c)"
    using c(1) by (auto simp: fuse_call_def)
  show ?thesis
  proof (cases c)
    case (Create p md)
    with entry have "fuse_path p" by simp
    with create_files [OF ok this, of md w] Create show ?thesis
      by (auto simp: file_at_def split: if_splits dest!: spec [where x = q])
  next
    case (Mkdir p md)
    with entry have "fuse_path p" by simp
    with mkdir_files [OF ok this, of md w] Mkdir show ?thesis
      by (auto simp: file_at_def split: if_splits dest!: spec [where x = q])
  next
    case (Unlink p)
    with entry have "fuse_path p" by simp
    with unlink_files [OF ok this, of w q] Unlink show ?thesis
      by (simp add: file_at_def split: if_splits)
  next
    case (Rmdir p)
    with entry have "fuse_path p" by simp
    with rmdir_files [OF ok this, of w q] Rmdir show ?thesis
      by (simp add: file_at_def split: if_splits)
  next
    case (Read p n off)
    show ?thesis
    proof (cases "q = p")
      case False
      with Read key show ?thesis by (simp add: cbfuse_read_def data_ops_frame [OF w(2)])
    next
      case True
      with Read key show ?thesis
        using update_frame [OF w(2), where p = p and x = "block_id p"]
        by (auto simp: cbfuse_read_def read_data_def Let_def get_block_spec(2) [OF w(2)] split: c_result.split)
    qed
  next
    case (Chmod p md)
    with key show ?thesis by (simp add: cbfuse_chmod_def update_frame [OF w(2)])
  next
    case (Utimens p tv)
    with key show ?thesis by (simp add: cbfuse_utimens_def update_frame [OF w(2)])
  qed (use c(2) key in \<open>simp_all add: read_only [OF w(2)]\<close>)
qed

lemma call_simulated:
  fixes E :: "'w env" and w :: 'w
  assumes ok: "world_ok E D C" and use: "file_use (D w) c"
    and rd: "readable (cjson E) (D w)" and m: "sizes_match (D w)"
  defines "room \<equiv> has_room (cjson E) (D w) (op_path c)" and "A \<equiv> abs_fs (cjson E) (D w)"
    and "call \<equiv> cb_filesystem_operations E (\<lambda>b n off. (0, b)) () c"
  shows "result_of call w = Defined (fs_answer room c A)"
    and "\<exists>filling. length filling = gap c (fs_data A) \<and>
      abs_fs (cjson E) (D (after call w)) = fs_exec room filling c A"
proof -
  note w = world_okD [OF ok]
  have c: "fuse_call c" and wu: "well_used_call (D w) c" and rg: "read_in_range c"
    using use by (auto simp: file_use_def well_used_def)
  have key: "key_ok (op_path c)" and entry: "makes_entry c \<Longrightarrow> fuse_path (op_path c)"
    using c by (auto simp: fuse_call_def)
  show "result_of call w = Defined (fs_answer room c A)"
  proof (cases c)
    case (Create p md)
    with entry have "fuse_path p" by simp
    from create_refines(1) [OF w(1,4) this rd, of md] show ?thesis
      using Create by (simp add: call_def room_def A_def run_ns_def prod_eq_iff)
  next
    case (Mkdir p md)
    with entry have p: "fuse_path p" by simp
    from mkdir_refines(1) [OF w(1,4) p w(7) [OF p] rd, of md] show ?thesis
      using Mkdir by (simp add: call_def room_def A_def run_ns_def prod_eq_iff)
  next
    case (Unlink p)
    with entry have "fuse_path p" by simp
    from unlink_refines(1) [OF w(1) this rd] show ?thesis
      using Unlink by (simp add: call_def A_def run_ns_def prod_eq_iff)
  next
    case (Rmdir p)
    with entry have "fuse_path p" by simp
    from rmdir_refines(1) [OF w(1) this rd] show ?thesis
      using Rmdir by (simp add: call_def A_def run_ns_def prod_eq_iff)
  next
    case (Chmod p md)
    with key have "key_ok p" by simp
    from chmod_refines(1) [OF w(2) this rd, of md] show ?thesis
      using Chmod by (simp add: call_def A_def run_ns_def prod_eq_iff)
  next
    case (Write p b n off)
    with wu key have "stat_at (D w) p \<noteq> None" "b \<noteq> []" "n = of_nat (length b)" "unat off + length b < 2 ^ 64"
      "key_ok p" by auto
    from write_simulated(1) [OF w(2,4,5) this(5,1-4)] show ?thesis
      using Write by (simp add: call_def A_def)
  next
    case (Read p n off)
    with rg key have "0 \<le> sint off" "unat n < 2 ^ 31" "key_ok p" by auto
    from read_simulated [OF w(2,4) this(3) m this(1,2)] show ?thesis
      using Read by (simp add: call_def A_def)
  next
    case (Truncate p off)
    with wu key have "stat_at (D w) p \<noteq> None" "unat off \<le> length (content (D w) p)" "key_ok p" by auto
    from truncate_simulated(1) [OF w(2,4) this(3,1,2)] show ?thesis
      using Truncate by (simp add: call_def A_def)
  next
    case (Readdir p off)
    with key readdir_answer [OF w(2,3) _ rd, of p "()" off] show ?thesis
      by (simp add: call_def A_def)
  qed (use key in \<open>simp_all add: call_def A_def stat_answers [OF w(2,4) _ rd]\<close>)
  have "\<exists>filling. length filling = gap c (fs_data A) \<and>
    (\<forall>q. D (after call w) (block_id q) = data_exec filling c (\<lambda>q. D w (block_id q)) q)"
  proof (cases "edits c")
    case False
    from data_simulated [OF ok c this, where filler = "\<lambda>b n off. (0, b)" and buf = "()" and w = w]
    show ?thesis unfolding call_def using Ex_list_of_length by blast
  next
    case True
    then show ?thesis
    proof (cases c rule: edits.cases)
      case (1 p b n off)
      with wu key have "stat_at (D w) p \<noteq> None" "b \<noteq> []" "n = of_nat (length b)" "unat off + length b < 2 ^ 64"
        "key_ok p" by auto
      from write_simulated(2) [OF w(2,4,5) this(5,1-4)] show ?thesis
        using 1 by (simp add: call_def A_def abs_fs_def fun_eq_iff)
    next
      case (2 p off)
      with wu key have "stat_at (D w) p \<noteq> None" "unat off \<le> length (content (D w) p)" "key_ok p" by auto
      from truncate_simulated(2) [OF w(2,4) this(3,1,2)] show ?thesis
        using 2 by (simp add: call_def A_def abs_fs_def fun_eq_iff)
    qed simp_all
  qed
  with call_refines [OF ok c rd, of "\<lambda>b n off. (0, b)" "()"]
  show "\<exists>filling. length filling = gap c (fs_data A) \<and>
      abs_fs (cjson E) (D (after call w)) = fs_exec room filling c A"
    unfolding call_def A_def room_def by (simp add: abs_fs_def fs_exec_def fun_eq_iff)
qed

section \<open>Histories of calls and answers\<close>

lemma mounted_weaken:
  assumes "mounted E D allowed w" "\<And>d c. allowed d c \<Longrightarrow> allowed' d c"
  shows "mounted E D allowed' w"
  using assms(1)
proof (induction rule: mounted.induct)
  case (boot w st)
  then show ?case by (rule mounted.boot)
next
  case (run w c r w')
  from run(2) have "fs_step E D allowed' w c r w'"
    by (auto simp: fs_step_simps assms(2))
  with run.IH show ?case by (rule mounted.run)
qed

lemma file_use_mounted:
  assumes ok: "world_ok E D C" and m: "mounted E D file_use w"
  shows "readable (cjson E) (D w)" and "sizes_match (D w)"
proof -
  have "mounted E D well_used w"
    using m by (rule mounted_weaken) (simp add: file_use_def)
  then show "sizes_match (D w)" by (rule mounted_sizes [OF ok])
  show "readable (cjson E) (D w)"
    using mounted_sound [OF ok _ m] by (simp add: file_use_def well_used_def)
qed

text \<open>
  \<open>fs_run\<close>: FUSE makes the calls of a list one after the other and gets these answers.
  \<open>afs_run\<close>: the same of the abstract file system, for some outcome of what it leaves open.
\<close>

inductive fs_run ::
  "'w env \<Rightarrow> ('w \<Rightarrow> docs) \<Rightarrow> (docs \<Rightarrow> fs_op \<Rightarrow> bool) \<Rightarrow> 'w \<Rightarrow> (fs_op \<times> int) list \<Rightarrow> 'w \<Rightarrow> bool"
  for E :: "'w env" and D :: "'w \<Rightarrow> docs" and allowed :: "docs \<Rightarrow> fs_op \<Rightarrow> bool" where
  start: "fs_run E D allowed w [] w"
| step: "fs_step E D allowed w c r w' \<Longrightarrow> fs_run E D allowed w' h w'' \<Longrightarrow>
    fs_run E D allowed w ((c, r) # h) w''"

inductive afs_run :: "afs \<Rightarrow> (fs_op \<times> int) list \<Rightarrow> afs \<Rightarrow> bool" where
  start: "afs_run A [] A"
| step: "length filling = gap c (fs_data A) \<Longrightarrow> afs_run (fs_exec room filling c A) h B \<Longrightarrow>
    afs_run A ((c, fs_answer room c A) # h) B"

inductive_cases fs_run_NilE [elim!]: "fs_run E D allowed w [] w'"
inductive_cases fs_run_ConsE [elim!]: "fs_run E D allowed w (x # h) w'"
inductive_cases afs_run_NilE [elim!]: "afs_run A [] B"
inductive_cases afs_run_ConsE [elim!]: "afs_run A (x # h) B"

lemma mounted_run:
  assumes "mounted E D allowed w" "fs_run E D allowed w h w'"
  shows "mounted E D allowed w'"
  using assms(2,1) by (induction rule: fs_run.induct) (auto intro: mounted.run)

lemma step_simulated:
  assumes ok: "world_ok E D C" and m: "mounted E D file_use w" and st: "fs_step E D file_use w c r w'"
  defines "room \<equiv> has_room (cjson E) (D w) (op_path c)" and "A \<equiv> abs_fs (cjson E) (D w)"
  shows "r = fs_answer room c A \<and>
    (\<exists>filling. length filling = gap c (fs_data A) \<and> abs_fs (cjson E) (D w') = fs_exec room filling c A)"
proof -
  let ?call = "cb_filesystem_operations E (\<lambda>b n off. (0, b)) () c"
  have w': "w' = after ?call w" and use: "file_use (D w) c" and r: "result_of ?call w = Defined r"
    using st by (simp_all add: fs_step_simps)
  show ?thesis
    using call_simulated [OF ok use file_use_mounted [OF ok m]] r
    unfolding w' room_def A_def by (metis c_result.inject)
qed

lemma run_simulated:
  assumes ok: "world_ok E D C"
  shows "fs_run E D file_use w h w' \<Longrightarrow> mounted E D file_use w \<Longrightarrow>
    afs_run (abs_fs (cjson E) (D w)) h (abs_fs (cjson E) (D w'))"
proof (induction rule: fs_run.induct)
  case (start w)
  show ?case by (rule afs_run.start)
next
  case (step w c r w' h w'')
  let ?room = "has_room (cjson E) (D w) (op_path c)" and ?A = "abs_fs (cjson E) (D w)"
  obtain filling where s: "r = fs_answer ?room c ?A" "length filling = gap c (fs_data ?A)"
    "abs_fs (cjson E) (D w') = fs_exec ?room filling c ?A"
    using step_simulated [OF ok step(4,1)] by blast
  have "mounted E D file_use w'" using step(4,1) by (rule mounted.run)
  from step.IH [OF this] show ?case
    unfolding s(1,3) by (rule afs_run.step [OF s(2)])
qed

section \<open>What was written stays\<close>

text \<open>The calls that change the contents of a path.\<close>

fun edits_path :: "string \<Rightarrow> fs_op \<Rightarrow> bool" where
  "edits_path p (Write q b n off) \<longleftrightarrow> q = p"
| "edits_path p (Truncate q off) \<longleftrightarrow> q = p"
| "edits_path p (Unlink q) \<longleftrightarrow> q = p"
| "edits_path p _ \<longleftrightarrow> False"

lemma data_exec_other: "\<not> edits_path p c \<Longrightarrow> data_exec filling c F p = F p"
  by (cases c) auto

lemma afs_run_keeps:
  "afs_run A h B \<Longrightarrow> \<forall>(c, r) \<in> set h. \<not> edits_path p c \<Longrightarrow> fs_data B p = fs_data A p"
  by (induction rule: afs_run.induct) (auto simp: fs_exec_def data_exec_other)

lemma written_stays:
  fixes E :: "'w env"
  assumes ok: "world_ok E D C" and m: "mounted E D file_use w"
    and wr: "fs_step E D file_use w (Write p b n off) r w1" and fit: "unat off + length b \<le> 20971520"
    and run: "fs_run E D file_use w1 h w2" and keep: "\<forall>(c, r) \<in> set h. \<not> edits_path p c"
  shows "r = int (length b) \<and> result_of (cbfuse_read E p n off) w2 = Defined (int (length b), b)"
proof -
  note w = world_okD [OF ok]
  have use: "file_use (D w) (Write p b n off)" using wr by (auto simp: fs_step_simps)
  then have p: "key_ok p" "b \<noteq> []" and n: "n = of_nat (length b)"
    by (auto simp: file_use_def well_used_def fuse_call_def)
  let ?c = "case_option [] id (D w (block_id p))"
  obtain filling where a: "r = int (length b)" "length filling = unat off - length ?c"
    "D w1 (block_id p) = Some (file_write ?c (unat off) b filling)"
    using step_simulated [OF ok m wr] fit by (auto simp: abs_fs_def fs_exec_def dest: fun_cong [of _ _ p])
  have m1: "mounted E D file_use w1" using m wr by (rule mounted.run)
  have v: "content (D w2) p = file_write ?c (unat off) b filling"
    using afs_run_keeps [OF run_simulated [OF ok run m1] keep] a(3) by (simp add: content_def)
  have lb: "unat n = length b" using fit unfolding n by (intro unat_of_nat_size) simp
  have off: "0 \<le> sint off" using fit by (simp add: sint_eq_unat)
  have "D w2 (block_id p) \<noteq> None"
    using afs_run_keeps [OF run_simulated [OF ok run m1] keep] a(3) by simp
  with read_simulated [OF w(2,4) p(1) file_use_mounted(2) [OF ok mounted_run [OF m1 run]] off]
  have "result_of (cbfuse_read E p n off) w2 = Defined
      (int (min (unat n) (length (content (D w2) p) - unat off)), take (unat n) (drop (unat off) (content (D w2) p)))"
    using lb fit by (auto simp: content_def)
  with a(1) show ?thesis
    unfolding v lb using take_drop_file_write [OF a(2), of b] length_file_write [OF a(2), of b] by simp
qed

end
