(* ===== verification/Startup.thy ===== *)
theory Startup
  imports FileSystem "HOL-Library.Sublist"
begin

text \<open>
  The rest of \<open>cbfuse.c\<close>: the connection settings of \<open>cbfuse_init\<close>, the options of the command
  line, the usage text, and \<open>main\<close>. libfuse, the process identity, the calls that open the bucket
  and the version numbers of the generated \<open>cbfuse.h\<close> are parameters, the record \<open>launcher\<close>. A call of \<open>exit\<close> ends the process with the number that
  \<open>main\<close> would return, so the model returns it. Passing NULL to \<open>strlen\<close> is \<open>Undefined\<close>.
\<close>

section \<open>Connection settings\<close>

record fuse_conn_info =
  fc_max_readahead :: "32 word"
  fc_max_write :: "32 word"
  fc_want :: "32 word"
  fc_async_read :: "32 word"

abbreviation "FUSE_CAP_BIG_WRITES \<equiv> (0x20 :: 32 word)"

definition cbfuse_init :: "fuse_conn_info \<Rightarrow> fuse_conn_info" where
  "cbfuse_init conn = conn\<lparr>fc_max_readahead := ucast MAX_DOC_LEN, fc_max_write := ucast MAX_DOC_LEN,
     fc_want := fc_want conn OR FUSE_CAP_BIG_WRITES, fc_async_read := 0\<rparr>"

section \<open>Options\<close>

record cbfuse_config =
  cb_connect :: "string option"
  cb_username :: "string option"
  cb_password :: "string option"

definition no_config :: cbfuse_config where
  "no_config = \<lparr>cb_connect = None, cb_username = None, cb_password = None\<rparr>"

datatype config_field = CbConnect | CbUsername | CbPassword
datatype opt_key = KEY_HELP | KEY_VERSION | KEY_OTHER int

datatype cbfuse_opt = CBFUSE_OPT string config_field | FUSE_OPT_KEY string opt_key

definition cbfuse_opts :: "cbfuse_opt list" where
  "cbfuse_opts =
     [CBFUSE_OPT ''cb_connect=%s'' CbConnect, CBFUSE_OPT ''--cb_connect=%s'' CbConnect,
      CBFUSE_OPT ''cb_username=%s'' CbUsername, CBFUSE_OPT ''--cb_username=%s'' CbUsername,
      CBFUSE_OPT ''cb_password=%s'' CbPassword, CBFUSE_OPT ''--cb_password=%s'' CbPassword,
      FUSE_OPT_KEY ''-V'' KEY_VERSION, FUSE_OPT_KEY ''--version'' KEY_VERSION,
      FUSE_OPT_KEY ''-h'' KEY_HELP, FUSE_OPT_KEY ''--help'' KEY_HELP]"

text \<open>
  What an option handler does: the process exits, or the argument is kept (1); \<open>ProcUndefined\<close> is
  a NULL for \<open>%s\<close>. \<open>fuse_opt_parse\<close> ends with the process, undefined, or with its result.
\<close>

datatype opt_outcome = ProcExit int | ProcReturn int | ProcUndefined
datatype parse_outcome = ParseExit int | ParseUndefined | Parsed int "string list" cbfuse_config

record 'w launcher =
  getuid :: "('w, 32 word) state"
  geteuid :: "('w, 32 word) state"
  fuse_opt_parse :: "string list \<Rightarrow> cbfuse_config \<Rightarrow> cbfuse_opt list \<Rightarrow>
    (opt_key \<Rightarrow> string list \<Rightarrow> ('w, opt_outcome) state) \<Rightarrow> ('w, parse_outcome) state"
  fuse_opt_add_arg :: "string list \<Rightarrow> string \<Rightarrow> ('w, int \<times> string list) state"
  fuse_main :: "string list \<Rightarrow> ('w, int) state"
  lcb_create :: "string \<Rightarrow> (string \<times> string) option \<Rightarrow> ('w, lcb_status \<times> bool) state"
    \<comment> \<open>connection string and credentials; whether there is an instance\<close>
  lcb_connect :: "('w, lcb_status) state"
  lcb_get_bootstrap_status :: "('w, lcb_status) state"
  lcb_open :: "string \<Rightarrow> ('w, lcb_status) state"
  lcb_destroy :: "('w, unit) state"
  stderr_write :: "string \<Rightarrow> ('w, unit) state"
  cbfuse_version :: "nat \<times> nat \<times> nat"
    \<comment> \<open>\<open>cbfuse_VERSION_MAJOR\<close>, \<open>_MINOR\<close>, \<open>_PATCH\<close>\<close>

text \<open>The text of \<open>usage\<close>, line by line, for the program's name.\<close>

abbreviation newline :: char where "newline \<equiv> CHR 0x0A"

definition usage_lines :: "string \<Rightarrow> string list" where
  "usage_lines name =
     [''usage: '' @ name @ '' mountpoint [options]'',
      '''',
      ''general options:'',
      ''  -o opt,[opt...]  mount options'',
      ''  -h   --help      print help'',
      ''  -V   --version   print version'',
      '''',
      ''couchbase connection options:'',
      ''  -o cb_connect=COUCHBASE_CONNECT_STRING'',
      ''  -o cb_username=COUCHBASE_SASL_USERNAME'',
      ''  -o cb_password=COUCHBASE_SASL_PASSWORD'',
      ''  --cb_connect=COUCHBASE_CONNECT_STRING'',
      ''  --cb_username=COUCHBASE_SASL_USERNAME'',
      ''  --cb_password=COUCHBASE_SASL_PASSWORD'',
      '''',
      ''example:'',
      ''  '' @ name @ '' ~/mountdir --cb_connect=couchbase://127.0.0.1/cbfuse --cb_username=rcardillo --cb_password=rcardillo'']"

definition usage :: "string \<Rightarrow> string" where
  "usage name = concat (map (\<lambda>l. l @ [newline]) (usage_lines name))"

text \<open>\<open>%d\<close> of a number that is not negative.\<close>

fun decimal :: "nat \<Rightarrow> string" where
  "decimal n = (if n < 10 then [] else decimal (n div 10)) @ [char_of (48 + n mod 10)]"

declare decimal.simps [simp del]

fun version_line :: "string \<Rightarrow> nat \<times> nat \<times> nat \<Rightarrow> string" where
  "version_line name (major, minor, patch) =
     name @ '' version: '' @ decimal major @ ''.'' @ decimal minor @ ''.'' @ decimal patch @ [newline]"

text \<open>\<open>basename(argv[0])\<close>; for a NULL pointer it is that of the empty string.\<close>

definition prog_name :: "string list \<Rightarrow> string option" where
  "prog_name argv = basename (case argv of [] \<Rightarrow> [] | a # _ \<Rightarrow> a)"

definition cbfuse_opt_proc :: "'w launcher \<Rightarrow> opt_key \<Rightarrow> string list \<Rightarrow> ('w, opt_outcome) state" where
  "cbfuse_opt_proc L key outargs =
     (case key of
        KEY_HELP \<Rightarrow>
          (case prog_name outargs of
             None \<Rightarrow> State_Monad.return ProcUndefined
           | Some name \<Rightarrow> do {
               _ \<leftarrow> stderr_write L (usage name);
               State_Monad.return (ProcExit EXIT_FAILURE) })
      | KEY_VERSION \<Rightarrow>
          (case prog_name outargs of
             None \<Rightarrow> State_Monad.return ProcUndefined
           | Some name \<Rightarrow> do {
               _ \<leftarrow> stderr_write L (version_line name (cbfuse_version L));
               (_, outargs) \<leftarrow> fuse_opt_add_arg L outargs ''--version'';
               _ \<leftarrow> fuse_main L outargs;
               State_Monad.return (ProcExit 0) })
      | KEY_OTHER _ \<Rightarrow> State_Monad.return (ProcReturn 1))"

section \<open>main\<close>

text \<open>
  The credentials are set when either of the two is given; the code then takes the length of
  both.
\<close>

definition credentials :: "cbfuse_config \<Rightarrow> (string \<times> string) option c_result" where
  "credentials config =
     (case (cb_username config, cb_password config) of
        (None, None) \<Rightarrow> Defined None
      | (Some u, Some p) \<Rightarrow> Defined (Some (u, p))
      | _ \<Rightarrow> Undefined)"

text \<open>Connect, wait, check the bootstrap, open the bucket, check the root; then mount.\<close>

definition connect_bucket :: "'w env \<Rightarrow> 'w launcher \<Rightarrow> ('w, int) state" where
  "connect_bucket E L = do {
     rc \<leftarrow> lcb_connect L;
     if rc \<noteq> LCB_SUCCESS then State_Monad.return EXIT_FAILURE
     else do {
       (rc, _) \<leftarrow> lcb_wait E;
       if rc \<noteq> LCB_SUCCESS then State_Monad.return EXIT_FAILURE
       else do {
         rc \<leftarrow> lcb_get_bootstrap_status L;
         if rc \<noteq> LCB_SUCCESS then State_Monad.return EXIT_FAILURE
         else do {
           rc \<leftarrow> lcb_open L ''cbfuse'';
           if rc \<noteq> LCB_SUCCESS then State_Monad.return EXIT_FAILURE
           else do {
             (rc, _) \<leftarrow> lcb_wait E;
             State_Monad.return (if rc \<noteq> LCB_SUCCESS then EXIT_FAILURE else 0) } } } } }"

definition run_filesystem ::
  "'w env \<Rightarrow> 'w launcher \<Rightarrow> string list \<Rightarrow> file_attr \<Rightarrow> ('w, int) state" where
  "run_filesystem E L args root_stat = do {
     fresult \<leftarrow> connect_bucket E L;
     if fresult \<noteq> 0 then State_Monad.return fresult
     else do {
       fresult \<leftarrow> verify_root E root_stat;
       if fresult \<noteq> 0 then State_Monad.return fresult
       else fuse_main L args } }"

definition open_instance ::
  "'w env \<Rightarrow> 'w launcher \<Rightarrow> string list \<Rightarrow> cbfuse_config \<Rightarrow> string \<Rightarrow> file_attr
   \<Rightarrow> ('w, int c_result) state" where
  "open_instance E L args config connstr root_stat =
     (case credentials config of
        Undefined \<Rightarrow> State_Monad.return Undefined
      | Defined creds \<Rightarrow> do {
          (rc, inst) \<leftarrow> lcb_create L connstr creds;
          fresult \<leftarrow> (if rc \<noteq> LCB_SUCCESS \<or> \<not> inst then State_Monad.return EXIT_FAILURE
                     else run_filesystem E L args root_stat);
          _ \<leftarrow> (if inst then lcb_destroy L else State_Monad.return ());
          State_Monad.return (Defined fresult) })"

definition add_fuse_args :: "'w launcher \<Rightarrow> string list \<Rightarrow> ('w, int \<times> string list) state" where
  "add_fuse_args L args = do {
     (fresult, args) \<leftarrow> fuse_opt_add_arg L args ''-s'';
     if fresult \<noteq> 0 then State_Monad.return (fresult, args)
     else fuse_opt_add_arg L args ''-f'' }"

text \<open>Without a connection string of five bytes or more the usage text is printed.\<close>

definition no_connection_string :: "'w launcher \<Rightarrow> string list \<Rightarrow> ('w, int c_result) state" where
  "no_connection_string L argv = do {
     _ \<leftarrow> stderr_write L (''Couchbase connection string must be provided.'' @ [newline, newline]);
     case prog_name argv of
       None \<Rightarrow> State_Monad.return Undefined
     | Some name \<Rightarrow> do {
         _ \<leftarrow> stderr_write L (usage name);
         State_Monad.return (Defined EXIT_FAILURE) } }"

definition main :: "'w env \<Rightarrow> 'w launcher \<Rightarrow> string list \<Rightarrow> file_attr \<Rightarrow> ('w, int c_result) state" where
  "main E L argv root_stat = do {
     uid \<leftarrow> getuid L;
     as_root \<leftarrow> (if uid = 0 then State_Monad.return True
                else do { euid \<leftarrow> geteuid L; State_Monad.return (euid = 0) });
     if as_root then do {
       _ \<leftarrow> stderr_write L
         (''Running as root is not allowed because it may open security holes.'' @ [newline]);
       State_Monad.return (Defined 1) }
     else do {
       parsed \<leftarrow> fuse_opt_parse L argv no_config cbfuse_opts (cbfuse_opt_proc L);
       case parsed of
         ParseExit n \<Rightarrow> State_Monad.return (Defined n)
       | ParseUndefined \<Rightarrow> State_Monad.return Undefined
       | Parsed fresult args config \<Rightarrow>
           if fresult \<noteq> 0 then State_Monad.return (Defined fresult)
           else do {
             (fresult, args) \<leftarrow> add_fuse_args L args;
             if fresult \<noteq> 0 then State_Monad.return (Defined fresult)
             else case cb_connect config of
                 None \<Rightarrow> no_connection_string L argv
               | Some connstr \<Rightarrow>
                   if length connstr < 5 then no_connection_string L argv
                   else open_instance E L args config connstr root_stat } } }"

section \<open>A start that goes well\<close>

text \<open>
  The user is not root, the options parse to a connection string and both credentials or none,
  libfuse appends the arguments it is given, the cluster and the bucket can be reached, and none
  of this changes a document.
\<close>

definition launcher_ok ::
  "'w env \<Rightarrow> ('w \<Rightarrow> docs) \<Rightarrow> 'w launcher \<Rightarrow> string list \<Rightarrow> string list \<Rightarrow> cbfuse_config \<Rightarrow> bool" where
  "launcher_ok E D L argv args config \<longleftrightarrow>
     (\<forall>w. result_of (getuid L) w \<noteq> 0 \<and> D (after (getuid L) w) = D w) \<and>
     (\<forall>w. result_of (geteuid L) w \<noteq> 0 \<and> D (after (geteuid L) w) = D w) \<and>
     (\<forall>w f. result_of (fuse_opt_parse L argv no_config cbfuse_opts f) w = Parsed 0 args config \<and>
        D (after (fuse_opt_parse L argv no_config cbfuse_opts f) w) = D w) \<and>
     (\<forall>w a x. result_of (fuse_opt_add_arg L a x) w = (0, a @ [x]) \<and>
        D (after (fuse_opt_add_arg L a x) w) = D w) \<and>
     (\<forall>w c u. result_of (lcb_create L c u) w = (LCB_SUCCESS, True) \<and>
        D (after (lcb_create L c u) w) = D w) \<and>
     (\<forall>w. result_of (lcb_connect L) w = LCB_SUCCESS \<and> D (after (lcb_connect L) w) = D w \<and>
        fst (result_of (lcb_wait E) (after (lcb_connect L) w)) = LCB_SUCCESS \<and>
        D (after (lcb_wait E) (after (lcb_connect L) w)) = D w) \<and>
     (\<forall>w. result_of (lcb_get_bootstrap_status L) w = LCB_SUCCESS \<and>
        D (after (lcb_get_bootstrap_status L) w) = D w) \<and>
     (\<forall>w b. result_of (lcb_open L b) w = LCB_SUCCESS \<and> D (after (lcb_open L b) w) = D w \<and>
        fst (result_of (lcb_wait E) (after (lcb_open L b) w)) = LCB_SUCCESS \<and>
        D (after (lcb_wait E) (after (lcb_open L b) w)) = D w) \<and>
     (\<exists>c. cb_connect config = Some c \<and> 5 \<le> length c) \<and>
     (cb_username config = None \<longleftrightarrow> cb_password config = None)"

lemma launcher_okD:
  assumes "launcher_ok E D L argv args config"
  shows "result_of (getuid L) w \<noteq> 0" "D (after (getuid L) w) = D w"
    "result_of (geteuid L) w \<noteq> 0" "D (after (geteuid L) w) = D w"
    "result_of (fuse_opt_parse L argv no_config cbfuse_opts f) w = Parsed 0 args config"
    "D (after (fuse_opt_parse L argv no_config cbfuse_opts f) w) = D w"
    "result_of (fuse_opt_add_arg L a x) w = (0, a @ [x])"
    "D (after (fuse_opt_add_arg L a x) w) = D w"
    "result_of (lcb_create L c u) w = (LCB_SUCCESS, True)" "D (after (lcb_create L c u) w) = D w"
    "result_of (lcb_connect L) w = LCB_SUCCESS"
    "fst (result_of (lcb_wait E) (after (lcb_connect L) w)) = LCB_SUCCESS"
    "D (after (lcb_wait E) (after (lcb_connect L) w)) = D w"
    "result_of (lcb_get_bootstrap_status L) w = LCB_SUCCESS"
    "D (after (lcb_get_bootstrap_status L) w) = D w"
    "result_of (lcb_open L b) w = LCB_SUCCESS"
    "fst (result_of (lcb_wait E) (after (lcb_open L b) w)) = LCB_SUCCESS"
    "D (after (lcb_wait E) (after (lcb_open L b) w)) = D w"
  using assms unfolding launcher_ok_def by blast+

lemma connect_bucket_ok:
  assumes "launcher_ok E D L argv args config"
  shows "result_of (connect_bucket E L) w = 0" "D (after (connect_bucket E L) w) = D w"
  by (simp_all add: connect_bucket_def launcher_okD [OF assms])

lemma credentials_ok:
  "(cb_username config = None \<longleftrightarrow> cb_password config = None) \<Longrightarrow> \<exists>c. credentials config = Defined c"
  by (auto simp: credentials_def split: option.splits)

text \<open>\<open>main\<close> on an empty bucket hands over to FUSE, single-threaded and in the foreground, with
  the root directory installed; its result is that of \<open>fuse_main\<close>.\<close>

lemma main_mounts:
  assumes ok: "world_ok E D C" "launcher_ok E D L argv args config" and empty: "D w = (\<lambda>_. None)"
  shows "\<exists>w'. result_of (main E L argv st) w = Defined (result_of (fuse_main L (args @ [''-s'', ''-f''])) w') \<and>
    abs_ns (cjson E) (D w') = root_ns \<and> readable (cjson E) (D w')"
proof -
  note l = launcher_okD [OF ok(2)]
  obtain c where c: "cb_connect config = Some c" "\<not> length c < 5"
    using ok(2) unfolding launcher_ok_def by (meson not_less)
  have "cb_username config = None \<longleftrightarrow> cb_password config = None"
    using ok(2) unfolding launcher_ok_def by blast
  from credentials_ok [OF this] obtain cr where cr: "credentials config = Defined cr" by blast
  define w1 where "w1 = after (geteuid L) (after (getuid L) w)"
  define w2 where "w2 = after (fuse_opt_parse L argv no_config cbfuse_opts (cbfuse_opt_proc L)) w1"
  define w3 where "w3 = after (fuse_opt_add_arg L (args @ [''-s'']) ''-f'')
    (after (fuse_opt_add_arg L args ''-s'') w2)"
  define w4 where "w4 = after (connect_bucket E L) (after (lcb_create L c cr) w3)"
  have d: "D w4 = (\<lambda>_. None)"
    using empty by (simp add: w1_def w2_def w3_def w4_def l connect_bucket_ok [OF ok(2)])
  have "result_of (main E L argv st) w =
      Defined (result_of (fuse_main L (args @ [''-s'', ''-f''])) (after (verify_root E st) w4))"
    using verify_root_empty(1) [OF ok(1) d, of st]
    by (simp add: main_def l c cr add_fuse_args_def open_instance_def run_filesystem_def
        connect_bucket_ok [OF ok(2)] w1_def w2_def w3_def w4_def)
  with boot_ns(1,2) [OF ok(1) d, of st] show ?thesis by blast
qed

section \<open>The options and the usage text\<close>

text \<open>The way the user types an option: its template without the place of the value.\<close>

fun opt_text :: "cbfuse_opt \<Rightarrow> string" where
  "opt_text (CBFUSE_OPT t f) = take (length t - 2) t"
| "opt_text (FUSE_OPT_KEY t k) = t"

lemma sublist_lines:
  assumes "l \<in> set ls" "sublist x l"
  shows "sublist x (concat (map (\<lambda>l. l @ [newline]) ls))"
proof -
  let ?text = "\<lambda>ls. concat (map (\<lambda>l. l @ [newline]) ls)"
  obtain as bs where ls: "ls = as @ l # bs" using split_list [OF assms(1)] by blast
  obtain ps ss where "l = ps @ x @ ss" using assms(2) by (auto simp: sublist_def)
  with ls have "?text ls = (?text as @ ps) @ x @ (ss @ [newline] @ ?text bs)" by simp
  then show ?thesis unfolding sublist_def by blast
qed

text \<open>Every option the program accepts is in its usage text.\<close>

lemma usage_names_options:
  assumes "opt \<in> set cbfuse_opts"
  shows "sublist (opt_text opt) (usage name)"
proof -
  have "list_all2 (\<lambda>opt k. k < 17 \<and> sublist (opt_text opt) (usage_lines name ! k)) cbfuse_opts
      [8, 11, 9, 12, 10, 13, 5, 5, 4, 4]"
    by (simp add: cbfuse_opts_def usage_lines_def sublist_Cons_right)
  then obtain k where "k < 17" "sublist (opt_text opt) (usage_lines name ! k)"
    using assms by (metis (no_types, lifting) in_set_conv_nth list_all2_conv_all_nth)
  moreover have "length (usage_lines name) = 17" by (simp add: usage_lines_def)
  ultimately show ?thesis
    unfolding usage_def by (intro sublist_lines [OF nth_mem]) simp_all
qed

end
