(* ===== verification/Sharing.thy ===== *)
theory Sharing
  imports Dentries
begin

text \<open>
  Directories in a bucket that other clients use at the same time (\<open>kv_ok\<close> without \<open>quiet\<close>): between
  the look-up of a listing and its replacement they may change it, and the replacement carries no
  CAS value.
\<close>

text \<open>The calls that prepare the look-up and the replacement.\<close>

definition relist_calls :: "string \<Rightarrow> byte list \<Rightarrow> lcb_call list" where
  "relist_calls p t = [CmdCreate LCB_STORE_REPLACE, CmdCollection DEFAULT_SCOPE_STRING DENTRIES_COLLECTION_STRING,
     CmdKey p, CmdValue t]"

definition relook_calls :: "string \<Rightarrow> lcb_call list" where
  "relook_calls p = [CmdCreate LCB_GET, CmdCollection DEFAULT_SCOPE_STRING DENTRIES_COLLECTION_STRING, CmdKey p]"

text \<open>The two requests act on the documents there are when they are sent.\<close>

lemma kv_get_dentry_json:
  assumes "kv_ok E D C" "key_ok p"
    and "D (after (lcb_prepare E (relook_calls p) new_request) w) (dentry_id p) = Some t"
  shows "result_of (get_dentry_json E p) w = (0, cJSON_ParseWithLength (cjson E) t)"
proof -
  let ?r = "fold apply_call (relook_calls p) new_request"
  have r: "addressable ?r" "is_get ?r" "rq_doc ?r = dentry_id p"
    using assms(2) by (simp_all add: relook_calls_def request_simps key_ok_def)
  show ?thesis
    using kv.get_found [OF assms(1) r(1,2)] r(3) assms(3) prepare_result [OF assms(1)]
    by (simp add: get_dentry_json_def relook_calls_def [symmetric])
qed

lemma kv_replace_dentry:
  assumes "kv_ok E D C" "key_ok p" "cJSON_PrintUnformatted (cjson E) j = Some t" "fits t"
    and "D (after (lcb_prepare E (relist_calls p t) new_request) w) (dentry_id p) \<noteq> None"
  shows "result_of (replace_dentry E p j) w = 0" "D (after (replace_dentry E p j) w) (dentry_id p) = Some t"
proof -
  let ?r = "fold apply_call (relist_calls p t) new_request"
  have r: "addressable ?r" "is_store ?r" "rq_doc ?r = dentry_id p" "rq_op ?r = LCB_STORE_REPLACE" "rq_cas ?r = 0"
      "rq_value ?r = t"
    using assms(2) by (simp_all add: relist_calls_def request_simps key_ok_def)
  show "result_of (replace_dentry E p j) w = 0" "D (after (replace_dentry E p j) w) (dentry_id p) = Some t"
    using kv.store_answer [OF assms(1) r(1,2)] kv.store_docs [OF assms(1) r(1,2)] r(3-6) assms(3-5)
      prepare_result [OF assms(1)]
    by (simp_all add: replace_dentry_def relist_calls_def [symmetric] stored_def kv_simps)
qed

text \<open>The new listing is made of the one that was looked up, whatever the directory holds now.\<close>

lemma last_lister_wins:
  assumes "kv_ok E D C" "cjson_ok (cjson E)" "key_ok p" "text_ok c"
    and "dir_children (cjson E) (D (after (lcb_prepare E (relook_calls p) new_request) w)) p = Some cs"
    and "dentry_room (cjson E) (D (after (lcb_prepare E (relook_calls p) new_request) w)) p (cs @ [c])"
    and "\<And>t. D (after (lcb_prepare E (relist_calls p t) new_request) (after (get_dentry_json E p) w)) (dentry_id p) \<noteq> None"
  shows "result_of (add_child_to_dentry E p c) w = 0"
    and "dir_children (cjson E) (D (after (add_child_to_dentry E p c) w)) p = Some (cs @ [c])"
proof -
  let ?d = "D (after (lcb_prepare E (relook_calls p) new_request) w)"
  obtain t ms where dir: "?d (dentry_id p) = Some t" "cJSON_ParseWithLength (cjson E) t = Some (JObject ms)"
    "cJSON_PrintUnformatted (cjson E) (JObject ms) = Some t" "json_text_ok (JObject ms)"
    "map_of ms DENTRY_CHILDREN = Some (JArray (map JString cs))"
    using assms(5) by (rule dir_childrenE)
  let ?j = "JObject (put_member DENTRY_CHILDREN (JArray (map JString (cs @ [c]))) ms)"
  have names: "\<forall>x \<in> set (cs @ [c]). text_ok x"
    using dir_children_text_ok [OF assms(5)] assms(4) by auto
  then have "json_text_ok ?j"
    by (intro json_text_ok_put_member [OF dir(4)]) auto
  then obtain t' where t': "cJSON_PrintUnformatted (cjson E) ?j = Some t'"
    by (rule cjson_print_parse [OF assms(2)])
  have "fits t'"
    using assms(6) dir t' by (simp add: dentry_room_def dentry_tree_def)
  note put = kv_replace_dentry [OF assms(1,3) t' this assms(7)]
  note simps = add_child_to_dentry_def kv_get_dentry_json [OF assms(1,3) dir(1)] dir
    cjson_build [OF assms(2)] cjson_read [OF assms(2)]
  show "result_of (add_child_to_dentry E p c) w = 0"
    using put(1) by (simp add: simps)
  have "D (after (add_child_to_dentry E p c) w) (dentry_id p) = Some t'"
    using put(2) by (simp add: simps)
  then show "dir_children (cjson E) (D (after (add_child_to_dentry E p c) w)) p = Some (cs @ [c])"
    using dir(4,5) names t' by (intro replaced_children [OF assms(2), where ms = ms and t = t']) auto
qed

end
