(* ===== verification/Example.thy ===== *)
theory Example
  imports Files Startup Sharing
begin

text \<open>
  A concrete history in the bucket in memory of \<open>RefEnv\<close>: the bootstrap, then the file \<open>/a\<close> is
  created. The witnesses of the theorems are evaluated in these states. Nothing here is a model
  of the program.
\<close>

section \<open>The bucket in memory behaves\<close>

lemma length_put_string [simp]: "length (put_string s) = 2 * length s + 1"
  by (induction s) auto

lemma mem_new_dentry_fits:
  assumes "text_ok p" "text_ok (case_option [] id q)" "length p \<le> 250"
    "length (case_option [] id q) \<le> 250"
  shows "new_dentry_fits mem_env (p, q)"
  using assms
  by (cases q) (simp_all add: new_dentry_fits_def ref_cjson_def fits_def new_dentry_def
      DENTRY_DIR_PATH_def DENTRY_PAR_PATH_def DENTRY_CHILDREN_def)

lemma mem_world_ok [simp]: "world_ok mem_env mem_view mem_cas"
proof -
  have "new_dir_fits mem_env p" if "fuse_path p" for p
    using fuse_path_parts [OF that] unfolding new_dir_fits_def
    by (intro mem_new_dentry_fits) (auto simp: key_ok_def)
  moreover have "new_dentry_fits mem_env (ROOT_DIR_STRING, None)"
    by (rule mem_new_dentry_fits) (simp_all add: text_ok_def ROOT_DIR_STRING_def)
  ultimately show ?thesis by (simp add: world_ok_def json_server_def)
qed

section \<open>The file /a\<close>

lemma parts_a: "dir_part ''/a'' = ''/''" "base_part ''/a'' = ''a''"
  by (simp_all add: path_parts)

lemma fuse_path_a [simp]: "fuse_path ''/a''"
  by (simp add: fuse_path_def key_ok_def text_ok_def path_parts)

lemma key_ok_a [simp]: "key_ok ''/a''"
  by (simp add: key_ok_def)

definition some_attr :: file_attr where
  "some_attr = fill_attr (501, 20) zero_stat"

definition mem_mounted :: mem where
  "mem_mounted = after (verify_root mem_env some_attr) mem_empty"

definition mem_call :: "fs_op \<Rightarrow> mem \<Rightarrow> mem" where
  "mem_call c w = after (cb_filesystem_operations mem_env (\<lambda>b n off. (0, b)) () c) w"

definition mem_file :: mem where
  "mem_file = mem_call (Create ''/a'' 0x81A4) mem_mounted"

lemma mem_mounted_ns: "abs_ns ref_cjson (mem_view mem_mounted) = root_ns"
  and mem_mounted_readable: "readable ref_cjson (mem_view mem_mounted)"
  using boot_ns(1,2) [OF mem_world_ok mem_view_empty, of some_attr] by (simp_all add: mem_mounted_def)

lemma mem_mounted_root:
  "mem_view mem_mounted (dentry_id ROOT_DIR_STRING) = Some (put_json (new_dentry ROOT_DIR_STRING None))"
proof -
  note v = verify_root_empty [OF mem_world_ok mem_view_empty, of some_attr]
  show ?thesis
    using insert_root_docs(2) [OF mem_world_ok v(3)] v(2)
    by (auto simp: mem_mounted_def ref_cjson_def)
qed

lemma ref_dentry_room:
  assumes "d (dentry_id q) = Some (put_json (new_dentry x y))"
    and "text_ok x" "text_ok (case_option [] id y)"
    and "length x \<le> 250" "length (case_option [] id y) \<le> 250"
  shows "dentry_room ref_cjson d q [''a''] \<and> dentry_room ref_cjson d q [''b'']"
proof -
  have "json_text_ok (new_dentry x y)"
    using assms(2,3) by (rule json_text_ok_new_dentry)
  then have "dentry_tree ref_cjson (put_json (new_dentry x y)) = Some (new_dentry x y)"
    using cjson_print_parse [OF ref_cjson_ok] by (fastforce simp: dentry_tree_def ref_cjson_def)
  then show ?thesis
    using assms by (cases y) (auto simp: dentry_room_def new_dentry_def ref_cjson_def fits_def
        DENTRY_CHILDREN_def DENTRY_DIR_PATH_def DENTRY_PAR_PATH_def)
qed

lemma mem_mounted_room: "has_room ref_cjson (mem_view mem_mounted) ''/a''"
proof -
  have "dir_children ref_cjson (mem_view mem_mounted) ''/'' = Some []"
    using arg_cong [OF mem_mounted_ns, where f = "\<lambda>ns. ns_dirs ns ''/''"]
    by (simp add: root_ns_def ROOT_DIR_STRING_def)
  with ref_dentry_room [where d = "mem_view mem_mounted", OF mem_mounted_root] show ?thesis
    by (simp add: has_room_def parts_a ROOT_DIR_STRING_def text_ok_def)
qed

lemma mem_file_ns:
  "abs_ns ref_cjson (mem_view mem_file) =
    \<lparr>ns_dirs = [''/'' \<mapsto> [''a'']], ns_mode = [''/'' \<mapsto> S_IFDIR OR 0x1ED, ''/a'' \<mapsto> 0x81A4]\<rparr>"
  and mem_file_readable: "readable ref_cjson (mem_view mem_file)"
proof -
  have "fuse_call (Create ''/a'' 0x81A4)" by (simp add: fuse_call_def)
  from call_refines [OF mem_world_ok this, where w = mem_mounted and filler = "\<lambda>b n off. (0, b)" and buf = "()"]
  show "abs_ns ref_cjson (mem_view mem_file) =
      \<lparr>ns_dirs = [''/'' \<mapsto> [''a'']], ns_mode = [''/'' \<mapsto> S_IFDIR OR 0x1ED, ''/a'' \<mapsto> 0x81A4]\<rparr>"
    and "readable ref_cjson (mem_view mem_file)"
    using mem_mounted_readable mem_mounted_room
    by (simp_all add: mem_file_def mem_call_def mem_mounted_ns root_ns_def ns_create_def S_ISREG_def
        ns_add_def parts_a ROOT_DIR_STRING_def)
qed

lemma mem_file_dir: "dir_children ref_cjson (mem_view mem_file) ''/'' = Some [''a'']"
  using arg_cong [OF mem_file_ns, where f = "\<lambda>ns. ns_dirs ns ''/''"] by simp

lemma mem_file_stat: "\<exists>s. stat_at (mem_view mem_file) ''/a'' = Some s"
  using arg_cong [OF mem_file_ns, where f = "\<lambda>ns. ns_mode ns ''/a''"] by auto

lemma mem_mounted_mounted: "mounted mem_env mem_view allowed mem_mounted"
  unfolding mem_mounted_def using verify_root_empty(1) [OF mem_world_ok mem_view_empty]
  by (intro mounted.boot) simp_all

lemma mem_file_mounted:
  assumes "allowed (mem_view mem_mounted) (Create ''/a'' 0x81A4)"
  shows "mounted mem_env mem_view allowed mem_file"
  unfolding mem_file_def mem_call_def using mem_mounted_mounted
  by (rule mounted_call [where r = "result_of (cbfuse_create mem_env ''/a'' 0x81A4) mem_mounted"])
    (use assms in simp_all)

section \<open>The directory /a\<close>

definition mem_dir :: mem where
  "mem_dir = mem_call (Mkdir ''/a'' 0x41ED) mem_mounted"

lemma mem_dir_ns:
  "abs_ns ref_cjson (mem_view mem_dir) =
    \<lparr>ns_dirs = [''/'' \<mapsto> [''a''], ''/a'' \<mapsto> []],
     ns_mode = [''/'' \<mapsto> S_IFDIR OR 0x1ED, ''/a'' \<mapsto> 0x41ED]\<rparr>"
proof -
  have "fuse_call (Mkdir ''/a'' 0x41ED)" by (simp add: fuse_call_def)
  from call_refines [OF mem_world_ok this, where w = mem_mounted and filler = "\<lambda>b n off. (0, b)" and buf = "()"]
  show ?thesis
    using mem_mounted_readable mem_mounted_room
    by (auto simp: mem_dir_def mem_call_def mem_mounted_ns root_ns_def ns_mkdir_def
        ns_add_def parts_a ROOT_DIR_STRING_def fun_eq_iff)
qed

lemma mem_dir_mounted:
  assumes "allowed (mem_view mem_mounted) (Mkdir ''/a'' 0x41ED)"
  shows "mounted mem_env mem_view allowed mem_dir"
  unfolding mem_dir_def mem_call_def using mem_mounted_mounted
  by (rule mounted_call [where r = "result_of (cbfuse_mkdir mem_env ''/a'' 0x41ED) mem_mounted"])
    (use assms in simp_all)

lemma fuse_call_a [simp]:
  "fuse_call (Create ''/a'' m)" "fuse_call (Mkdir ''/a'' m)" "fuse_call (Unlink ''/a'')"
  "fuse_call (Rmdir ''/a'')"
  by (simp_all add: fuse_call_def)

lemma mem_dir_doc:
  "mem_view mem_dir (dentry_id ''/a'') = Some (put_json (new_dentry ''/a'' (Some ''/'')))"
proof -
  note f = fuse_path_parts [OF fuse_path_a]
  have root: "key_ok ''/''" by (simp add: key_ok_def)
  let ?w = "after (insert_stat mem_env ''/a'' 0x41ED) mem_mounted"
  have "mem_view mem_mounted (stat_id ''/a'') = None" "mem_view mem_mounted (dentry_id ''/a'') = None"
    using readable_mode [OF mem_mounted_readable, of "''/a''"]
      readable_dir [OF mem_mounted_readable, of "''/a''"]
    by (simp_all add: mem_mounted_ns root_ns_def ROOT_DIR_STRING_def del: abs_ns_simps)
  then have i: "result_of (insert_stat mem_env ''/a'' 0x41ED) mem_mounted = 0"
    and d: "mem_view ?w (dentry_id ''/a'') = None"
    using insert_stat_spec(1) [of mem_env mem_view mem_cas "''/a''" "0x41ED" mem_mounted]
      insert_frame [of mem_env mem_view mem_cas "''/a''" "dentry_id ''/a''"] by simp_all
  have fit: "new_dentry_fits mem_env (''/a'', Some ''/'')"
    by (rule mem_new_dentry_fits) (simp_all add: text_ok_def)
  have "cjson_ok (cjson mem_env)" by simp
  note spec = add_new_dentry_spec [OF mem_env_server_ok this key_ok_a fit, of ?w]
  show ?thesis
    using i d spec(1) spec(4)
      child_ops_frame(1) [OF mem_env_server_ok root, of "dentry_id ''/a''" "''a''"]
    by (simp add: mem_dir_def mem_call_def cbfuse_mkdir_def f(1,2) parts_a mkdir_mode_test
        ref_cjson_def)
qed

section \<open>The file /a/b in the directory /a\<close>

lemma parts_ab: "dir_part ''/a/b'' = ''/a''" "base_part ''/a/b'' = ''b''"
  by (simp_all add: path_parts)

lemma fuse_path_ab [simp]: "fuse_path ''/a/b''"
  by (simp add: fuse_path_def key_ok_def text_ok_def path_parts)

definition mem_nested :: mem where
  "mem_nested = mem_call (Create ''/a/b'' 0x81A4) mem_dir"

lemma mem_nested_mounted: "mounted mem_env mem_view (\<lambda>_. fuse_call) mem_nested"
proof -
  have "mounted mem_env mem_view (\<lambda>_. fuse_call) mem_dir" by (rule mem_dir_mounted) simp
  then show ?thesis
    unfolding mem_nested_def mem_call_def
    by (rule mounted_call [where r = "result_of (cbfuse_create mem_env ''/a/b'' 0x81A4) mem_dir"])
      (simp_all add: fuse_call_def key_ok_def)
qed

lemma mem_nested_ns:
  "dir_children ref_cjson (mem_view mem_nested) ''/a'' = Some [''b'']"
  "\<exists>s. stat_at (mem_view mem_nested) ''/a'' = Some s"
proof -
  have "dir_children ref_cjson (mem_view mem_dir) ''/a'' = Some []"
    using arg_cong [OF mem_dir_ns, where f = "\<lambda>ns. ns_dirs ns ''/a''"] by simp
  with ref_dentry_room [where d = "mem_view mem_dir", OF mem_dir_doc] have room: "has_room ref_cjson (mem_view mem_dir) ''/a/b''"
    by (simp add: has_room_def parts_ab text_ok_def)
  have c: "fuse_call (Create ''/a/b'' 0x81A4)" by (simp add: fuse_call_def key_ok_def)
  have rd: "readable (cjson mem_env) (mem_view mem_dir)"
    by (rule mounted_readable [OF mem_world_ok mem_dir_mounted]) simp
  have "abs_ns ref_cjson (mem_view mem_nested) = ns_exec True (Create ''/a/b'' 0x81A4)
      \<lparr>ns_dirs = [''/'' \<mapsto> [''a''], ''/a'' \<mapsto> []],
       ns_mode = [''/'' \<mapsto> S_IFDIR OR 0x1ED, ''/a'' \<mapsto> 0x41ED]\<rparr>"
    using call_refines [OF mem_world_ok c rd, of "\<lambda>b n off. (0, b)" "()"] room
    by (simp add: mem_nested_def mem_call_def mem_dir_ns del: ns_exec.simps)
  then have ns: "abs_ns ref_cjson (mem_view mem_nested) =
      \<lparr>ns_dirs = [''/'' \<mapsto> [''a''], ''/a'' \<mapsto> [''b'']],
       ns_mode = [''/'' \<mapsto> S_IFDIR OR 0x1ED, ''/a'' \<mapsto> 0x41ED, ''/a/b'' \<mapsto> 0x81A4]\<rparr>"
    by (simp add: ns_create_def S_ISREG_def ns_add_def parts_ab)
  show "dir_children ref_cjson (mem_view mem_nested) ''/a'' = Some [''b'']"
    using arg_cong [OF ns, where f = "\<lambda>ns. ns_dirs ns ''/a''"] by simp
  show "\<exists>s. stat_at (mem_view mem_nested) ''/a'' = Some s"
    using arg_cong [OF ns, where f = "\<lambda>ns. ns_mode ns ''/a''"] by auto
qed

section \<open>A bucket with one file\<close>

definition one_file :: "cbfuse_stat \<Rightarrow> byte list \<Rightarrow> docs" where
  "one_file s b = [stat_id ''/a'' \<mapsto> stat_bytes s, block_id ''/a'' \<mapsto> b]"

lemma one_file_simps [simp]:
  "one_file s b (stat_id ''/a'') = Some (stat_bytes s)" "one_file s b (block_id ''/a'') = Some b"
  "stat_at (one_file s b) ''/a'' = Some s" "content (one_file s b) ''/a'' = b"
  by (simp_all add: one_file_def stat_at_docs content_def)

lemma one_file_put: "(one_file s b)(stat_id ''/a'' \<mapsto> stat_bytes t) = one_file t b"
  by (simp add: one_file_def fun_upd_twist)

lemma mem_view_one_file [simp]:
  "length b \<le> 20971520 \<Longrightarrow> mem_view (mem_with (one_file s b)) = one_file s b"
  by (rule mem_view_with) (auto simp: one_file_def fits_def split: if_splits)

section \<open>A bucket with a second client\<close>

text \<open>The other client writes the stat of \<open>/a\<close> anew while the program builds a command that
  carries a CAS value.\<close>

definition other_client :: "mem \<Rightarrow> mem" where
  "other_client w = w\<lparr>mem_docs := (mem_docs w)(stat_id ''/a'' \<mapsto> stat_bytes (zero_stat\<lparr>st_mode := 1\<rparr>)),
     mem_cas := (mem_cas w)(stat_id ''/a'' := 99)\<rparr>"

definition busy_env :: "mem env" where
  "busy_env = mem_env\<lparr>lcb_cmd := (\<lambda>c. State (\<lambda>w. (LCB_SUCCESS,
     case c of CmdCas _ \<Rightarrow> other_client w | _ \<Rightarrow> w)))\<rparr>"

lemma busy_env_calls:
  "result_of (lcb_cmd busy_env c) w = LCB_SUCCESS"
  "after (lcb_cmd busy_env c) w = (case c of CmdCas _ \<Rightarrow> other_client w | _ \<Rightarrow> w)"
  "lcb_submit busy_env = lcb_submit mem_env" "lcb_wait busy_env = lcb_wait mem_env"
  "submitted busy_env r w = submitted mem_env r w" "served busy_env r w = served mem_env r w"
  by (simp_all add: busy_env_def submitted_def served_def)

lemma busy_env_heap_ok: "heap_ok busy_env"
  using mem_env_heap_ok by (simp add: busy_env_def heap_ok_def heap_sizes_def)

lemma busy_env_kv_ok [simp]: "kv_ok busy_env mem_view mem_cas"
  unfolding kv_ok_def by (auto simp: busy_env_calls mem_view_fits mem_cas_serve heap_copies [OF busy_env_heap_ok])

lemma busy_get_stat:
  assumes "length b \<le> 20971520"
  shows "result_of (get_stat busy_env ''/a'' st (Some 0)) (mem_with (one_file s b)) = (0, s, Some 1)"
proof -
  let ?r = "new_request\<lparr>rq_collection := STATS_COLLECTION_STRING, rq_key := ''/a''\<rparr>"
  have "addressable ?r" "is_get ?r" by (simp_all add: request_simps)
  from kv.get_answer [OF busy_env_kv_ok this] assms show ?thesis
    by (simp add: get_stat_def prepare_result [OF busy_env_kv_ok] lcb_prepare.simps busy_env_calls
        request_simps get_reply CBFUSE_STAT_STRUCT_SIZE_def)
qed

section \<open>A bucket in which a second client changes the root\<close>

text \<open>It writes a listing of its own while the program builds the command of a replacement.\<close>

definition listed_b :: "(string \<times> json) list" where
  "listed_b = [(DENTRY_DIR_PATH, JString ''/''), (DENTRY_PAR_PATH, JString []),
     (DENTRY_CHILDREN, JArray [JString ''b''])]"

definition other_lister :: "mem \<Rightarrow> mem" where
  "other_lister w = w\<lparr>mem_docs := (mem_docs w)(dentry_id ''/'' \<mapsto> put_json (JObject listed_b))\<rparr>"

definition shared_env :: "mem env" where
  "shared_env = mem_env\<lparr>lcb_cmd := (\<lambda>c. State (\<lambda>w. (LCB_SUCCESS,
     case c of CmdValue _ \<Rightarrow> other_lister w | _ \<Rightarrow> w)))\<rparr>"

lemma shared_env_calls:
  "result_of (lcb_cmd shared_env c) w = LCB_SUCCESS"
  "after (lcb_cmd shared_env c) w = (case c of CmdValue _ \<Rightarrow> other_lister w | _ \<Rightarrow> w)"
  "lcb_submit shared_env = lcb_submit mem_env" "lcb_wait shared_env = lcb_wait mem_env"
  "submitted shared_env r w = submitted mem_env r w" "served shared_env r w = served mem_env r w"
  "cjson shared_env = ref_cjson"
  by (simp_all add: shared_env_def submitted_def served_def)

lemma shared_env_heap_ok: "heap_ok shared_env"
  using mem_env_heap_ok by (simp add: shared_env_def heap_ok_def heap_sizes_def)

lemma shared_env_kv_ok [simp]: "kv_ok shared_env mem_view mem_cas"
  unfolding kv_ok_def by (auto simp: shared_env_calls mem_view_fits mem_cas_serve heap_copies [OF shared_env_heap_ok])

lemma other_lister_children: "dir_children ref_cjson (mem_view (other_lister w)) ''/'' = Some [''b'']"
proof (rule dir_childrenI [where d = "mem_view (other_lister w)", OF ref_cjson_ok])
  show "mem_view (other_lister w) (dentry_id ''/'') = Some (put_json (JObject listed_b))"
    by (simp add: mem_view_def other_lister_def listed_b_def fits_def DENTRY_DIR_PATH_def DENTRY_PAR_PATH_def
        DENTRY_CHILDREN_def)
  show "cJSON_PrintUnformatted ref_cjson (JObject listed_b) = Some (put_json (JObject listed_b))"
    by (simp add: ref_cjson_def)
qed (auto simp: listed_b_def text_ok_def DENTRY_DIR_PATH_def DENTRY_PAR_PATH_def
    DENTRY_CHILDREN_def)

lemma shared_prepare:
  "after (lcb_prepare shared_env (relook_calls p) r) w = w"
  "after (lcb_prepare shared_env (relist_calls p t) r) w = other_lister w"
  by (simp_all add: relook_calls_def relist_calls_def lcb_prepare.simps shared_env_calls)

section \<open>A start of the program\<close>

definition mem_config :: cbfuse_config where
  "mem_config = \<lparr>cb_connect = Some ''couchbase://127.0.0.1'', cb_username = None, cb_password = None\<rparr>"

definition mem_launcher :: "mem launcher" where
  "mem_launcher = \<lparr>getuid = State_Monad.return 501, geteuid = State_Monad.return 501,
     fuse_opt_parse = (\<lambda>argv c opts f. State_Monad.return (Parsed 0 argv mem_config)),
     fuse_opt_add_arg = (\<lambda>args x. State_Monad.return (0, args @ [x])),
     fuse_main = (\<lambda>args. State_Monad.return 0),
     lcb_create = (\<lambda>c u. State_Monad.return (LCB_SUCCESS, True)),
     lcb_connect = State (\<lambda>w. (LCB_SUCCESS, w\<lparr>mem_pending := None\<rparr>)),
     lcb_get_bootstrap_status = State_Monad.return LCB_SUCCESS,
     lcb_open = (\<lambda>b. State (\<lambda>w. (LCB_SUCCESS, w\<lparr>mem_pending := None\<rparr>))),
     lcb_destroy = State_Monad.return (), stderr_write = (\<lambda>s. State_Monad.return ()),
     cbfuse_version = (0, 1, 0)\<rparr>"

lemma mem_wait_idle:
  "result_of (lcb_wait mem_env) (w\<lparr>mem_pending := None\<rparr>) = (LCB_SUCCESS, [])"
  "after (lcb_wait mem_env) (w\<lparr>mem_pending := None\<rparr>) = w\<lparr>mem_pending := None\<rparr>"
  by (simp_all add: mem_env_def mem_wait_def)

lemma mem_launcher_ok: "launcher_ok mem_env mem_view mem_launcher argv argv mem_config"
  by (simp add: launcher_ok_def mem_launcher_def mem_config_def mem_wait_idle)

text \<open>What the bucket in memory hands over are objects of C.\<close>

lemma mem_env_values_fit: "values_fit mem_env"
proof -
  have "mem_view w x = Some v \<Longrightarrow> length v < 2 ^ 63" for w x v
    using mem_view_fits [of w x v] by (simp add: fits_def)
  then have "length (rs_value (kv_response (mem_view w) (mem_cas w) r)) < 2 ^ 63" for w r
    by (cases "mem_view w (rq_doc r)") (simp_all add: kv_response_def)
  then show ?thesis
    by (simp add: values_fit_def mem_env_def mem_wait_def split: option.split)
qed

end
