(* ===== verification/Departures.thy ===== *)
theory Departures
  imports Example
begin

text \<open>
  Further theorems on the behaviour of the code, with concrete instances: results in any world
  (\<open>write_result_values\<close>), limits that are tested before any request, and cases in which the code
  does something else than its comments or its callers expect.
\<close>

text \<open>
  A write returns the size it was given or -1, or its call is undefined behaviour of C,
  whatever the server, the clock and the heap do.
\<close>

theorem write_result_values:
  "result_of (cbfuse_write E p b n off) w = Undefined \<or>
   result_of (cbfuse_write E p b n off) w = Defined (- 1) \<or>
   result_of (cbfuse_write E p b n off) w = Defined (int_of_size n)"
  unfolding cbfuse_write_def by (rule write_data_results)

text \<open>
  A write or a growing truncation behind the limit for files is refused before anything is
  asked of the world.
\<close>

theorem file_limit_refused_at_once:
  assumes "MAX_FILE_LEN < off + n" "MAX_FILE_LEN < off'"
  shows "run_state (cbfuse_write E p b n off) w = (Defined (- 1), w) \<and>
    run_state (cbfuse_truncate E p off') w = (Defined (- EFBIG), w)"
  using assms by (auto simp: cbfuse_write_def write_data_def cbfuse_truncate_def truncate_data_def
      update_block_def result_of_def)

theorem file_limit_refused_at_once_witness:
  "run_state (cbfuse_write mem_env ''/a'' [1] 1 5368709120) mem_empty = (Defined (- 1), mem_empty)"
  using file_limit_refused_at_once [of 5368709120 1 5368709121 mem_env "''/a''" "[1]" mem_empty]
  by (simp add: MAX_FILE_LEN_def MAX_FILE_BLOCKS_def MAX_DOC_LEN_def)

text \<open>
  With a user name but no password (or the other way round) \<open>main\<close> takes the length of a
  NULL string when it sets the credentials, for every server and launcher.
\<close>

theorem one_credential_undefined:
  assumes "cb_username config = None \<longleftrightarrow> cb_password config \<noteq> None"
  shows "result_of (open_instance E L args config connstr st) w = Undefined"
  using assms by (auto simp: open_instance_def credentials_def split: option.splits)

theorem one_credential_undefined_witness:
  "result_of (open_instance mem_env mem_launcher [] (mem_config\<lparr>cb_username := Some ''u''\<rparr>)
     ''couchbase://127.0.0.1'' some_attr) mem_empty = Undefined"
  by (rule one_credential_undefined) (simp add: mem_config_def)

text \<open>
  Bytes between the old end of a file and the offset of a write are not zero: they are what
  the heap block held before. Writing behind the start of a file without contents stores the
  first bytes of the memory that \<open>malloc\<close> returned, followed by the data.
\<close>

theorem gap_holds_heap_bytes:
  assumes "server_ok E D C" "key_ok p" "D w (block_id p) = None"
    and "b \<noteq> []" "unat off + length b \<le> 20971520"
    and "result_of (malloc E (off + of_nat (length b))) (after (get_block E p) w) = Some mem"
    and "length mem = unat off + length b"
  shows "content (D (after (update_block E p (Some b) (of_nat (length b)) off (Some 0)) w)) p
    = take (unat off) mem @ b"
proof -
  have lim: "unat off + length b \<le> 5368709120" using assms(5) by simp
  note r = write_range [OF lim]
  have small: "\<not> MAX_FILE_LEN < off + of_nat (length b)"
    using r lim by (simp add: word_less_nat_alt)
  have "isNotTruncate (Some b) (of_nat (length b))"
    using assms(4) r(1) by (auto simp: isNotTruncate_def word_gt_0)
  moreover have "mem_write mem off b (of_nat (length b)) = Defined (take (unat off) mem @ b)"
    using r assms(7) by (simp add: mem_write_def)
  ultimately show ?thesis
    using assms(5-7) small r
    by (simp add: update_block_def prepare_block_def Let_def set_out_def get_block_spec [OF assms(1,2)]
        assms(1,3) put_block_spec [OF assms(1,2)] content_def fits_def)
qed

theorem gap_holds_heap_bytes_witness:
  "content (mem_view (after (update_block mem_env ''/a'' (Some [1]) 1 2 (Some 0)) mem_empty)) ''/a''
    = [170, 170, 1]"
proof -
  have "replicate 3 (170 :: byte) = [170, 170, 170]" by (simp add: numeral_3_eq_3)
  with gap_holds_heap_bytes [of mem_env mem_view mem_cas "''/a''" mem_empty "[1]" 2 "[170, 170, 170]"]
  show ?thesis by simp
qed

text \<open>Such a write as a whole, and a read of the file from its start.\<close>

lemma write_data_block:
  assumes "server_ok E D C" "key_ok p"
  shows "D (after (write_data E p b n off) w) (block_id p) =
    D (after (update_block E p (Some b) n off (Some 0)) w) (block_id p)"
  using assms by (simp add: write_data_def update_block_def update_frame split: c_result.split)

lemma gap_read_back:
  assumes ok: "server_ok E D C" "clock_ok E" "heap_ok E" "key_ok p" and st: "stat_at (D w) p = Some s"
    and new: "D w (block_id p) = None" and b: "b \<noteq> []" and lim: "unat off + length b \<le> 20971520"
    and mem: "result_of (malloc E (off + of_nat (length b))) (after (get_block E p) w) = Some mem"
  defines "n \<equiv> of_nat (length b)"
  shows "result_of (cbfuse_write E p b n off) w = Defined (int (length b)) \<and>
    result_of (cbfuse_read E p (off + n) 0) (after (cbfuse_write E p b n off) w)
      = Defined (int (unat off + length b), take (unat off) mem @ b)"
proof -
  have lim': "unat off + length b \<le> 5368709120" using lim by simp
  note r = write_range [OF lim', folded n_def]
  have len: "length mem = unat off + length b"
    using ok(3) mem r(2) by (auto simp: heap_ok_def heap_sizes_def n_def)
  define w' where "w' = after (write_data E p b n off) w"
  let ?v = "take (unat off) mem @ b"
  obtain filling where wr: "result_of (write_data E p b n off) w = Defined (int (length b))"
    and d: "D w' = (if length (content (D w) p) < unat off + length b
       then (D w)(block_id p \<mapsto> file_write (content (D w) p) (unat off) b filling,
              stat_id p \<mapsto> stat_bytes (s\<lparr>st_mtime := tv_sec (update_time E p (after (update_block E p (Some b) n off (Some 0)) w)),
                st_mtimensec := tv_nsec (update_time E p (after (update_block E p (Some b) n off (Some 0)) w)),
                st_size := of_nat (unat off + length b)\<rparr>))
       else (D w)(block_id p \<mapsto> file_write (content (D w) p) (unat off) b filling))"
    using write_data_at [OF ok st b lim, folded n_def] unfolding w'_def by blast
  have st': "\<exists>t. stat_at (D w') p = Some t"
    unfolding d using st by (auto simp: stat_at_docs)
  have some: "D w' (block_id p) \<noteq> None"
    unfolding d by auto
  have "content (D w') p = ?v"
    using gap_holds_heap_bytes [OF ok(1,4) new b lim mem len] write_data_block [OF ok(1,4), of b n off w]
    by (simp add: w'_def n_def content_def)
  with some have v: "D w' (block_id p) = Some ?v"
    by (auto simp: content_def split: option.splits)
  have sum: "unat (off + n) = length ?v" "unat (off + n) < 2 ^ 31"
    using r(2) len lim by simp_all
  obtain t where t: "stat_at (D w') p = Some t" using st' by blast
  have z: "0 \<le> sint (0 :: off_t)" by simp
  have "result_of (read_data E p (off + n) 0) w' = Defined (int (length ?v), ?v)"
    using read_data_at [OF ok(1,2,4) t v z sum(2)] sum(1) b len by simp
  then show ?thesis
    using wr len unfolding cbfuse_write_def cbfuse_read_def w'_def [symmetric] by simp
qed

text \<open>
  A truncation behind the end of a file that has contents makes the library read behind the
  end of the buffer: the size that is stored is the new one, the buffer still the old one.
\<close>

theorem truncate_behind_end_undefined:
  assumes "server_ok E D C" "key_ok p" "D w (block_id p) = Some v"
    and "length v < unat off" "unat off \<le> 5368709120"
  shows "result_of (cbfuse_truncate E p off) w = Undefined"
proof -
  have "off \<noteq> 0" using assms(4) by (metis not_less_zero unat_0)
  then show ?thesis
    using update_block_truncate(3) [OF assms(1,2,5,3,4)]
    by (simp add: cbfuse_truncate_def truncate_data_def)
qed

theorem truncate_behind_end_undefined_witness:
  "result_of (cbfuse_truncate mem_env ''/a'' 10) (mem_with (one_file zero_stat [7, 8])) = Undefined"
  using truncate_behind_end_undefined [of mem_env mem_view mem_cas "''/a''"
      "mem_with (one_file zero_stat [7, 8])" "[7, 8]" 10]
  by simp

text \<open>
  On a file without contents, a truncation to zero, which has nothing to do, fails with
  \<open>-ENOENT\<close>; one to a larger size sets \<open>st_size\<close> and stores no contents, after which a read of
  the file fails with -1.
\<close>

theorem truncate_without_contents:
  assumes "server_ok E D C" "clock_ok E" "key_ok p" "stat_at (D w) p = Some s"
    and "D w (block_id p) = None" "0 < unat off" "unat off \<le> 5368709120"
  defines "w' \<equiv> after (cbfuse_truncate E p off) w"
  shows "result_of (cbfuse_truncate E p 0) w = Defined (- ENOENT) \<and>
    result_of (cbfuse_truncate E p off) w = Defined 0 \<and>
    (\<exists>t. stat_at (D w') p = Some t \<and> st_size t = off) \<and>
    result_of (cbfuse_read E p n 0) w' = Defined (- 1, [])"
proof -
  have off: "off \<noteq> 0" using assms(6) by auto
  note u = update_block_truncate(1) [OF assms(1,3,7,5)]
  have st: "stat_at (D (after (update_block E p None 0 off None) w)) p = Some s"
    using u assms(4) by simp
  from update_stat_size_spec [OF assms(1,2,3) st, of off] obtain ts :: timespec where
    "result_of (truncate_data E p off) w = Defined 0"
    "D (after (truncate_data E p off) w) = (D w)(stat_id p \<mapsto> stat_bytes
      (s\<lparr>st_mtime := tv_sec ts, st_mtimensec := tv_nsec ts, st_size := off\<rparr>))"
    using u off by (auto simp: truncate_data_def)
  then show ?thesis
    using assms(5) unfolding w'_def cbfuse_truncate_def cbfuse_read_def
    by (simp add: truncate_data_def remove_data_spec [OF assms(1,3)] read_data_def
        get_block_spec [OF assms(1,3)])
qed

theorem truncate_without_contents_witness:
  "result_of (cbfuse_truncate mem_env ''/a'' 0) (mem_with [stat_id ''/a'' \<mapsto> stat_bytes zero_stat])
    = Defined (- ENOENT)"
proof -
  let ?d = "[stat_id ''/a'' \<mapsto> stat_bytes zero_stat]"
  have v: "mem_view (mem_with ?d) = ?d"
    by (rule mem_view_with) (auto simp: fits_def split: if_splits)
  from truncate_without_contents [of mem_env mem_view mem_cas "''/a''" "mem_with ?d" zero_stat 1 0]
  show ?thesis by (simp add: v stat_at_docs)
qed

text \<open>
  A write of no bytes is taken for a truncation: it cuts the contents at its offset, reports
  success, and leaves \<open>st_size\<close> as it was.
\<close>

theorem empty_write_cuts_file:
  assumes "server_ok E D C" "key_ok p" "D w (block_id p) = Some v" "unat off \<le> length v"
  shows "result_of (cbfuse_write E p b 0 off) w = Defined 0 \<and>
    D (after (cbfuse_write E p b 0 off) w) = (D w)(block_id p \<mapsto> take (unat off) v)"
proof -
  have "length v \<le> 20971520"
    using sync.doc_size [OF assms(1,3)] by (simp add: fits_def)
  then have small: "\<not> MAX_FILE_LEN < off" and fit: "fits (take (unat off) v)"
    using assms(4) by (simp_all add: word_less_nat_alt fits_def)
  then show ?thesis
    using assms
    by (simp add: cbfuse_write_def write_data_def update_block_def prepare_block_def isNotTruncate_def
        get_block_spec put_block_spec [OF assms(1,2)] int_of_size_def)
qed

theorem empty_write_cuts_file_witness:
  "mem_view (after (cbfuse_write mem_env ''/a'' [] 0 1) (mem_with (one_file zero_stat [7, 8]))) (block_id ''/a'')
    = Some [7]"
  using empty_write_cuts_file [of mem_env mem_view mem_cas "''/a''"
      "mem_with (one_file zero_stat [7, 8])" "[7, 8]" 1 "[]"]
  by simp

text \<open>
  Reading a file that has no contents yet returns the error -1, not the 0 of the end of a
  file.
\<close>

theorem read_without_contents_fails:
  assumes "server_ok E D C" "key_ok p" "D w (block_id p) = None"
  shows "result_of (cbfuse_read E p n off) w = Defined (- 1, [])"
  using assms(3) by (simp add: cbfuse_read_def read_data_def get_block_spec [OF assms(1,2)])

theorem read_without_contents_fails_witness:
  "result_of (cbfuse_read mem_env ''/a'' 10 0) mem_empty = Defined (- 1, [])"
  by (rule read_without_contents_fails [OF mem_env_server_ok]) simp_all

text \<open>
  A read at a negative offset is not refused: on a file with contents it is undefined behaviour,
  copying from before the value and, since the sum with the size wraps, also more than the
  caller's buffer has.
\<close>

theorem negative_offset_read_undefined:
  assumes "server_ok E D C" "key_ok p" "D w (block_id p) = Some v" "sint off < 0"
  shows "result_of (cbfuse_read E p n off) w = Undefined"
proof -
  have "length v \<le> 20971520"
    using sync.doc_size [OF assms(1,3)] by (simp add: fits_def)
  then have "sint (of_nat (length v) :: size_t) = int (length v)" by (simp add: sint_of_nat_size)
  then show ?thesis
    using assms(3,4)
    by (simp add: cbfuse_read_def read_data_def get_block_spec [OF assms(1,2)] mem_read_def Let_def)
qed

theorem negative_offset_read_undefined_witness:
  "result_of (cbfuse_read mem_env ''/a'' 3 (- 5)) (mem_with (one_file zero_stat [7, 8])) = Undefined \<and>
   trimmed_size 2 (- 5) 3 = 7"
  using negative_offset_read_undefined [of mem_env mem_view mem_cas "''/a''"
      "mem_with (one_file zero_stat [7, 8])" "[7, 8]" "- 5" 3]
  by (simp add: trimmed_size_def)

text \<open>
  \<open>cbfuse_mkdir\<close> never refuses a mode: the test \<open>mode|S_IFDIR\<close> cannot fail. The mode is
  stored as it came, so without the type bits in the argument \<open>cbfuse_getattr\<close> then reports
  something that is not a directory.
\<close>

theorem mkdir_mode_unchecked:
  fixes mode :: mode_t
  assumes "world_ok E D C" "fuse_path p" "D w (stat_id p) = None"
  defines "w' \<equiv> after (cbfuse_mkdir E p mode) w"
  shows "result_of (cbfuse_mkdir E p mode) w \<noteq> - EINVAL \<and>
    (\<exists>attr. result_of (cbfuse_getattr E p st) w' = (0, attr) \<and> fa_mode attr = mode)"
proof -
  note s = world_okD(2) [OF assms(1)] and f = fuse_path_parts [OF assms(2)]
  obtain ts where "\<forall>q. file_at (D w') q = (if q = p \<and> D w (stat_id p) = None
      then (Some (new_stat mode ts), D w (block_id p)) else file_at (D w) q)"
    using mkdir_files [OF assms(1,2)] unfolding w'_def by blast
  from spec [OF this, of p] assms(3) have "stat_at (D w') p = Some (new_stat mode ts)"
    by (simp add: file_at_def)
  from getattr_found [OF s f(3) this, of st]
  have attr: "\<exists>attr. result_of (cbfuse_getattr E p st) w' = (0, attr) \<and> fa_mode attr = mode"
    by (auto simp: fill_attr_def new_stat_def)
  have "result_of (cbfuse_mkdir E p mode) w \<noteq> - EINVAL"
    using not_einval by (simp add: cbfuse_mkdir_def f mkdir_mode_test)
  with attr show ?thesis by blast
qed

theorem mkdir_mode_unchecked_witness:
  "\<exists>attr. result_of (cbfuse_getattr mem_env ''/a'' some_attr)
      (after (cbfuse_mkdir mem_env ''/a'' 0x1ED) mem_empty) = (0, attr) \<and> \<not> S_ISDIR (fa_mode attr)"
  using mkdir_mode_unchecked [OF mem_world_ok fuse_path_a, of mem_empty "0x1ED" some_attr]
  by (auto simp: S_ISDIR_def)

text \<open>
  When the JSON library cannot make the document of a new directory, \<open>add_new_dentry\<close>
  reports success and stores nothing.
\<close>

theorem new_dentry_failure_silent:
  assumes "cJSON_CreateObject (cjson E) = None"
  shows "run_state (add_new_dentry E dir_pkey dir_path parent_path) w = (0, w)"
  using assms by (simp add: add_new_dentry_def create_dentry_def)

theorem new_dentry_failure_silent_witness:
  "run_state (add_new_dentry (mem_env\<lparr>cjson := ref_cjson\<lparr>cJSON_CreateObject := None\<rparr>\<rparr>)
     ''/a'' ''/a'' (Some ''/'')) mem_empty = (0, mem_empty)"
  by (rule new_dentry_failure_silent) simp

text \<open>
  A directory document that does not parse is not reported: \<open>get_dentry_json\<close> returns 0, and
  \<open>cbfuse_readdir\<close> an empty listing with result 0.
\<close>

theorem unparsable_directory_looks_empty:
  assumes "server_ok E D C" "cjson_ok (cjson E)" "key_ok p"
    and "D w (dentry_id p) = Some t" "cJSON_ParseWithLength (cjson E) t = None"
  shows "result_of (get_dentry_json E p) w = (0, None) \<and>
    result_of (cbfuse_readdir E p buf filler off) w = (0, buf)"
  using assms(4,5)
  by (simp add: cbfuse_readdir_def get_dentry_json_spec [OF assms(1,3)] cjson_read [OF assms(2)])

theorem unparsable_directory_looks_empty_witness:
  "result_of (cbfuse_readdir mem_env ''/a'' [] collect 0) (mem_with [dentry_id ''/a'' \<mapsto> []]) = (0, [])"
proof -
  let ?d = "[dentry_id ''/a'' \<mapsto> []]"
  have v: "mem_view (mem_with ?d) = ?d"
    by (rule mem_view_with) (auto simp: fits_def split: if_splits)
  have "cJSON_ParseWithLength (cjson mem_env) [] = None"
    by (simp add: ref_cjson_def parse_json_def)
  from unparsable_directory_looks_empty [OF mem_env_server_ok _ key_ok_a _ this, where w = "mem_with ?d" and buf = "[]"
      and filler = collect and off = 0]
  show ?thesis by (simp add: v)
qed

text \<open>
  \<open>cbfuse_readdir\<close> does not stop when the filler says that the buffer is full (1): it goes on
  to the last entry and returns that 1, a positive number, to FUSE.
\<close>

theorem full_buffer_not_noticed:
  assumes "server_ok E D C" "cjson_ok (cjson E)" "key_ok p"
    and "dir_children (cjson E) (D w) p = Some cs" "cs \<noteq> []"
  shows "result_of (cbfuse_readdir E p [] (\<lambda>buf name next. (1, buf @ [name])) 0) w = (1, cs)"
  using assms(4)
proof (rule dir_childrenE)
  fix t ms
  assume "D w (dentry_id p) = Some t" "cJSON_ParseWithLength (cjson E) t = Some (JObject ms)"
    "map_of ms DENTRY_CHILDREN = Some (JArray (map JString cs))"
  then show ?thesis
    using assms(5) by (simp add: cbfuse_readdir_def get_dentry_json_spec [OF assms(1,3)]
        cjson_read [OF assms(2)] Let_def readdir_loop_full [OF assms(2)])
qed

theorem full_buffer_not_noticed_witness:
  "result_of (cbfuse_readdir mem_env ''/'' [] (\<lambda>buf name next. (1, buf @ [name])) 0) mem_file
    = (1, [''a''])"
  using full_buffer_not_noticed [of mem_env mem_view mem_cas "''/''" mem_file "[''a'']"] mem_file_dir
  by (simp add: key_ok_def)

text \<open>
  No call ever changes \<open>st_ctime\<close>, the time of the last status change, of a path whose stat
  is there before and after it: neither a write nor a truncation nor \<open>chmod\<close> nor \<open>utimens\<close>.
\<close>

theorem ctime_never_changes:
  assumes "world_ok E D C" "fuse_call c" "stat_at (D w) q = Some s"
    and "stat_at (D (after (cb_filesystem_operations E filler buf c) w)) q = Some t"
  shows "st_ctime t = st_ctime s \<and> st_ctimensec t = st_ctimensec s"
  using call_keeps_ctime [OF assms] by (simp add: same_ctime_def)

theorem ctime_never_changes_witness:
  "st_ctime (zero_stat\<lparr>st_mode := 1\<rparr>) = st_ctime zero_stat"
proof -
  have c: "fuse_call (Chmod ''/a'' 1)" by (simp add: fuse_call_def)
  have s: "stat_at (mem_view (mem_with (one_file zero_stat []))) ''/a'' = Some zero_stat" by simp
  have "stat_at (mem_view (after (cb_filesystem_operations mem_env (\<lambda>b n off. (0, b)) ()
      (Chmod ''/a'' 1)) (mem_with (one_file zero_stat [])))) ''/a'' = Some (zero_stat\<lparr>st_mode := 1\<rparr>)"
    using update_stat_mode_spec(2) [OF mem_env_server_ok key_ok_a s, of 1]
    by (simp add: cbfuse_chmod_def)
  from ctime_never_changes [OF mem_world_ok c s this] show ?thesis by blast
qed

text \<open>
  A path longer than a key is refused by \<open>cbfuse_open\<close> and \<open>cbfuse_getattr\<close> with the positive
  number \<open>ENAMETOOLONG\<close>, where every other error, and FUSE, has a negative one.
\<close>

theorem long_path_positive_error:
  assumes "kv_ok E D C" "path_too_long p"
  shows "result_of (cbfuse_open E p) w = ENAMETOOLONG \<and>
    result_of (cbfuse_getattr E p st) w = (ENAMETOOLONG, st)"
  using assms(2) prepare_result [OF assms(1)]
  by (simp add: cbfuse_open_def cbfuse_getattr_def)

theorem long_path_positive_error_witness:
  "result_of (cbfuse_open mem_env (replicate 300 (CHR ''x''))) mem_empty = 63"
proof -
  have "path_too_long (replicate 300 (CHR ''x''))" by simp
  from long_path_positive_error [OF mem_env_kv_ok this] show ?thesis by blast
qed

text \<open>
  \<open>cbfuse_rmdir\<close> removes a directory that has entries and reports success. The entries keep
  their stats, but the directory that lists them is gone.
\<close>

theorem rmdir_removes_nonempty:
  assumes "world_ok E D C" "mounted E D (\<lambda>_. fuse_call) w" "fuse_path p"
    and "dir_children (cjson E) (D w) p = Some cs" "c \<in> set cs"
    and "stat_at (D w) p = Some s"
  defines "w' \<equiv> after (cbfuse_rmdir E p) w"
  shows "result_of (cbfuse_rmdir E p) w = 0 \<and>
    dir_children (cjson E) (D w') p = None \<and> stat_at (D w') (join p c) \<noteq> None"
proof -
  note rd = mounted_readable [OF assms(1,2)] and sound = mounted_ns_sound [OF assms(1,2)]
  have r: "run_ns E D (cbfuse_rmdir E p) w = ns_rmdir p (abs_ns (cjson E) (D w))"
    by (rule rmdir_refines(1) [OF world_okD(1) [OF assms(1)] assms(3) rd])
  have neq: "dir_part p \<noteq> p" using dir_part_neq assms(3) by (simp add: fuse_path_def)
  have res: "result_of (cbfuse_rmdir E p) w = 0"
    using arg_cong [OF r, where f = fst] assms(6)
    by (simp add: run_ns_def ns_rmdir_def ns_unlink_def)
  have dir: "dir_children (cjson E) (D w') p = None"
    using arg_cong [OF r, where f = "\<lambda>x. ns_dirs (snd x) p"] neq unfolding w'_def
    by (simp add: run_ns_def ns_rmdir_def ns_unlink_def ns_drop_def split: option.splits)
  have "stat_at (D w) (join p c) \<noteq> None"
    using ns_soundD(4) [OF sound, of p cs c] assms(4,5) by simp
  moreover have "join p c \<noteq> p"
    using path_ok_not_root assms(3) by (auto simp: join_def fuse_path_def)
  then have "file_at (D w') (join p c) = file_at (D w) (join p c)"
    using rmdir_files [OF assms(1,3), of w "join p c"] unfolding w'_def by simp
  ultimately show ?thesis using res dir by (simp add: file_at_def)
qed

theorem rmdir_removes_nonempty_witness:
  "result_of (cbfuse_rmdir mem_env ''/a'') mem_nested = 0 \<and>
   stat_at (mem_view (after (cbfuse_rmdir mem_env ''/a'') mem_nested)) ''/a/b'' \<noteq> None"
proof -
  obtain s where s: "stat_at (mem_view mem_nested) ''/a'' = Some s"
    using mem_nested_ns(2) by blast
  have "dir_children (cjson mem_env) (mem_view mem_nested) ''/a'' = Some [''b'']"
    using mem_nested_ns(1) by simp
  from rmdir_removes_nonempty [OF mem_world_ok mem_nested_mounted fuse_path_a this _ s, of "''b''"]
  show ?thesis by (simp add: join_def)
qed

text \<open>
  Every call that FUSE makes on a mounted file system changes the name space (the listing of
  every directory and the mode of every path) exactly as its abstract operation does, and keeps
  every document one that the program can read.
\<close>

theorem calls_refine_name_space:
  assumes "world_ok E D C" and "mounted E D (\<lambda>_. fuse_call) w" and "fuse_call c"
  shows "abs_ns (cjson E) (D (after (cb_filesystem_operations E filler buf c) w)) =
      ns_exec (has_room (cjson E) (D w) (op_path c)) c (abs_ns (cjson E) (D w)) \<and>
    readable (cjson E) (D (after (cb_filesystem_operations E filler buf c) w))"
  by (rule call_refines [OF assms(1,3) mounted_readable [OF assms(1,2)]])

theorem calls_refine_name_space_witness:
  "abs_ns ref_cjson (mem_view (after (cb_filesystem_operations mem_env (\<lambda>b n off. (0, b)) ()
      (Unlink ''/a'')) mem_file)) = \<lparr>ns_dirs = [''/'' \<mapsto> []], ns_mode = [''/'' \<mapsto> S_IFDIR OR 0x1ED]\<rparr>"
  using calls_refine_name_space [OF mem_world_ok mem_file_mounted, of "Unlink ''/a''" "\<lambda>b n off. (0, b)" "()"]
  by (simp add: mem_file_ns ns_unlink_def ns_drop_def parts_a fun_upd_twist del: abs_ns_simps)

text \<open>
  A file is a single document: a write that would end behind 20 MiB fails with -1 and
  changes no document, also between that and the file limit of 5 GiB that the code tests.
\<close>

theorem oversized_write_refused:
  assumes "server_ok E D C" "heap_ok E" "key_ok p" "b \<noteq> []"
    and "20971520 < unat off + length b" "unat off + length b < 2 ^ 64"
  shows "result_of (cbfuse_write E p b (of_nat (length b)) off) w = Defined (- 1) \<and>
    D (after (cbfuse_write E p b (of_nat (length b)) off) w) = D w"
  unfolding cbfuse_write_def using write_data_refused [OF assms] by blast

theorem oversized_write_refused_witness:
  "result_of (cbfuse_write mem_env ''/a'' [1] 1 20971520) mem_empty = Defined (- 1)"
  using oversized_write_refused [of mem_env mem_view mem_cas "''/a''" "[1]" 20971520 mem_empty]
  by simp

end
