(* ===== verification/Losses.thy ===== *)
theory Losses
  imports Departures
begin

text \<open>
  Worlds in which some requests do not get their answer. Given a world that behaves, with the
  calls \<open>E\<close>, the calls \<open>E\<lparr>lcb_wait := W\<rparr>\<close> differ from it only in what is dispatched for odd
  requests, which the server does not carry out (\<open>answers_instead\<close>). Functions that make no odd
  request are the same in both. Then what two functions of the program make of such answers: a
  look-up of contents that fails (\<open>failed_lookup_write\<close>) and an insertion of a stat that is not
  answered (\<open>unanswered_insert\<close>).
\<close>

section \<open>Odd answers\<close>

definition answers_instead ::
  "'w env \<Rightarrow> ('w \<Rightarrow> docs) \<Rightarrow> (lcb_request \<Rightarrow> bool) \<Rightarrow> (lcb_status \<times> lcb_response list \<Rightarrow> bool)
   \<Rightarrow> ('w, lcb_status \<times> lcb_response list) state \<Rightarrow> bool" where
  "answers_instead E D odd_request answer W \<longleftrightarrow>
     (\<forall>r w. if odd_request r
        then answer (result_of W (submitted E r w)) \<and> D (after W (submitted E r w)) = D w
        else result_of W (submitted E r w) = result_of (lcb_wait E) (submitted E r w) \<and>
          after W (submitted E r w) = after (lcb_wait E) (submitted E r w))"

text \<open>The two kinds of request of the theorems.\<close>

definition looks_up_contents :: "lcb_request \<Rightarrow> bool" where
  "looks_up_contents r \<longleftrightarrow> rq_op r = LCB_GET \<and> rq_collection r = BLOCKS_COLLECTION_STRING"

definition inserts_stat :: "lcb_request \<Rightarrow> bool" where
  "inserts_stat r \<longleftrightarrow> rq_op r = LCB_STORE_INSERT \<and> rq_collection r = STATS_COLLECTION_STRING"

text \<open>One response, with a status that is a failure; no response at all.\<close>

definition failed_lookup :: "lcb_status \<times> lcb_response list \<Rightarrow> bool" where
  "failed_lookup a \<longleftrightarrow> (\<exists>resp. a = (LCB_SUCCESS, [resp]) \<and> rs_status resp \<noteq> LCB_SUCCESS)"

definition no_response :: "lcb_status \<times> lcb_response list \<Rightarrow> bool" where
  "no_response a \<longleftrightarrow> a = (LCB_SUCCESS, [])"

section \<open>What stays the same\<close>

lemma same_prepare: "lcb_prepare (E\<lparr>lcb_wait := W\<rparr>) cs r = lcb_prepare E cs r"
  by (induction cs arbitrary: r) (simp_all add: lcb_prepare.simps cong: if_cong)

lemma same_copy: "copy_value (E\<lparr>lcb_wait := W\<rparr>) v = copy_value E v"
  by (simp add: copy_value_def)

lemma same_callbacks: "sync_get_callbacks (E\<lparr>lcb_wait := W\<rparr>) rs res = sync_get_callbacks E rs res"
proof (induction rs arbitrary: res)
  case (Cons resp rs)
  have "sync_get_callback (E\<lparr>lcb_wait := W\<rparr>) resp res = sync_get_callback E resp res"
    by (simp add: sync_get_callback_def same_copy Let_def cong: if_cong)
  moreover have "sync_get_callbacks (E\<lparr>lcb_wait := W\<rparr>) rs = sync_get_callbacks E rs"
    by (rule ext) (rule Cons)
  ultimately show ?case by simp
qed simp

lemma same_prepare_block:
  "prepare_block (E\<lparr>lcb_wait := W\<rparr>) buf n off nbs got = prepare_block E buf n off nbs got"
proof -
  have "memdupm (E\<lparr>lcb_wait := W\<rparr>) v k m = memdupm E v k m" for v k m
    by (simp add: memdupm_def)
  then show ?thesis by (simp add: prepare_block_def Let_def cong: if_cong option.case_cong)
qed

text \<open>A request that is not odd runs as in the world that behaves.\<close>

lemma same_request:
  assumes "answers_instead E D odd_request answer W" "\<not> odd_request r"
  shows "sync_get (E\<lparr>lcb_wait := W\<rparr>) r = sync_get E r"
    and "sync_store (E\<lparr>lcb_wait := W\<rparr>) r = sync_store E r"
    and "sync_remove (E\<lparr>lcb_wait := W\<rparr>) r = sync_remove E r"
proof -
  have W: "result_of W (after (lcb_cmd_destroy E) (after (lcb_submit E r) w)) =
      result_of (lcb_wait E) (after (lcb_cmd_destroy E) (after (lcb_submit E r) w))"
    "after W (after (lcb_cmd_destroy E) (after (lcb_submit E r) w)) =
      after (lcb_wait E) (after (lcb_cmd_destroy E) (after (lcb_submit E r) w))" for w
    using assms unfolding answers_instead_def submitted_def by (metis (no_types, lifting))+
  show "sync_get (E\<lparr>lcb_wait := W\<rparr>) r = sync_get E r"
    by (rule state_eqI) (simp_all add: sync_get_def W same_callbacks)
  show "sync_store (E\<lparr>lcb_wait := W\<rparr>) r = sync_store E r"
    by (rule state_eqI) (simp_all add: sync_store_def W)
  show "sync_remove (E\<lparr>lcb_wait := W\<rparr>) r = sync_remove E r"
    by (rule state_eqI) (simp_all add: sync_remove_def W)
qed

text \<open>Functions that make no odd request, in a world that behaves otherwise.\<close>

lemma same_get_stat:
  assumes "server_ok E D C" "answers_instead E D odd_request answer W"
    and "\<And>r. rq_op r = LCB_GET \<Longrightarrow> rq_collection r = STATS_COLLECTION_STRING \<Longrightarrow> \<not> odd_request r"
  shows "get_stat (E\<lparr>lcb_wait := W\<rparr>) p st cas = get_stat E p st cas"
  by (rule state_eqI) (simp_all add: get_stat_def same_prepare prepared [OF assms(1)]
      same_request [OF assms(2) assms(3)] new_request_def)

lemma same_replace_stat:
  assumes "server_ok E D C" "answers_instead E D odd_request answer W"
    and "\<And>r. rq_op r = LCB_STORE_REPLACE \<Longrightarrow> \<not> odd_request r"
  shows "replace_stat (E\<lparr>lcb_wait := W\<rparr>) p s cas = replace_stat E p s cas"
  by (rule state_eqI) (simp_all add: replace_stat_def replace_calls_def same_prepare prepared [OF assms(1)]
      same_request [OF assms(2) assms(3)] new_request_def)

lemma same_put_block:
  assumes "server_ok E D C" "answers_instead E D odd_request answer W"
    and "\<And>r. rq_op r = LCB_STORE_UPSERT \<Longrightarrow> \<not> odd_request r"
  shows "put_block (E\<lparr>lcb_wait := W\<rparr>) p v n = put_block E p v n"
  by (rule state_eqI) (simp_all add: put_block_def same_prepare prepared [OF assms(1)]
      same_request [OF assms(2) assms(3)] new_request_def)

lemma same_add_child:
  assumes "server_ok E D C" "answers_instead E D odd_request answer W"
    and "\<And>r. rq_collection r = DENTRIES_COLLECTION_STRING \<Longrightarrow> \<not> odd_request r"
  shows "add_child_to_dentry (E\<lparr>lcb_wait := W\<rparr>) p c = add_child_to_dentry E p c"
proof -
  have "get_dentry_json (E\<lparr>lcb_wait := W\<rparr>) p = get_dentry_json E p"
    by (rule state_eqI) (simp_all add: get_dentry_json_def same_prepare prepared [OF assms(1)]
        same_request [OF assms(2) assms(3)])
  moreover have "replace_dentry (E\<lparr>lcb_wait := W\<rparr>) p j = replace_dentry E p j" for j
    by (rule state_eqI) (simp_all add: replace_dentry_def same_prepare prepared [OF assms(1)]
        same_request [OF assms(2) assms(3)] split: option.split)
  ultimately show ?thesis
    by (simp add: add_child_to_dentry_def Let_def cong: if_cong option.case_cong)
qed

lemma same_getattr:
  assumes "server_ok E D C" "answers_instead E D odd_request answer W"
    and "\<And>r. rq_op r = LCB_GET \<Longrightarrow> rq_collection r = STATS_COLLECTION_STRING \<Longrightarrow> \<not> odd_request r"
  shows "cbfuse_getattr (E\<lparr>lcb_wait := W\<rparr>) p st = cbfuse_getattr E p st"
  by (rule state_eqI) (simp_all add: cbfuse_getattr_def same_prepare prepared [OF assms(1)]
      same_request [OF assms(2) assms(3)] new_request_def)

section \<open>A look-up of contents that fails\<close>

lemma failed_lookup_get:
  fixes w :: 'w
  assumes "server_ok E D C" "answers_instead E D looks_up_contents failed_lookup W" "key_ok p"
  defines "m \<equiv> get_block (E\<lparr>lcb_wait := W\<rparr>) p"
  shows "fst (result_of m w) = - ENOENT" "D (after m w) = D w"
proof -
  let ?r = "new_request\<lparr>rq_collection := BLOCKS_COLLECTION_STRING, rq_key := p\<rparr>"
  let ?w = "after (lcb_prepare E [CmdCreate LCB_GET, CmdCollection DEFAULT_SCOPE_STRING
    BLOCKS_COLLECTION_STRING, CmdKey p] new_request) w"
  have r: "addressable ?r" "looks_up_contents ?r"
    using assms(3) by (simp_all add: request_simps looks_up_contents_def key_ok_def)
  then have "result_of (lcb_submit E ?r) ?w = LCB_SUCCESS"
    using assms(1) by (simp add: server_ok_def kv_ok_def)
  moreover obtain resp where "result_of W (submitted E ?r ?w) = (LCB_SUCCESS, [resp])"
    "rs_status resp \<noteq> LCB_SUCCESS" "D (after W (submitted E ?r ?w)) = D ?w"
    using assms(2) r(2) unfolding answers_instead_def failed_lookup_def by metis
  moreover have "fold apply_call [CmdCreate LCB_GET, CmdCollection DEFAULT_SCOPE_STRING
      BLOCKS_COLLECTION_STRING, CmdKey p] new_request = ?r"
    by (simp add: new_request_def DEFAULT_SCOPE_STRING_def)
  ultimately show "fst (result_of m w) = - ENOENT" "D (after m w) = D w"
    by (simp_all add: m_def get_block_def same_prepare prepared [OF assms(1)] prepare_after [OF assms(1)]
        sync_get_def sync_get_callback_def submitted_def del: fold.simps)
qed

text \<open>The write as a whole: a file of the data, behind a gap of any bytes.\<close>

lemma failed_lookup_write:
  fixes E :: "'w env" and w :: 'w
  assumes ok: "server_ok E D C" "clock_ok E" "heap_ok E" "key_ok p"
    and odd: "answers_instead E D looks_up_contents failed_lookup W"
    and st: "stat_at (D w) p = Some s" and b: "b \<noteq> []" and lim: "unat off + length b \<le> 20971520"
  defines "E' \<equiv> E\<lparr>lcb_wait := W\<rparr>"
  defines "t \<equiv> update_time E p (after (update_block E' p (Some b) (of_nat (length b)) off (Some 0)) w)"
  shows "result_of (write_data E' p b (of_nat (length b)) off) w = Defined (int (length b)) \<and>
    (\<exists>filling. length filling = unat off \<and>
      D (after (write_data E' p b (of_nat (length b)) off) w) = (D w)(block_id p \<mapsto> filling @ b,
        stat_id p \<mapsto> stat_bytes (s\<lparr>st_mtime := tv_sec t, st_mtimensec := tv_nsec t,
          st_size := of_nat (unat off + length b)\<rparr>)))"
proof -
  have lim': "unat off + length b \<le> 5368709120" using lim by simp
  note r = write_range [OF lim']
  let ?n = "of_nat (length b) :: size_t"
  let ?u = "update_block E' p (Some b) ?n off (Some 0)"
  let ?got = "result_of (get_block E' p) w" and ?w = "after (get_block E' p) w"
  have got: "fst ?got = - ENOENT" "D ?w = D w"
    using failed_lookup_get [OF ok(1) odd ok(4), of w] by (simp_all add: E'_def)
  have "fits []" by (simp add: fits_def)
  from prepare_block_write [OF ok(3) b lim' disjI1 this, of ?got ?w] got(1)
  obtain filling where f: "length filling = unat off"
    "result_of (prepare_block E (Some b) ?n off (Some 0) ?got) ?w =
      Defined (Inr (file_write [] (unat off) b filling, of_nat (unat off + length b), Some (off + ?n)))"
    using b by auto
  have v: "file_write [] (unat off) b filling = filling @ b"
    using f(1) by (simp add: file_write_def)
  have sum: "unat (of_nat (unat off + length b) :: size_t) = unat off + length b"
    using lim by (intro unat_of_nat_size) simp
  have small: "\<not> MAX_FILE_LEN < off + ?n"
    using r lim' by (simp add: word_less_nat_alt)
  have fits: "fits (filling @ b)" using f(1) lim by (simp add: fits_def)
  have put: "put_block E' p d k = put_block E p d k" for d k
    unfolding E'_def by (rule same_put_block [OF ok(1) odd]) (simp add: looks_up_contents_def)
  have u: "result_of ?u w = Defined (0, Some (off + ?n))"
    "D (after ?u w) = (D w)(block_id p \<mapsto> filling @ b)"
    using f v sum small fits got(2)
    by (simp_all add: update_block_def put put_block_spec [OF ok(1,4)] prepare_block_docs [OF ok(1)]
        same_prepare_block [where E = E and W = W, folded E'_def])
  have st': "stat_at (D (after ?u w)) p = Some s"
    using st by (simp add: u(2) stat_at_docs)
  have size: "update_stat_size E' p k = update_stat_size E p k" for k
  proof -
    have "get_stat E' p z c = get_stat E p z c" "replace_stat E' p x c' = replace_stat E p x c'" for z c x c'
      unfolding E'_def
      by (rule same_get_stat [OF ok(1) odd] same_replace_stat [OF ok(1) odd];
          simp add: looks_up_contents_def STATS_COLLECTION_STRING_def BLOCKS_COLLECTION_STRING_def)+
    then show ?thesis by (simp add: update_stat_size_def E'_def cong: if_cong option.case_cong)
  qed
  have at: "result_of (update_stat_size E p (off + ?n)) (after ?u w) = 0"
    "D (after (update_stat_size E p (off + ?n)) (after ?u w)) = (D w)(block_id p \<mapsto> filling @ b,
      stat_id p \<mapsto> stat_bytes (s\<lparr>st_mtime := tv_sec t, st_mtimensec := tv_nsec t, st_size := off + ?n\<rparr>))"
    using update_stat_size_at [OF ok(1,2,4) st', of "off + ?n", folded t_def] unfolding u(2) by (blast, blast)
  have nz: "off + ?n \<noteq> 0"
    using r(2) b by (metis add_is_0 length_0_conv unat_0)
  have sz: "of_nat (unat off + length b) = off + ?n"
    using arg_cong [OF r(2), where f = "of_nat :: nat \<Rightarrow> size_t"] by simp
  have "int_of_size ?n = int (length b)" using lim by (rule write_result_int)
  then have m: "result_of (write_data E' p b ?n off) w = Defined (int (length b))"
    "D (after (write_data E' p b ?n off) w) = D (after (update_stat_size E p (off + ?n)) (after ?u w))"
    using u(1) at(1) small nz by (simp_all add: write_data_def size)
  show ?thesis
    unfolding m at(2) sz by (intro conjI exI [of _ filling] refl f(1))
qed

section \<open>An insertion that is not answered\<close>

lemma unanswered_insert:
  fixes w :: 'w and mode :: mode_t
  assumes "server_ok E D C" "clock_ok E" "answers_instead E D inserts_stat no_response W" "key_ok p"
  defines "m \<equiv> insert_stat (E\<lparr>lcb_wait := W\<rparr>) p mode"
  shows "result_of m w = 0" "D (after m w) = D w"
proof -
  obtain ts where ts: "result_of (clock_gettime E) w = Some ts"
    using assms(2) by (rule clock_Some)
  define calls where "calls = [CmdCreate LCB_STORE_INSERT, CmdDatatypeRaw,
    CmdCollection DEFAULT_SCOPE_STRING STATS_COLLECTION_STRING, CmdKey p, CmdValue (stat_bytes (new_stat mode ts))]"
  define r where "r = fold apply_call calls new_request"
  define w1 where "w1 = after (lcb_prepare E calls new_request) (after (clock_gettime E) w)"
  have r: "addressable r" "inserts_stat r"
    using assms(4) by (simp_all add: r_def calls_def request_simps inserts_stat_def key_ok_def)
  then have "result_of (lcb_submit E r) w1 = LCB_SUCCESS"
    using assms(1) by (simp add: server_ok_def kv_ok_def)
  moreover have "result_of W (submitted E r w1) = (LCB_SUCCESS, [])" "D (after W (submitted E r w1)) = D w1"
    using assms(3) r(2) unfolding answers_instead_def no_response_def by metis+
  moreover have "D w1 = D w"
    using assms(1) by (simp add: w1_def prepare_after)
  ultimately show "result_of m w = 0" "D (after m w) = D w"
    using ts by (simp_all add: m_def insert_stat_def same_prepare calls_def [symmetric]
        prepared [OF assms(1)] r_def [symmetric] w1_def [symmetric] sync_store_def submitted_def stored_def)
qed

text \<open>\<open>cbfuse_create\<close> then lists a name without a stat.\<close>

lemma unanswered_create:
  fixes w :: 'w
  assumes "world_ok E D C" "answers_instead E D inserts_stat no_response W" "fuse_path p" "S_ISREG mode"
    and "D w (stat_id p) = None"
    and "dir_children (cjson E) (D w) (dir_part p) = Some cs" "has_room (cjson E) (D w) p"
  defines "E' \<equiv> E\<lparr>lcb_wait := W\<rparr>"
  shows "result_of (cbfuse_create E' p mode) w = 0 \<and>
    dir_children (cjson E) (D (after (cbfuse_create E' p mode) w)) (dir_part p) = Some (cs @ [base_part p]) \<and>
    result_of (cbfuse_getattr E' p st) (after (cbfuse_create E' p mode) w) = (- ENOENT, st)"
proof -
  note ok = world_okD(2-4) [OF assms(1)] and f = fuse_path_parts [OF assms(3)]
  let ?w1 = "after (insert_stat E' p mode) w"
  have ins: "result_of (insert_stat E' p mode) w = 0" "D ?w1 = D w"
    using unanswered_insert [OF ok(1,3) assms(2) f(3)] unfolding E'_def by blast+
  have same: "add_child_to_dentry E' q c = add_child_to_dentry E q c"
    "cbfuse_getattr E' q st = cbfuse_getattr E q st" for q c
    unfolding E'_def
    by (rule same_add_child [OF ok(1) assms(2)] same_getattr [OF ok(1) assms(2)];
        simp add: inserts_stat_def STATS_COLLECTION_STRING_def DENTRIES_COLLECTION_STRING_def)+
  have dir: "dir_children (cjson E) (D ?w1) (dir_part p) = Some cs"
    "dentry_room (cjson E) (D ?w1) (dir_part p) (cs @ [base_part p])"
    using assms(6,7) by (simp_all add: ins(2) has_room_def)
  note add = add_child_spec [OF ok(1,2) f(4,7) dir(1)]
  let ?w2 = "after (add_child_to_dentry E (dir_part p) (base_part p)) ?w1"
  have run: "result_of (cbfuse_create E' p mode) w = 0" "after (cbfuse_create E' p mode) w = ?w2"
    using add(1) dir(2) ins(1) assms(4) by (simp_all add: cbfuse_create_def f(1,2,8) same)
  have "D ?w2 (stat_id p) = None"
    using child_ops_frame(1) [OF ok(1) f(4), of "stat_id p"] assms(5) ins(2)
    by (simp add: STATS_COLLECTION_STRING_def DENTRIES_COLLECTION_STRING_def)
  then have "stat_at (D ?w2) p = None" by (simp add: stat_at_def)
  then have "result_of (cbfuse_getattr E p st) ?w2 = (- ENOENT, st)"
    using getattr_missing [OF ok(1) f(3), of ?w2 st] \<open>D ?w2 (stat_id p) = None\<close> f(8) by simp
  then show ?thesis using add(2) dir(2) by (simp add: run same)
qed

section \<open>Such worlds\<close>

text \<open>The bucket in memory of \<open>RefEnv\<close>, whose look-ups of contents time out (\<open>slow_wait\<close>), and one
  that does not answer insertions of stats. Nothing here is a model of the program.\<close>

definition slow_wait :: "mem \<Rightarrow> (lcb_status \<times> lcb_response list) \<times> mem" where
  "slow_wait w = (case mem_pending w of
     Some r \<Rightarrow> (if rq_op r = LCB_GET \<and> rq_collection r = BLOCKS_COLLECTION_STRING
       then ((LCB_SUCCESS, [(kv_response (mem_view w) (mem_cas w) r)\<lparr>rs_status := LCB_ERR_TIMEOUT\<rparr>]),
             w\<lparr>mem_pending := None\<rparr>)
       else mem_wait w)
   | None \<Rightarrow> mem_wait w)"

definition deaf_wait :: "mem \<Rightarrow> (lcb_status \<times> lcb_response list) \<times> mem" where
  "deaf_wait w = (case mem_pending w of
     Some r \<Rightarrow> (if inserts_stat r then ((LCB_SUCCESS, []), w\<lparr>mem_pending := None\<rparr>) else mem_wait w)
   | None \<Rightarrow> mem_wait w)"

lemma slow_wait_answers: "answers_instead mem_env mem_view looks_up_contents failed_lookup (State slow_wait)"
  by (auto simp: answers_instead_def looks_up_contents_def failed_lookup_def slow_wait_def
      submitted_def mem_env_def)

lemma deaf_wait_answers: "answers_instead mem_env mem_view inserts_stat no_response (State deaf_wait)"
  by (auto simp: answers_instead_def inserts_stat_def no_response_def deaf_wait_def
      submitted_def mem_env_def)

end
