(* ===== verification/Faults.thy ===== *)
theory Faults
  imports FileSystem
begin

text \<open>
  The same program in a world with faults that it can see: a call that builds a command may fail,
  a request may be refused, or its answer may be an error (the wait fails, or the response says so)
  whether the server carried it out or not; the clock and the heap may fail. What holds of the
  listings then, after any sequence of calls. A request that is lost without any response while the
  wait succeeds is not among these faults: the program takes it for carried out (theory Losses).
\<close>

section \<open>A world with faults\<close>

text \<open>An answer that the program takes for a failure. No response at all after a successful wait is
  not one.\<close>

definition failed_answer :: "lcb_status \<times> lcb_response list \<Rightarrow> bool" where
  "failed_answer a \<longleftrightarrow> fst a \<noteq> LCB_SUCCESS \<or> (\<exists>resp. snd a = [resp] \<and> rs_status resp \<noteq> LCB_SUCCESS)"

text \<open>
  Each request is refused at once, or answered as documented (for some CAS values: another client
  may have changed them), or it fails, and then the documents are as before or as if it had
  succeeded.
\<close>

definition served_or_failed :: "'w env \<Rightarrow> ('w \<Rightarrow> docs) \<Rightarrow> lcb_request \<Rightarrow> 'w \<Rightarrow> bool" where
  "served_or_failed E D r w \<longleftrightarrow> (\<exists>c.
     result_of (lcb_wait E) (submitted E r w) = (LCB_SUCCESS, [kv_response (D w) c r])
       \<and> D (served E r w) = kv_docs (D w) c r
     \<or> failed_answer (result_of (lcb_wait E) (submitted E r w))
       \<and> D (served E r w) \<in> {D w, kv_docs (D w) c r})"

definition faulty :: "'w env \<Rightarrow> ('w \<Rightarrow> docs) \<Rightarrow> bool" where
  "faulty E D \<longleftrightarrow>
     (\<forall>c w. D (after (lcb_cmd E c) w) = D w) \<and> (\<forall>w. D (after (clock_gettime E) w) = D w) \<and>
     (\<forall>n w. D (after (malloc E n) w) = D w) \<and> (\<forall>w. D (after (fuse_context E) w) = D w) \<and>
     (\<forall>r w. addressable r \<longrightarrow>
        (if result_of (lcb_submit E r) w = LCB_SUCCESS then served_or_failed E D r w
         else D (after (lcb_submit E r) w) = D w))"

lemma faulty_quiet [simp]:
  assumes "faulty E D"
  shows "D (after (lcb_cmd E c) w) = D w" "D (after (clock_gettime E) w) = D w"
    "D (after (malloc E n) w) = D w" "D (after (fuse_context E) w) = D w"
  using assms unfolding faulty_def by auto

lemma faulty_request:
  assumes "faulty E D" "addressable r"
  shows "result_of (lcb_submit E r) w = LCB_SUCCESS \<Longrightarrow> served_or_failed E D r w"
    and "result_of (lcb_submit E r) w \<noteq> LCB_SUCCESS \<Longrightarrow> D (after (lcb_submit E r) w) = D w"
  using assms unfolding faulty_def by (meson)+

lemma faulty_prepare [simp]: "faulty E D \<Longrightarrow> D (after (lcb_prepare E cs r) w) = D w"
  by (induction cs arbitrary: r w) (auto simp: lcb_prepare.simps)

text \<open>A world that behaves is one in which no fault happens.\<close>

lemma server_ok_faulty:
  assumes "server_ok E D C"
  shows "faulty E D"
proof -
  have "served_or_failed E D r w" if "addressable r" for r w
    using kv_ok_served(2,3) [of E D C r w] that assms
    by (auto simp: served_or_failed_def served_def submitted_def server_ok_def intro!: exI [of _ "C w"])
  then show ?thesis
    using assms unfolding faulty_def server_ok_def quiet_def kv_ok_def by auto
qed

section \<open>A request in such a world\<close>

definition carried_out :: "lcb_request \<Rightarrow> docs \<Rightarrow> docs \<Rightarrow> bool" where
  "carried_out r d d' \<longleftrightarrow> (\<exists>c. kv_status d c r = LCB_SUCCESS \<and> d' = kv_docs d c r)"

lemma carried_out_store:
  assumes "carried_out r d d'" "is_store r"
  shows "d' = d(rq_doc r \<mapsto> rq_value r)" "rq_op r = LCB_STORE_INSERT \<Longrightarrow> d (rq_doc r) = None"
    "rq_op r = LCB_STORE_REPLACE \<Longrightarrow> d (rq_doc r) \<noteq> None"
  using assms by (auto simp: carried_out_def kv_simps is_store_def split: if_splits)

lemma carried_out_other:
  "carried_out r d d' \<Longrightarrow> is_store r \<Longrightarrow> x \<noteq> rq_doc r \<Longrightarrow> d' x = d x"
  using carried_out_store(1) [of r d d'] by simp

lemma carried_out_remove:
  "carried_out r d d' \<Longrightarrow> is_remove r \<Longrightarrow> d' = d(rq_doc r := None)"
  by (auto simp: carried_out_def kv_simps is_remove_def)

lemma kv_docs_or_same: "d' = kv_docs d c r \<Longrightarrow> d' = d \<or> carried_out r d d'"
  by (auto simp: carried_out_def kv_docs_def)

text \<open>The three outcomes of a request.\<close>

lemma faulty_outcome [consumes 2, case_names refused answered failed]:
  assumes "faulty E D" "addressable r"
  obtains "result_of (lcb_submit E r) w \<noteq> LCB_SUCCESS" "D (after (lcb_submit E r) w) = D w"
  | c where "result_of (lcb_submit E r) w = LCB_SUCCESS" "D (served E r w) = kv_docs (D w) c r"
      "result_of (lcb_wait E) (submitted E r w) = (LCB_SUCCESS, [kv_response (D w) c r])"
  | c where "result_of (lcb_submit E r) w = LCB_SUCCESS" "D (served E r w) \<in> {D w, kv_docs (D w) c r}"
      "failed_answer (result_of (lcb_wait E) (submitted E r w))"
  using faulty_request [OF assms, of w] unfolding served_or_failed_def by metis

lemmas outcome_simps = served_def submitted_def failed_answer_def kv_response_def

lemma sync_store_outcome:
  assumes "faulty E D" "addressable r" "is_store r"
  shows "(D (after (sync_store E r) w) = D w \<or> carried_out r (D w) (D (after (sync_store E r) w)))
    \<and> (stored (result_of (sync_store E r) w) = 0 \<longrightarrow> carried_out r (D w) (D (after (sync_store E r) w)))"
  using assms(1,2)
proof (cases rule: faulty_outcome [where w = w])
  case refused
  then show ?thesis by (simp add: sync_store_def stored_def)
next
  case (answered c)
  then show ?thesis
    using kv_docs_or_same [of _ "D w" c r]
    by (auto simp: sync_store_def stored_def outcome_simps sync_store_callback_def carried_out_def)
next
  case (failed c)
  then show ?thesis
    using kv_docs_or_same [of _ "D w" c r]
    by (auto simp: sync_store_def stored_def outcome_simps sync_store_callback_def)
qed

lemma sync_remove_outcome:
  assumes "faulty E D" "addressable r" "is_remove r"
  shows "(D (after (sync_remove E r) w) = D w \<or> carried_out r (D w) (D (after (sync_remove E r) w)))
    \<and> (removed (result_of (sync_remove E r) w) = 0 \<longrightarrow> carried_out r (D w) (D (after (sync_remove E r) w)))"
  using assms(1,2)
proof (cases rule: faulty_outcome [where w = w])
  case refused
  then show ?thesis by (simp add: sync_remove_def removed_def)
next
  case (answered c)
  then show ?thesis
    using kv_docs_or_same [of _ "D w" c r]
    by (auto simp: sync_remove_def removed_def outcome_simps sync_remove_callback_def carried_out_def)
next
  case (failed c)
  then show ?thesis
    using kv_docs_or_same [of _ "D w" c r]
    by (auto simp: sync_remove_def removed_def outcome_simps sync_remove_callback_def)
qed

lemma faulty_callbacks:
  assumes "faulty E D"
  shows "D (after (sync_get_callbacks E rs res) w) = D w"
  using assms by (induction rs arbitrary: res w)
    (simp_all add: sync_get_callback_def Let_def copy_value_def)

lemma sync_get_outcome:
  assumes "faulty E D" "addressable r" "is_get r"
  shows "D (after (sync_get E r) w) = D w \<and> (fst (result_of (sync_get E r) w) = LCB_SUCCESS \<longrightarrow>
      gr_status (snd (result_of (sync_get E r) w)) = LCB_SUCCESS \<longrightarrow>
      (\<exists>v. D w (rq_doc r) = Some v \<and> gr_value (snd (result_of (sync_get E r) w)) \<in> {None, Some v}))"
  using assms(1,2)
proof (cases rule: faulty_outcome [where w = w])
  case refused
  then show ?thesis by (simp add: sync_get_def)
next
  case (answered c)
  then have "D (after (sync_get E r) w) = D w"
    using assms(1) by (simp add: sync_get_def served_def submitted_def kv_docs_get [OF assms(3)] faulty_callbacks
        del: sync_get_callbacks.simps)
  then show ?thesis
    using answered assms(3) copied_or_null [of E]
    by (auto simp: sync_get_def submitted_def sync_get_callback_def Let_def is_get_def kv_response_def kv_status_def
        split: if_splits option.splits)
next
  case (failed c)
  then show ?thesis
    using assms(1)
    by (auto simp: sync_get_def outcome_simps sync_get_callback_def Let_def calloc_get_result_def
        kv_docs_get [OF assms(3)] faulty_callbacks)
qed

text \<open>
  A command prepared and stored, and one prepared and removed: the same statements in every
  function that changes a document.
\<close>

definition store_request :: "'w env \<Rightarrow> lcb_call list \<Rightarrow> ('w, int) state" where
  "store_request E cs = do {
     (rc, cmd) \<leftarrow> lcb_prepare E cs new_request;
     if rc \<noteq> LCB_SUCCESS then State_Monad.return (- EIO)
     else do {
       p \<leftarrow> sync_store E cmd;
       State_Monad.return (stored p) } }"

definition remove_request :: "'w env \<Rightarrow> lcb_call list \<Rightarrow> ('w, int) state" where
  "remove_request E cs = do {
     (rc, cmd) \<leftarrow> lcb_prepare E cs new_request;
     if rc \<noteq> LCB_SUCCESS then State_Monad.return (- EIO)
     else do {
       p \<leftarrow> sync_remove E cmd;
       State_Monad.return (removed p) } }"

lemma store_request_faulty:
  assumes f: "faulty E D" and r: "fold apply_call cs new_request = r" "addressable r" "is_store r"
  shows "D (after (store_request E cs) w) = D w \<or> carried_out r (D w) (D (after (store_request E cs) w))"
    and "result_of (store_request E cs) w = 0 \<Longrightarrow> carried_out r (D w) (D (after (store_request E cs) w))"
  using sync_store_outcome [OF f r(2,3), of "after (lcb_prepare E cs new_request) w"]
    prepare_request [of E cs new_request w] r(1) f
  by (auto simp: store_request_def split: if_splits)

lemma remove_request_faulty:
  assumes f: "faulty E D" and r: "fold apply_call cs new_request = r" "addressable r" "is_remove r"
  shows "D (after (remove_request E cs) w) = D w \<or> D (after (remove_request E cs) w) = (D w)(rq_doc r := None)"
    and "result_of (remove_request E cs) w = 0 \<Longrightarrow> D (after (remove_request E cs) w) = (D w)(rq_doc r := None)"
  using sync_remove_outcome [OF f r(2,3), of "after (lcb_prepare E cs new_request) w"] carried_out_remove [OF _ r(3)]
    prepare_request [of E cs new_request w] r(1) f
  by (auto simp: remove_request_def split: if_splits)

section \<open>The operations on documents\<close>

lemma get_stat_faulty [simp]:
  assumes "faulty E D" "key_ok p"
  shows "D (after (get_stat E p s c) w) = D w"
proof -
  define r where "r = fold apply_call [CmdCreate LCB_GET, CmdCollection DEFAULT_SCOPE_STRING STATS_COLLECTION_STRING, CmdKey p] new_request"
  have "addressable r" "is_get r"
    using assms(2) by (simp_all add: r_def request_simps key_ok_def)
  then show ?thesis
    using assms(1) sync_get_outcome [OF assms(1), of r] prepare_request
      [of E "[CmdCreate LCB_GET, CmdCollection DEFAULT_SCOPE_STRING STATS_COLLECTION_STRING, CmdKey p]" new_request w]
    by (auto simp: get_stat_def r_def)
qed

lemma insert_stat_faulty:
  assumes "faulty E D" "key_ok p"
  shows "D (after (insert_stat E p mode) w) = D w \<and> result_of (insert_stat E p mode) w \<noteq> 0
    \<or> D w (stat_id p) = None \<and> (\<exists>s. D (after (insert_stat E p mode) w) = (D w)(stat_id p \<mapsto> stat_bytes s))"
proof (cases "result_of (clock_gettime E) w")
  case None
  then show ?thesis
    using assms(1) by (simp add: insert_stat_def)
next
  case (Some ts)
  let ?cs = "[CmdCreate LCB_STORE_INSERT, CmdDatatypeRaw, CmdCollection DEFAULT_SCOPE_STRING STATS_COLLECTION_STRING,
    CmdKey p, CmdValue (stat_bytes (new_stat mode ts))]"
  define r where "r = fold apply_call ?cs new_request"
  have r: "addressable r" "is_store r" "rq_doc r = stat_id p" "rq_value r = stat_bytes (new_stat mode ts)"
    "rq_op r = LCB_STORE_INSERT"
    using assms(2) by (simp_all add: r_def request_simps key_ok_def)
  note s = store_request_faulty [OF assms(1) r_def [symmetric] r(1,2), of "after (clock_gettime E) w"]
  have "carried_out r (D w) d \<Longrightarrow> D w (stat_id p) = None \<and> (\<exists>s. d = (D w)(stat_id p \<mapsto> stat_bytes s))" for d
    using carried_out_store [OF _ r(2), of "D w" d] r(3-5) by auto
  then show ?thesis
    using s assms(1) Some by (simp add: insert_stat_def store_request_def [symmetric]) blast
qed

lemma replace_stat_faulty:
  assumes "faulty E D" "key_ok p"
  shows "D (after (replace_stat E p s cas) w) = D w
    \<or> D w (stat_id p) \<noteq> None \<and> D (after (replace_stat E p s cas) w) = (D w)(stat_id p \<mapsto> stat_bytes s)"
proof -
  define r where "r = fold apply_call (replace_calls p s cas) new_request"
  have r: "addressable r" "is_store r" "rq_doc r = stat_id p" "rq_value r = stat_bytes s"
    "rq_op r = LCB_STORE_REPLACE"
    using assms(2) by (simp_all add: r_def request_simps key_ok_def replace_calls_def)
  show ?thesis
    using store_request_faulty(1) [OF assms(1) r_def [symmetric] r(1,2), of w] carried_out_store [OF _ r(2)] r(3-5)
    unfolding replace_stat_def store_request_def [symmetric] by auto
qed

text \<open>The four updates of a stat: it is as before, or there and replaced by another one.\<close>

definition restat :: "string \<Rightarrow> docs \<Rightarrow> docs \<Rightarrow> bool" where
  "restat p d d' \<longleftrightarrow> d' = d \<or> d (stat_id p) \<noteq> None \<and> (\<exists>s. d' = d(stat_id p \<mapsto> stat_bytes s))"

lemma restat_replace:
  "faulty E D \<Longrightarrow> key_ok p \<Longrightarrow> restat p (D w) (D (after (replace_stat E p s cas) w))"
  using replace_stat_faulty [of E D p s cas w] by (auto simp: restat_def)

lemma update_stat_faulty:
  assumes "faulty E D" "key_ok p"
  shows "restat p (D w) (D (after (update_stat_atime E p) w))"
    "restat p (D w) (D (after (update_stat_size E p sz) w))"
    "restat p (D w) (D (after (update_stat_mode E p m) w))"
    "restat p (D w) (D (after (update_stat_utimens E p tv) w))"
proof -
  have same: "restat p d d" for d
    by (simp add: restat_def)
  have rep: "D w' = D w \<Longrightarrow> restat p (D w) (D (after (replace_stat E p s cas) w'))" for w' s cas
    using restat_replace [OF assms, of w' s cas] by simp
  show "restat p (D w) (D (after (update_stat_atime E p) w))"
    "restat p (D w) (D (after (update_stat_size E p sz) w))"
    "restat p (D w) (D (after (update_stat_mode E p m) w))"
    "restat p (D w) (D (after (update_stat_utimens E p tv) w))"
    using assms same
    by (auto simp: update_stat_atime_def update_stat_size_def update_stat_mode_def update_stat_utimens_def
        intro!: rep split: option.split)
qed

lemma remove_ops_faulty:
  assumes "faulty E D" "key_ok p"
  shows "D (after (remove_stat E p) w) = D w \<or> D (after (remove_stat E p) w) = (D w)(stat_id p := None)"
    and "D (after (remove_dentry E p) w) = D w \<or> D (after (remove_dentry E p) w) = (D w)(dentry_id p := None)"
    and "D (after (remove_data E p) w) = D w \<or> D (after (remove_data E p) w) = (D w)(block_id p := None)"
    and "result_of (remove_stat E p) w = 0 \<Longrightarrow> D (after (remove_stat E p) w) = (D w)(stat_id p := None)"
  using assms(2) remove_request_faulty [OF assms(1) refl, of "[CmdCreate LCB_REMOVE,
      CmdCollection DEFAULT_SCOPE_STRING c, CmdKey p]" w for c]
  unfolding remove_stat_def remove_dentry_def remove_data_def remove_request_def [symmetric]
  by (simp_all add: request_simps key_ok_def)

section \<open>Directories\<close>

lemma get_dentry_json_faulty:
  assumes "faulty E D" "key_ok p"
  shows "D (after (get_dentry_json E p) w) = D w"
    and "fst (result_of (get_dentry_json E p) w) = 0 \<Longrightarrow> \<exists>t. D w (dentry_id p) = Some t
      \<and> snd (result_of (get_dentry_json E p) w) \<in> {None, cJSON_ParseWithLength (cjson E) t}"
proof -
  let ?cs = "[CmdCreate LCB_GET, CmdCollection DEFAULT_SCOPE_STRING DENTRIES_COLLECTION_STRING, CmdKey p]"
  define r where "r = fold apply_call ?cs new_request"
  have "addressable r" "is_get r" and id: "rq_doc r = dentry_id p"
    using assms(2) by (simp_all add: r_def request_simps key_ok_def)
  note g = sync_get_outcome [OF assms(1) this(1,2), of "after (lcb_prepare E ?cs new_request) w"]
  note q = prepare_request [of E ?cs new_request w, folded r_def]
  show "D (after (get_dentry_json E p) w) = D w"
    using g q assms(1) by (auto simp: get_dentry_json_def split: if_splits)
  show "\<exists>t. D w (dentry_id p) = Some t \<and> snd (result_of (get_dentry_json E p) w) \<in> {None, cJSON_ParseWithLength (cjson E) t}"
    if "fst (result_of (get_dentry_json E p) w) = 0"
    using that g q assms(1) id by (auto simp: get_dentry_json_def split: if_splits)
qed

lemma replace_dentry_faulty:
  assumes "faulty E D" "key_ok p"
  shows "D (after (replace_dentry E p j) w) = D w
    \<or> (\<exists>t. cJSON_PrintUnformatted (cjson E) j = Some t \<and> D (after (replace_dentry E p j) w) = (D w)(dentry_id p \<mapsto> t))"
proof (cases "cJSON_PrintUnformatted (cjson E) j")
  case (Some t)
  define r where "r = fold apply_call [CmdCreate LCB_STORE_REPLACE, CmdCollection DEFAULT_SCOPE_STRING
    DENTRIES_COLLECTION_STRING, CmdKey p, CmdValue t] new_request"
  have r: "addressable r" "is_store r" "rq_doc r = dentry_id p" "rq_value r = t"
    using assms(2) by (simp_all add: r_def request_simps key_ok_def)
  show ?thesis
    using store_request_faulty(1) [OF assms(1) r_def [symmetric] r(1,2), of w] carried_out_store(1) [OF _ r(2)] r(3,4) Some
    by (auto simp: replace_dentry_def store_request_def [symmetric])
qed (simp add: replace_dentry_def)

text \<open>A directory's document after a change of its list of names, or as it was.\<close>

definition relisted :: "cjson_lib \<Rightarrow> string \<Rightarrow> (string list \<Rightarrow> string list) \<Rightarrow> docs \<Rightarrow> docs \<Rightarrow> bool" where
  "relisted J p f d d' \<longleftrightarrow> d' = d \<or> (\<exists>cs t. dir_children J d p = Some cs \<and> d' = d(dentry_id p \<mapsto> t)
     \<and> dir_children J d' p = Some (f cs))"

lemma relisted_replace:
  assumes "faulty E D" "cjson_ok (cjson E)" "key_ok p" "D w' = D w"
    and "json_text_ok (JObject ms)" "map_of ms DENTRY_CHILDREN \<noteq> None" "dir_children (cjson E) (D w) p = Some cs"
    and "\<forall>c \<in> set (f cs). text_ok c"
  shows "relisted (cjson E) p f (D w) (D (after (replace_dentry E p
    (JObject (put_member DENTRY_CHILDREN (JArray (map JString (f cs))) ms))) w'))"
  using replace_dentry_faulty [OF assms(1,3), of "JObject (put_member DENTRY_CHILDREN (JArray (map JString (f cs))) ms)" w']
    replaced_children [OF assms(2,5,6,8)] assms(4,7)
  by (fastforce simp: relisted_def)

lemma child_ops_faulty:
  assumes f: "faulty E D" and J: "cjson_ok (cjson E)" and k: "key_ok p" and rd: "readable (cjson E) (D w)"
  shows "text_ok c \<Longrightarrow> relisted (cjson E) p (\<lambda>cs. cs @ [c]) (D w) (D (after (add_child_to_dentry E p c) w))"
    and "relisted (cjson E) p (filter (\<lambda>x. x \<noteq> c)) (D w) (D (after (remove_child_from_dentry E p c) w))"
proof -
  let ?g = "get_dentry_json E p"
  note g = get_dentry_json_faulty [OF f k, of w]
  have both: "(text_ok c \<longrightarrow> relisted (cjson E) p (\<lambda>cs. cs @ [c]) (D w) (D (after (add_child_to_dentry E p c) w)))
    \<and> relisted (cjson E) p (filter (\<lambda>x. x \<noteq> c)) (D w) (D (after (remove_child_from_dentry E p c) w))"
  proof (cases "fst (result_of ?g w) = 0 \<and> snd (result_of ?g w) \<noteq> None")
    case True
    then obtain t where t: "D w (dentry_id p) = Some t" "snd (result_of ?g w) = cJSON_ParseWithLength (cjson E) t"
      using g(2) by fastforce
    from t(1) obtain cs where cs: "dir_children (cjson E) (D w) p = Some cs"
      using rd unfolding readable_def by fastforce
    then obtain ms where dir: "cJSON_ParseWithLength (cjson E) t = Some (JObject ms)" "json_text_ok (JObject ms)"
      "map_of ms DENTRY_CHILDREN = Some (JArray (map JString cs))"
      using t(1) by (auto elim!: dir_childrenE)
    have names: "\<forall>x \<in> set cs. text_ok x"
      using dir_children_text_ok [OF cs] by blast
    note rep = relisted_replace [OF f J k g(1) dir(2) _ cs]
    have "relisted (cjson E) p (\<lambda>cs. cs @ [c]) (D w) (D (after (add_child_to_dentry E p c) w))" if "text_ok c"
      using rep [of "\<lambda>cs. cs @ [c]"] dir names that True t(2)
      by (simp add: add_child_to_dentry_def cjson_build [OF J] cjson_read [OF J])
    moreover have "relisted (cjson E) p (filter (\<lambda>x. x \<noteq> c)) (D w) (D (after (remove_child_from_dentry E p c) w))"
      using rep [of "filter (\<lambda>x. x \<noteq> c)"] dir names True t(2)
      by (simp add: remove_child_from_dentry_def cjson_build [OF J] cjson_read [OF J] copy_children_strings [OF J])
    ultimately show ?thesis by blast
  next
    case False
    then have "D (after (add_child_to_dentry E p c) w) = D w" "D (after (remove_child_from_dentry E p c) w) = D w"
      using g(1) by (cases "fst (result_of ?g w) = 0";
        simp add: add_child_to_dentry_def remove_child_from_dentry_def Let_def)+
    then show ?thesis by (simp add: relisted_def)
  qed
  then show "text_ok c \<Longrightarrow> relisted (cjson E) p (\<lambda>cs. cs @ [c]) (D w) (D (after (add_child_to_dentry E p c) w))"
    "relisted (cjson E) p (filter (\<lambda>x. x \<noteq> c)) (D w) (D (after (remove_child_from_dentry E p c) w))"
    by auto
qed

lemma add_new_dentry_faulty:
  assumes "faulty E D" "cjson_ok (cjson E)" "key_ok p" "text_ok dir_path" "text_ok (case_option [] id parent_path)"
  shows "D (after (add_new_dentry E p dir_path parent_path) w) = D w
    \<or> (\<exists>t. D w (dentry_id p) = None \<and> D (after (add_new_dentry E p dir_path parent_path) w) = (D w)(dentry_id p \<mapsto> t)
        \<and> dir_children (cjson E) ((D w)(dentry_id p \<mapsto> t)) p = Some [])"
proof (cases "cJSON_PrintUnformatted (cjson E) (new_dentry dir_path parent_path)")
  case None
  then show ?thesis
    by (simp add: add_new_dentry_def create_dentry_empty [OF assms(2)])
next
  case (Some t)
  define r where "r = fold apply_call [CmdCreate LCB_STORE_INSERT, CmdCollection DEFAULT_SCOPE_STRING
    DENTRIES_COLLECTION_STRING, CmdKey p, CmdValue t] new_request"
  have r: "addressable r" "is_store r" "rq_doc r = dentry_id p" "rq_value r = t" "rq_op r = LCB_STORE_INSERT"
    using assms(3) by (simp_all add: r_def request_simps key_ok_def)
  have "json_text_ok (new_dentry dir_path parent_path)"
    by (rule json_text_ok_new_dentry [OF assms(4,5)])
  then have "dir_children (cjson E) ((D w)(dentry_id p \<mapsto> t)) p = Some []"
    using Some unfolding new_dentry_def by (auto intro!: dir_childrenI [OF assms(2)])
  then show ?thesis
    using store_request_faulty(1) [OF assms(1) r_def [symmetric] r(1,2), of w] carried_out_store [OF _ r(2)] r(3-5) Some
    by (auto simp: add_new_dentry_def create_dentry_empty [OF assms(2)] store_request_def [symmetric])
qed

section \<open>Contents\<close>

text \<open>A call on a file changes at most its contents and its stat, and the stat stays one.\<close>

definition refile :: "string \<Rightarrow> docs \<Rightarrow> docs \<Rightarrow> bool" where
  "refile p d d' \<longleftrightarrow> (\<forall>x. x \<noteq> block_id p \<and> x \<noteq> stat_id p \<longrightarrow> d' x = d x)
     \<and> (d' (stat_id p) = d (stat_id p) \<or> d (stat_id p) \<noteq> None \<and> (\<exists>s. d' (stat_id p) = Some (stat_bytes s)))"

lemma refile_refl [simp]: "refile p d d"
  by (simp add: refile_def)

lemma refile_trans: "refile p d d' \<Longrightarrow> refile p d' d'' \<Longrightarrow> refile p d d''"
  unfolding refile_def by (metis option.distinct(1))

lemma restat_refile: "restat p d d' \<Longrightarrow> refile p d d'"
  by (auto simp: restat_def refile_def)

lemma block_refile: "(\<And>x. x \<noteq> block_id p \<Longrightarrow> d' x = d x) \<Longrightarrow> refile p d d'"
  by (auto simp: refile_def)

lemma get_block_faulty [simp]:
  assumes "faulty E D" "key_ok p"
  shows "D (after (get_block E p) w) = D w"
proof -
  let ?cs = "[CmdCreate LCB_GET, CmdCollection DEFAULT_SCOPE_STRING BLOCKS_COLLECTION_STRING, CmdKey p]"
  define r where "r = fold apply_call ?cs new_request"
  have "addressable r" "is_get r"
    using assms(2) by (simp_all add: r_def request_simps key_ok_def)
  then show ?thesis
    using assms(1) sync_get_outcome [OF assms(1), of r] prepare_request [of E ?cs new_request w]
    by (auto simp: get_block_def r_def)
qed

lemma prepare_block_faulty [simp]:
  "faulty E D \<Longrightarrow> D (after (prepare_block E buf nbuf off nbs got) w) = D w"
  by (auto simp: prepare_block_def memdupm_def Let_def split: option.split)

lemma put_block_faulty:
  assumes "faulty E D" "key_ok p" "x \<noteq> block_id p"
  shows "D (after (put_block E p data n) w) x = D w x"
proof -
  let ?cs = "[CmdCreate LCB_STORE_UPSERT, CmdCollection DEFAULT_SCOPE_STRING BLOCKS_COLLECTION_STRING, CmdDatatypeRaw, CmdKey p]"
  let ?v = "[CmdValue (take (unat n) data)]"
  define r where "r = fold apply_call ?v (fold apply_call ?cs new_request)"
  have r: "addressable r" "is_store r" "rq_doc r = block_id p"
    using assms(2) by (simp_all add: r_def request_simps key_ok_def)
  have "D (after (sync_store E r) w') x = D w' x" for w'
    using sync_store_outcome [OF assms(1) r(1,2), of w'] carried_out_other [OF _ r(2), of _ _ x] r(3) assms(3)
    by metis
  then show ?thesis
    using assms(1) prepare_request [of E ?cs new_request w] prepare_request [of E ?v "fold apply_call ?cs new_request"]
    by (auto simp: put_block_def r_def)
qed

lemma update_block_faulty:
  assumes "faulty E D" "key_ok p"
  shows "refile p (D w) (D (after (update_block E p buf nbuf off nbs) w))"
proof -
  have "D w' = D w \<Longrightarrow> refile p (D w) (D (after (put_block E p data n) w'))" for w' data n
    using put_block_faulty [OF assms] by (metis block_refile)
  then show ?thesis
    using assms by (auto simp: update_block_def split: c_result.split sum.split prod.split)
qed

lemma file_ops_faulty:
  assumes "faulty E D" "key_ok p"
  shows "refile p (D w) (D (after (write_data E p b n off) w))"
    "refile p (D w) (D (after (read_data E p n off) w))"
    "refile p (D w) (D (after (truncate_data E p off) w))"
proof -
  note up = restat_refile [OF update_stat_faulty(2) [OF assms]]
  have size: "refile p (D w) (D w') \<Longrightarrow> refile p (D w) (D (after (update_stat_size E p sz) w'))" for w' sz
    using refile_trans up by blast
  show "refile p (D w) (D (after (write_data E p b n off) w))"
    using update_block_faulty [OF assms]
    by (auto simp: write_data_def intro!: size split: c_result.split)
  have "refile p (D w) (D w') \<Longrightarrow> refile p (D w) (D (after (update_stat_atime E p) w'))" for w'
    using refile_trans restat_refile [OF update_stat_faulty(1) [OF assms]] by blast
  then show "refile p (D w) (D (after (read_data E p n off) w))"
    using assms by (auto simp: read_data_def Let_def split: c_result.split)
  have "refile p (D w) (D (after (remove_data E p) w))"
    using remove_ops_faulty(3) [OF assms, of w] by (auto intro!: block_refile split: if_splits)
  then show "refile p (D w) (D (after (truncate_data E p off) w))"
    using update_block_faulty [OF assms]
    by (auto simp: truncate_data_def intro!: size split: c_result.split)
qed

section \<open>Listings in spite of faults\<close>

text \<open>
  Every document is readable, and a name in a listing is that of a path with a stat, except for the
  paths of a set \<open>S\<close>, whose names may dangle.
\<close>

definition listings_ok :: "cjson_lib \<Rightarrow> string set \<Rightarrow> docs \<Rightarrow> bool" where
  "listings_ok J S d \<longleftrightarrow> readable J d \<and> (\<forall>p cs c. dir_children J d p = Some cs \<longrightarrow> c \<in> set cs \<longrightarrow>
     dir_ok p \<and> name_ok c \<and> (stat_at d (join p c) \<noteq> None \<or> join p c \<in> S))"

lemma listings_okD:
  "listings_ok J S d \<Longrightarrow> readable J d"
  "listings_ok J S d \<Longrightarrow> dir_children J d p = Some cs \<Longrightarrow> c \<in> set cs \<Longrightarrow> dir_ok p \<and> name_ok c"
  "listings_ok J S d \<Longrightarrow> dir_children J d p = Some cs \<Longrightarrow> c \<in> set cs \<Longrightarrow> join p c \<notin> S \<Longrightarrow> stat_at d (join p c) \<noteq> None"
  unfolding listings_ok_def by auto

lemma listings_keep:
  assumes ok: "listings_ok J S d" and rd: "readable J d'"
    and same: "\<And>p. dir_children J d' p = dir_children J d p \<or> dir_children J d' p = Some []
      \<or> dir_children J d' p = None"
    and stat: "\<And>p. stat_at d p \<noteq> None \<Longrightarrow> p \<notin> S \<Longrightarrow> stat_at d' p \<noteq> None"
  shows "listings_ok J S d'"
  unfolding listings_ok_def
proof (intro conjI allI impI)
  fix p cs c
  assume "dir_children J d' p = Some cs" "c \<in> set cs"
  then have "dir_children J d p = Some cs"
    using same [of p] by auto
  then show "dir_ok p" "name_ok c" "stat_at d' (join p c) \<noteq> None \<or> join p c \<in> S"
    using listings_okD [OF ok] \<open>c \<in> set cs\<close> stat by blast+
qed (rule rd)

lemma listings_stat_put: "listings_ok J S d \<Longrightarrow> listings_ok J S (d(stat_id p \<mapsto> stat_bytes s))"
  by (rule listings_keep)
    (auto simp: listings_ok_def dir_children_def stat_at_def intro: abs_stat_put(2))

lemma listings_refile:
  assumes "listings_ok J S d" "refile p d d'"
  shows "listings_ok J S d'"
proof -
  have d: "d' (dentry_id q) = d (dentry_id q)" for q
    using assms(2) by (auto simp: refile_def)
  have st: "d' (stat_id q) = d (stat_id q) \<or> d (stat_id q) \<noteq> None \<and> (\<exists>s. d' (stat_id q) = Some (stat_bytes s))" for q
    using assms(2) by (cases "q = p") (auto simp: refile_def)
  have stat: "stat_at d' q \<noteq> None" if "d (stat_id q) \<noteq> None" for q
  proof -
    have "stat_at d q \<noteq> None"
      using listings_okD(1) [OF assms(1)] that by (simp add: readable_def)
    then show ?thesis
      using st [of q] stat_at_frame [of d' q d] stat_at_docs [of d' q] by auto
  qed
  show ?thesis
  proof (rule listings_keep [OF assms(1)])
    show "readable J d'"
      using listings_okD(1) [OF assms(1)] st stat d unfolding readable_def by (metis dir_children_frame)
    show "dir_children J d' q = dir_children J d q \<or> dir_children J d' q = Some [] \<or> dir_children J d' q = None" for q
      using dir_children_frame [of d' q d] d by blast
    show "stat_at d' q \<noteq> None" if "stat_at d q \<noteq> None" for q
    proof (rule stat)
      show "d (stat_id q) \<noteq> None" using that by (auto simp: stat_at_def split: option.splits)
    qed
  qed
qed

lemma listings_stat_del:
  "listings_ok J S d \<Longrightarrow> p \<in> S \<Longrightarrow> listings_ok J S (d(stat_id p := None))"
  by (rule listings_keep)
    (auto simp: listings_ok_def dir_children_def stat_at_def intro: abs_stat_del(2))

lemma listings_block: "listings_ok J S d \<Longrightarrow> listings_ok J S (d(block_id p := v))"
  by (rule listings_refile [of _ _ _ p]) (auto simp: refile_def)

lemma listings_dentry_del: "listings_ok J S d \<Longrightarrow> listings_ok J S (d(dentry_id p := None))"
  by (rule listings_keep)
    (auto simp: listings_ok_def dir_children_def stat_at_def intro: abs_dentry_del(2))

lemma listings_dentry_new:
  assumes "listings_ok J S d" "dir_children J (d(dentry_id p \<mapsto> t)) p = Some []"
  shows "listings_ok J S (d(dentry_id p \<mapsto> t))"
proof (rule listings_keep [OF assms(1)])
  show "readable J (d(dentry_id p \<mapsto> t))"
    using abs_dentry_put(2) [OF refl assms(2)] listings_okD(1) [OF assms(1)] by simp
  show "dir_children J (d(dentry_id p \<mapsto> t)) q = dir_children J d q \<or> dir_children J (d(dentry_id p \<mapsto> t)) q = Some []
      \<or> dir_children J (d(dentry_id p \<mapsto> t)) q = None" for q
    using assms(2) by (cases "q = p") (auto simp: dir_children_def)
qed (simp add: stat_at_def)

lemma listings_relisted:
  assumes ok: "listings_ok J S d" and r: "relisted J p f d d'"
    and new: "\<And>cs c. dir_children J d p = Some cs \<Longrightarrow> c \<in> set (f cs) \<Longrightarrow> c \<in> set cs
      \<or> dir_ok p \<and> name_ok c \<and> (stat_at d (join p c) \<noteq> None \<or> join p c \<in> S)"
  shows "listings_ok J S d'"
proof (cases "d' = d")
  case False
  then obtain cs t where d': "dir_children J d p = Some cs" "d' = d(dentry_id p \<mapsto> t)" "dir_children J d' p = Some (f cs)"
    using r by (auto simp: relisted_def)
  have rd: "readable J d'"
    using abs_dentry_put(2) [OF d'(2,3)] listings_okD(1) [OF ok] .
  have st: "stat_at d' q = stat_at d q" for q
    by (simp add: d'(2) stat_at_def)
  have others: "q \<noteq> p \<Longrightarrow> dir_children J d' q = dir_children J d q" for q
    by (simp add: d'(2) dir_children_def)
  show ?thesis
    unfolding listings_ok_def st
  proof (intro conjI allI impI)
    fix q cs' c
    assume a: "dir_children J d' q = Some cs'" "c \<in> set cs'"
    then show "dir_ok q" "name_ok c" "stat_at d (join q c) \<noteq> None \<or> join q c \<in> S"
      using others [of q] d'(1,3) new [OF d'(1), of c] listings_okD(2,3) [OF ok]
      by (cases "q = p"; fastforce)+
  qed (rule rd)
qed (use ok in simp)

text \<open>Every call keeps this, if the paths it removes are in \<open>S\<close>.\<close>

fun removes :: "fs_op \<Rightarrow> bool" where
  "removes (Unlink p) = True" | "removes (Rmdir p) = True" | "removes _ = False"

lemma create_faulty:
  assumes f: "faulty E D" and J: "cjson_ok (cjson E)" and p: "fuse_path p"
    and ok: "listings_ok (cjson E) S (D w)"
  shows "listings_ok (cjson E) S (D (after (cbfuse_create E p m) w))"
    "listings_ok (cjson E) S (D (after (cbfuse_mkdir E p m) w))"
proof -
  let ?J = "cjson E"
  note parts = fuse_path_parts [OF p] and shape = path_ok_parts [OF p]
  let ?add = "add_child_to_dentry E (dir_part p) (base_part p)"
  let ?new = "add_new_dentry E p p (Some (dir_part p))"
  have add: "listings_ok ?J S (D (after ?add w1))" if w1: "listings_ok ?J S (D w1)" "stat_at (D w1) p \<noteq> None" for w1
    using w1(2) shape
    by (intro listings_relisted [OF w1(1) child_ops_faulty(1) [OF f J parts(4) listings_okD(1) [OF w1(1)] parts(7)]]) auto
  have new: "listings_ok ?J S (D (after ?new w1)) \<and> stat_at (D (after ?new w1)) p \<noteq> None"
    if w1: "listings_ok ?J S (D w1)" "stat_at (D w1) p \<noteq> None" for w1
    using add_new_dentry_faulty [OF f J parts(3,5), of "Some (dir_part p)" w1] parts(6) w1 listings_dentry_new [OF w1(1), of p]
    by (auto simp: stat_at_def)
  let ?i = "insert_stat E p m"
  have ins: "listings_ok ?J S (D (after ?i w))" "result_of ?i w = 0 \<Longrightarrow> stat_at (D (after ?i w)) p \<noteq> None"
    using insert_stat_faulty [OF f parts(3), of m w] ok listings_stat_put [OF ok, of p] by auto
  show "listings_ok ?J S (D (after (cbfuse_create E p m) w))"
    using ins add ok by (simp add: cbfuse_create_def parts)
  show "listings_ok ?J S (D (after (cbfuse_mkdir E p m) w))"
    using ins add new ok by (simp add: cbfuse_mkdir_def parts)
qed

lemma unlink_faulty:
  assumes f: "faulty E D" and J: "cjson_ok (cjson E)" and p: "fuse_path p" "p \<in> S"
    and ok: "listings_ok (cjson E) S (D w)"
  shows "listings_ok (cjson E) S (D (after (cbfuse_unlink E p) w))"
    "listings_ok (cjson E) S (D (after (cbfuse_rmdir E p) w))"
proof -
  let ?J = "cjson E"
  note parts = fuse_path_parts [OF p(1)]
  let ?drop = "remove_child_from_dentry E (dir_part p) (base_part p)"
  have drop: "listings_ok ?J S (D (after ?drop w1))" if w1: "listings_ok ?J S (D w1)" for w1
    by (intro listings_relisted [OF w1 child_ops_faulty(2) [OF f J parts(4) listings_okD(1) [OF w1]]]) auto
  have del: "listings_ok ?J S (D (after (remove_stat E p) w1))" if w1: "listings_ok ?J S (D w1)" for w1
    using remove_ops_faulty(1) [OF f parts(3), of w1] listings_stat_del [OF w1 p(2)] w1 by auto
  have "listings_ok ?J S (D (after (remove_data E p) w))" "listings_ok ?J S (D (after (remove_dentry E p) w))"
    using remove_ops_faulty(2,3) [OF f parts(3), of w] listings_block [OF ok, of p None] listings_dentry_del [OF ok, of p] ok
    by auto
  then show "listings_ok ?J S (D (after (cbfuse_unlink E p) w))" "listings_ok ?J S (D (after (cbfuse_rmdir E p) w))"
    using drop del by (simp_all add: cbfuse_unlink_def cbfuse_rmdir_def parts)
qed

text \<open>The calls that only read.\<close>

lemma read_only_faulty:
  assumes "faulty E D" "key_ok p"
  shows "D (after (cbfuse_getattr E p st) w) = D w" "D (after (cbfuse_open E p) w) = D w"
    "D (after (cbfuse_readdir E p buf filler off) w) = D w"
proof -
  let ?cs = "[CmdCreate LCB_GET, CmdCollection DEFAULT_SCOPE_STRING STATS_COLLECTION_STRING]"
  define r0 where "r0 = fold apply_call ?cs new_request"
  define r where "r = fold apply_call [CmdKey p] r0"
  have r: "addressable r" "is_get r"
    using assms(2) by (simp_all add: r_def r0_def request_simps key_ok_def)
  show "D (after (cbfuse_getattr E p st) w) = D w"
    using assms(1) sync_get_outcome [OF assms(1) r] prepare_request [of E ?cs new_request w, folded r0_def]
      prepare_request [of E "[CmdKey p]" r0, folded r_def]
    by (auto simp: cbfuse_getattr_def)
  show "D (after (cbfuse_open E p) w) = D w"
    using assms by (simp add: cbfuse_open_def)
  show "D (after (cbfuse_readdir E p buf filler off) w) = D w"
    using get_dentry_json_faulty(1) [OF assms] by (simp add: cbfuse_readdir_def Let_def)
qed

lemma call_faulty:
  assumes f: "faulty E D" and J: "cjson_ok (cjson E)" and c: "fuse_call c" "removes c \<Longrightarrow> op_path c \<in> S"
    and ok: "listings_ok (cjson E) S (D w)"
  shows "listings_ok (cjson E) S (D (after (cb_filesystem_operations E filler buf c) w))"
proof -
  have k: "key_ok (op_path c)" and m: "makes_entry c \<Longrightarrow> fuse_path (op_path c)"
    using c(1) by (auto simp: fuse_call_def)
  note files = listings_refile [OF ok file_ops_faulty(1) [OF f k]] listings_refile [OF ok file_ops_faulty(2) [OF f k]]
    listings_refile [OF ok file_ops_faulty(3) [OF f k]]
    listings_refile [OF ok restat_refile [OF update_stat_faulty(3) [OF f k]]]
    listings_refile [OF ok restat_refile [OF update_stat_faulty(4) [OF f k]]]
  show ?thesis
    using m k c(2) ok files create_faulty [OF f J _ ok] unlink_faulty [OF f J _ _ ok]
    by (cases c) (simp_all add: read_only_faulty [OF f] cbfuse_read_def cbfuse_write_def cbfuse_chmod_def cbfuse_truncate_def cbfuse_utimens_def)
qed

text \<open>The bootstrap, if it reports success.\<close>

lemma insert_root_faulty:
  assumes f: "faulty E D" and J: "cjson_ok (cjson E)" and ok: "listings_ok (cjson E) S (D w)"
  shows "listings_ok (cjson E) S (D (after (insert_root E) w))"
proof -
  let ?r = ROOT_DIR_STRING
  let ?i = "insert_stat E ?r (S_IFDIR OR 0x1ED)"
  have ins: "listings_ok (cjson E) S (D (after ?i w))"
    using insert_stat_faulty [OF f root_key, of "S_IFDIR OR 0x1ED" w] ok listings_stat_put [OF ok, of ?r] by auto
  have "text_ok ?r" "text_ok (case_option [] id None)"
    by (simp_all add: text_ok_def ROOT_DIR_STRING_def)
  from add_new_dentry_faulty [OF f J root_key this, of "after ?i w"]
  have "listings_ok (cjson E) S (D (after (add_new_dentry E ?r ?r None) (after ?i w)))"
    using ins listings_dentry_new [OF ins, of ?r] by auto
  then show ?thesis
    using ins by (simp add: insert_root_def)
qed

lemma verify_root_faulty:
  assumes "faulty E D" "cjson_ok (cjson E)" "listings_ok (cjson E) S (D w)"
  shows "listings_ok (cjson E) S (D (after (verify_root E st) w))"
  using read_only_faulty(1) [OF assms(1) root_key, of st w] insert_root_faulty [OF assms(1,2), of S] assms(3)
  by (simp add: verify_root_def)

lemma mounted_faulty:
  assumes f: "faulty E D" and J: "cjson_ok (cjson E)"
    and m: "mounted E D (\<lambda>_ c. fuse_call c \<and> (removes c \<longrightarrow> op_path c \<in> S)) w"
  shows "listings_ok (cjson E) S (D w)"
  using m
proof (induction rule: mounted.induct)
  case (boot w st)
  then have "listings_ok (cjson E) S (D w)"
    by (simp add: listings_ok_def readable_def dir_children_def)
  then show ?case
    by (rule verify_root_faulty [OF f J])
next
  case (run w c r w')
  from run(2) show ?case
  proof (cases rule: fs_step.cases)
    case call
    then show ?thesis
      using call_faulty [OF f J _ _ run.IH, of c "\<lambda>b n off. (0, b)" "()"] by simp
  qed
qed

end
