(* ===== verification/FaultEx.thy ===== *)
theory FaultEx
  imports Example Faults
begin

text \<open>
  A bucket in memory whose answers to the replacement of a directory's document time out, with the
  replacement carried out or lost. The witnesses of the theorems on faults are evaluated in it.
  Nothing here is a model of the program.
\<close>

section \<open>A bucket that loses answers\<close>

definition relists :: "lcb_request \<Rightarrow> bool" where
  "relists r \<longleftrightarrow> rq_op r = LCB_STORE_REPLACE \<and> rq_collection r = DENTRIES_COLLECTION_STRING"

definition late_wait :: "bool \<Rightarrow> mem \<Rightarrow> (lcb_status \<times> lcb_response list) \<times> mem" where
  "late_wait kept w = (case mem_pending w of
     None \<Rightarrow> mem_wait w
   | Some r \<Rightarrow> (if relists r
       then ((LCB_SUCCESS, [(kv_response (mem_view w) (mem_cas w) r)\<lparr>rs_status := LCB_ERR_TIMEOUT\<rparr>]),
             if kept then mem_serve r w else w\<lparr>mem_pending := None\<rparr>)
       else mem_wait w))"

definition late_env :: "bool \<Rightarrow> mem env" where
  "late_env kept = mem_env\<lparr>lcb_wait := State (late_wait kept)\<rparr>"

lemma late_env_calls [simp]:
  "lcb_cmd (late_env k) c = State_Monad.return LCB_SUCCESS" "lcb_submit (late_env k) = lcb_submit mem_env"
  "clock_gettime (late_env k) = clock_gettime mem_env" "malloc (late_env k) = malloc mem_env"
  "fuse_context (late_env k) = fuse_context mem_env" "lcb_cmd_destroy (late_env k) = lcb_cmd_destroy mem_env"
  "cjson (late_env k) = ref_cjson" "lcb_wait (late_env k) = State (late_wait k)"
  by (simp_all add: late_env_def)

lemma late_wait_submitted:
  "late_wait k (submitted mem_env r w) = (if relists r
     then ((LCB_SUCCESS, [(kv_response (mem_view w) (mem_cas w) r)\<lparr>rs_status := LCB_ERR_TIMEOUT\<rparr>]),
       if k then served mem_env r w else w\<lparr>mem_pending := None\<rparr>)
     else ((LCB_SUCCESS, [kv_response (mem_view w) (mem_cas w) r]), served mem_env r w))"
  by (simp add: late_wait_def mem_wait_def submitted_def served_def mem_env_def)

lemma mem_view_submitted [simp]: "mem_view (submitted mem_env r w) = mem_view w"
  by (simp add: submitted_def mem_env_def)

lemma late_env_faulty [simp]: "faulty (late_env k) mem_view"
proof -
  have "served_or_failed (late_env k) mem_view r w" for r w
  proof (cases "relists r")
    case True
    then show ?thesis
      unfolding served_or_failed_def
      by (intro exI [of _ "mem_cas w"])
        (auto simp: submitted_def [of "late_env k"] served_def [of "late_env k"] submitted_def [of mem_env, symmetric]
          late_wait_submitted failed_answer_def)
  next
    case False
    then show ?thesis
      unfolding served_or_failed_def
      by (intro exI [of _ "mem_cas w"])
        (auto simp: submitted_def [of "late_env k"] served_def [of "late_env k"] submitted_def [of mem_env, symmetric]
          late_wait_submitted)
  qed
  then show ?thesis
    by (simp add: faulty_def)
qed

lemma late_prepare: "lcb_prepare (late_env k) cs r = lcb_prepare mem_env cs r"
  by (induction cs arbitrary: r) (simp_all add: lcb_prepare.simps)

lemma mem_prepare: "lcb_prepare mem_env cs r = State_Monad.return (LCB_SUCCESS, fold apply_call cs r)"
  by (induction cs arbitrary: r) (simp_all add: lcb_prepare.simps)

lemma mem_submit: "after (lcb_submit mem_env r) w = submitted mem_env r w" "after (lcb_cmd_destroy mem_env) w = w"
  by (simp_all add: submitted_def mem_env_def)

lemma mem_wait_answer:
  "lcb_wait mem_env = State mem_wait"
  "mem_wait (submitted mem_env r w) = ((LCB_SUCCESS, [kv_response (mem_view w) (mem_cas w) r]), served mem_env r w)"
  by (simp_all add: submitted_def served_def mem_wait_def mem_env_def)

lemma late_callback: "sync_get_callback (late_env k) resp res = sync_get_callback mem_env resp res"
proof -
  have "copy_value (late_env k) v = copy_value mem_env v" for v by (simp add: copy_value_def)
  then show ?thesis by (simp add: sync_get_callback_def Let_def cong: if_cong)
qed

lemma late_request:
  "\<not> relists r \<Longrightarrow> sync_store (late_env k) r = sync_store mem_env r"
  "\<not> relists r \<Longrightarrow> sync_remove (late_env k) r = sync_remove mem_env r"
  "\<not> relists r \<Longrightarrow> sync_get (late_env k) r = sync_get mem_env r"
  by (rule state_eqI; simp add: sync_store_def sync_remove_def sync_get_def mem_submit mem_wait_answer late_wait_submitted late_callback)+

lemma late_relist:
  assumes "relists r"
  shows "result_of (sync_store (late_env k) r) w = (LCB_SUCCESS, \<lparr>sr_status = LCB_ERR_TIMEOUT\<rparr>)"
    "mem_view (after (sync_store (late_env k) r) w) = mem_view (if k then after (sync_store mem_env r) w else w)"
  using assms
  by (simp_all add: sync_store_def mem_submit mem_wait_answer late_wait_submitted kv_response_def sync_store_callback_def)

section \<open>The same runs\<close>

text \<open>Every operation but the replacement of a directory's document runs as in the bucket in memory.\<close>

lemma late_same:
  "insert_stat (late_env k) p m = insert_stat mem_env p m" "remove_stat (late_env k) p = remove_stat mem_env p"
  "remove_data (late_env k) p = remove_data mem_env p" "get_dentry_json (late_env k) p = get_dentry_json mem_env p"
  "add_new_dentry (late_env k) p d q = add_new_dentry mem_env p d q"
  "cbfuse_getattr (late_env k) p st = cbfuse_getattr mem_env p st"
  by (rule state_eqI; simp add: insert_stat_def remove_stat_def remove_data_def get_dentry_json_def
      add_new_dentry_def cbfuse_getattr_def late_prepare mem_prepare request_simps late_request relists_def
      split: option.split)+

lemma late_replace:
  "result_of (replace_dentry (late_env k) p j) w = - ENOENT"
  "mem_view (after (replace_dentry (late_env k) p j) w) = mem_view (if k then after (replace_dentry mem_env p j) w else w)"
  by (simp_all add: replace_dentry_def late_prepare mem_prepare request_simps late_relist relists_def
      ref_cjson_def stored_def)

lemma late_verify_root: "verify_root (late_env k) st = verify_root mem_env st"
  by (rule state_eqI; simp add: verify_root_def insert_root_def late_same)

lemma late_mounted: "mounted (late_env k) mem_view allowed mem_mounted"
  using mounted.boot [of mem_view mem_empty "late_env k" some_attr allowed]
    verify_root_empty(1) [OF mem_world_ok mem_view_empty, of some_attr]
  by (simp add: late_verify_root mem_mounted_def)

text \<open>The file \<open>/a\<close> is created, and the answer to the change of the root's listing is late.\<close>

definition late_file :: mem where
  "late_file = after (cbfuse_create (late_env True) ''/a'' 0x81A4) mem_mounted"

lemma late_add_view:
  "mem_view (after (add_child_to_dentry (late_env True) p c) w) = mem_view (after (add_child_to_dentry mem_env p c) w)"
  by (simp add: add_child_to_dentry_def Let_def late_same late_replace split: option.split)

lemma late_file_view: "mem_view late_file = mem_view mem_file"
  by (simp add: late_file_def mem_file_def mem_call_def cbfuse_create_def late_same late_add_view
      split: option.split)

lemma late_file_mounted:
  assumes "allowed (mem_view mem_mounted) (Create ''/a'' 0x81A4)"
  shows "mounted (late_env True) mem_view allowed late_file"
  unfolding late_file_def
  using mounted_call [where E = "late_env True" and D = mem_view and c = "Create ''/a'' 0x81A4"] late_mounted assms
  by fastforce

lemma late_file_dir: "dir_children ref_cjson (mem_view late_file) ''/'' = Some [''a'']"
  by (simp add: late_file_view mem_file_dir)

text \<open>In the bucket that loses the replacement, \<open>/a\<close> is removed.\<close>

lemma lost_relisting:
  assumes "key_ok p"
  shows "mem_view (after (remove_child_from_dentry (late_env False) p c) w) = mem_view w"
  using get_dentry_json_faulty(1) [OF late_env_faulty assms, of False w]
  by (simp add: remove_child_from_dentry_def Let_def late_same late_replace split: option.split)

end
