(* ===== verification/FaultSpec.thy ===== *)
theory FaultSpec
  imports FaultEx
begin

text \<open>
  What holds of the listings when calls of the library fail and the program sees it, and the
  place where it does not.
\<close>

text \<open>
  C39. Failures that the program can see do not make listings dangle: whatever calls are refused or
  answered with an error, and whether or not the server carried out the requests that were, in
  every state of a mounted file system a name in the listing of a directory is that of a path with
  attributes, or of one that a caller asked to remove. Requests that are lost without a response
  while the wait succeeds are excluded; with them it does not hold (C26).
\<close>

theorem listings_survive_faults:
  assumes "faulty E D" "cjson_ok (cjson E)"
    and "mounted E D (\<lambda>_ c. fuse_call c \<and> (removes c \<longrightarrow> op_path c \<in> removed_paths)) w"
    and "dir_children (cjson E) (D w) d = Some cs" "c \<in> set cs"
  shows "stat_at (D w) (join d c) \<noteq> None \<or> join d c \<in> removed_paths"
  using listings_okD(3) [OF mounted_faulty [OF assms(1-3)] assms(4,5)] by blast

theorem listings_survive_faults_witness: "stat_at (mem_view late_file) ''/a'' \<noteq> None"
proof -
  have "mounted (late_env True) mem_view (\<lambda>_ c. fuse_call c \<and> (removes c \<longrightarrow> op_path c \<in> {})) late_file"
    by (rule late_file_mounted) simp
  from listings_survive_faults [OF late_env_faulty _ this, of "''/''" "[''a'']" "''a''"] show ?thesis
    by (simp add: late_file_dir join_def)
qed

text \<open>
  C40. \<open>cbfuse_unlink\<close> looks at the result of the last of its three steps only: if the change of the
  parent's listing is lost, it removes the stat nevertheless and reports success, and the name it
  leaves in the listing dangles.
\<close>

theorem unlink_hides_lost_relisting:
  assumes "faulty E D" "fuse_path p"
    and "dir_children (cjson E) (D w) (dir_part p) = Some cs" "base_part p \<in> set cs"
  defines "w1 \<equiv> after (remove_data E p) w"
  defines "w2 \<equiv> after (remove_child_from_dentry E (dir_part p) (base_part p)) w1"
  assumes "D w2 = D w1" "result_of (remove_stat E p) w2 = 0"
  shows "result_of (cbfuse_unlink E p) w = 0 \<and>
    dir_children (cjson E) (D (after (cbfuse_unlink E p) w)) (dir_part p) = Some cs \<and>
    stat_at (D (after (cbfuse_unlink E p) w)) p = None"
proof -
  note parts = fuse_path_parts [OF assms(2)]
  have "D w2 = D w \<or> D w2 = (D w)(block_id p := None)"
    using remove_ops_faulty(3) [OF assms(1) parts(3), of w] assms(7) by (simp add: w1_def)
  moreover have "D (after (remove_stat E p) w2) = (D w2)(stat_id p := None)"
    by (rule remove_ops_faulty(4) [OF assms(1) parts(3) assms(8)])
  ultimately show ?thesis
    using assms(3,8) by (auto simp: cbfuse_unlink_def parts w1_def w2_def dir_children_def stat_at_def)
qed

theorem unlink_hides_lost_relisting_witness:
  "result_of (cbfuse_unlink (late_env False) ''/a'') mem_file = 0 \<and>
    dir_children ref_cjson (mem_view (after (cbfuse_unlink (late_env False) ''/a'') mem_file)) ''/'' = Some [''a''] \<and>
    stat_at (mem_view (after (cbfuse_unlink (late_env False) ''/a'') mem_file)) ''/a'' = None"
proof -
  let ?E = "late_env False"
  have k: "key_ok ''/''"
    by (simp add: key_ok_def)
  let ?w1 = "after (remove_data ?E ''/a'') mem_file"
  let ?w2 = "after (remove_child_from_dentry ?E ''/'' ''a'') ?w1"
  have d: "mem_view ?w2 = mem_view ?w1"
    by (rule lost_relisting [OF k])
  have "mem_view ?w2 (stat_id ''/a'') \<noteq> None"
    using mem_file_stat remove_ops_faulty(3) [OF late_env_faulty key_ok_a, of False mem_file]
    by (auto simp: d stat_at_docs)
  then have "result_of (remove_stat ?E ''/a'') ?w2 = 0"
    using remove_stat_spec [of mem_env mem_view mem_cas "''/a''" ?w2]
    by (auto simp: late_same)
  then show ?thesis
    using unlink_hides_lost_relisting [OF late_env_faulty fuse_path_a, of False mem_file] d
    by (simp add: parts_a mem_file_dir)
qed

end
