(* ===== verification/Chains.thy ===== *)
theory Chains
  imports Prelude
begin

text \<open>
  Doubly linked lists in memory, as uthash keeps two of: the list of all elements in
  application order and the chain of each bucket. A list is given by the two link fields as
  functions from nodes to optional nodes (\<open>None\<close> is \<open>NULL\<close>). The lemmas say what the four
  ways of changing such a list do (prepend, append, insert before a node, unlink a node) and
  that a list without end cannot occur.
\<close>

section \<open>Segments and lists\<close>

text \<open>
  \<open>dseg nx pv a p xs q\<close>: following \<open>nx\<close> from \<open>p\<close> one meets the nodes \<open>xs\<close> and arrives at
  \<open>q\<close>; the back links \<open>pv\<close> of these nodes lead to the node before, the first one to \<open>a\<close>.
\<close>

primrec dseg :: "('a \<Rightarrow> 'a option) \<Rightarrow> ('a \<Rightarrow> 'a option) \<Rightarrow> 'a option \<Rightarrow> 'a option \<Rightarrow> 'a list \<Rightarrow>
    'a option \<Rightarrow> bool" where
  "dseg nx pv a p [] q \<longleftrightarrow> p = q"
| "dseg nx pv a p (x # xs) q \<longleftrightarrow> p = Some x \<and> pv x = a \<and> dseg nx pv (Some x) (nx x) xs q"

abbreviation dlist :: "('a \<Rightarrow> 'a option) \<Rightarrow> ('a \<Rightarrow> 'a option) \<Rightarrow> 'a option \<Rightarrow> 'a list \<Rightarrow> bool" where
  "dlist nx pv p xs \<equiv> dseg nx pv None p xs None"

definition first_or :: "'a option \<Rightarrow> 'a list \<Rightarrow> 'a option" where
  "first_or q xs = (case xs of [] \<Rightarrow> q | x # _ \<Rightarrow> Some x)"

definition last_or :: "'a option \<Rightarrow> 'a list \<Rightarrow> 'a option" where
  "last_or a xs = (if xs = [] then a else Some (last xs))"

lemma first_or_simps [simp]: "first_or q [] = q" "first_or q (x # xs) = Some x"
  by (simp_all add: first_or_def)

lemma last_or_simps [simp]: "last_or a [] = a" "last_or a (x # xs) = last_or (Some x) xs"
  "last_or a (xs @ [x]) = Some x"
  by (simp_all add: last_or_def)

lemma first_or_append: "first_or q (xs @ ys) = first_or (first_or q ys) xs"
  by (cases xs) simp_all

lemma last_or_append: "last_or a (xs @ ys) = last_or (last_or a xs) ys"
  by (simp add: last_or_def)

lemma first_or_None: "first_or None xs = None \<longleftrightarrow> xs = []"
  by (cases xs) simp_all

lemma last_or_None: "last_or None xs = None \<longleftrightarrow> xs = []"
  by (simp add: last_or_def)

lemma last_or_Some: "xs \<noteq> [] \<Longrightarrow> last_or a xs = Some (last xs)"
  by (simp add: last_or_def)

lemma last_or_in: "last_or None xs = Some x \<Longrightarrow> x \<in> set xs"
  by (auto simp: last_or_def split: if_splits)

lemma first_or_in: "first_or None xs = Some x \<Longrightarrow> x \<in> set xs"
  by (cases xs) auto

lemma dseg_start: "dseg nx pv a p xs q \<Longrightarrow> p = first_or q xs"
  by (cases xs) simp_all

lemma dseg_append:
  "dseg nx pv a p (xs @ ys) q \<longleftrightarrow>
   dseg nx pv a p xs (first_or q ys) \<and> dseg nx pv (last_or a xs) (first_or q ys) ys q"
proof (induction xs arbitrary: a p)
  case Nil
  then show ?case by (auto dest: dseg_start)
next
  case (Cons x xs)
  then show ?case by auto
qed

lemma dseg_frame:
  "(\<And>x. x \<in> set xs \<Longrightarrow> nx' x = nx x) \<Longrightarrow> (\<And>x. x \<in> set xs \<Longrightarrow> pv' x = pv x) \<Longrightarrow>
   dseg nx' pv' a p xs q = dseg nx pv a p xs q"
  by (induction xs arbitrary: a p) auto

lemma dseg_upd [simp]:
  "y \<notin> set xs \<Longrightarrow> dseg (nx(y := v)) pv a p xs q = dseg nx pv a p xs q"
  "y \<notin> set xs \<Longrightarrow> dseg nx (pv(y := v)) a p xs q = dseg nx pv a p xs q"
  by (rule dseg_frame; auto)+

lemma dseg_unique:
  "dseg nx pv a p xs None \<Longrightarrow> dseg nx pv b p ys None \<Longrightarrow> xs = ys"
proof (induction xs arbitrary: a b p ys)
  case Nil
  then show ?case by (cases ys) simp_all
next
  case (Cons x xs)
  then show ?case by (cases ys) auto
qed

text \<open>A list that ends has no node twice, so no loop that follows it runs forever.\<close>

lemma dseg_distinct: "dseg nx pv a p xs None \<Longrightarrow> distinct xs"
proof (induction xs arbitrary: a p)
  case (Cons x xs)
  have tail: "dseg nx pv (Some x) (nx x) xs None"
    using Cons.prems by simp
  have "x \<notin> set xs"
  proof
    assume "x \<in> set xs"
    then obtain ys zs where xs: "xs = ys @ x # zs"
      by (meson split_list)
    then have "dseg nx pv (last_or (Some x) ys) (Some x) (x # zs) None"
      using tail by (simp add: dseg_append)
    then have "dseg nx pv (Some x) (nx x) zs None"
      by simp
    then show False
      using dseg_unique [OF tail] xs by fastforce
  qed
  then show ?case
    using Cons.IH [OF tail] by simp
qed simp

lemma dlist_ends:
  assumes "dlist nx pv p (ys @ x # zs)"
  shows "pv x = last_or None ys" "nx x = first_or None zs"
  using assms dseg_start by (fastforce simp: dseg_append)+

section \<open>Changing a list\<close>

text \<open>\<open>if (p != NULL) p->field = v\<close>\<close>

definition upd_opt :: "('a \<Rightarrow> 'b) \<Rightarrow> 'a option \<Rightarrow> 'b \<Rightarrow> 'a \<Rightarrow> 'b" where
  "upd_opt f p v = (case p of None \<Rightarrow> f | Some x \<Rightarrow> f(x := v))"

lemma upd_opt_simps [simp]: "upd_opt f None v = f" "upd_opt f (Some x) v = f(x := v)"
  by (simp_all add: upd_opt_def)

text \<open>The part before a change ends at a new node, the part after it starts at a new one.\<close>

lemma dseg_last_nx:
  assumes "dseg nx pv a p xs q" and "distinct xs"
  shows "dseg (upd_opt nx (last_or None xs) r) pv a (if xs = [] then r else p) xs r"
  using assms
proof (induction xs arbitrary: a p)
  case (Cons x xs)
  show ?case
  proof (cases "xs = []")
    case False
    then obtain l where l: "last_or None xs = Some l" "last_or None (x # xs) = Some l" "l \<in> set xs"
      by (cases xs) (auto simp: last_or_def)
    then have "l \<noteq> x"
      using Cons.prems by auto
    moreover have "dseg (nx(l := r)) pv (Some x) (nx x) xs r"
      using Cons l False by fastforce
    ultimately show ?thesis
      using Cons.prems l by (auto simp: fun_upd_other simp del: fun_upd_apply)
  qed (use Cons.prems in auto)
qed simp

lemma dseg_first_pv:
  assumes "dseg nx pv a p xs q" and "distinct xs"
  shows "dseg nx (upd_opt pv (first_or None xs) b) b p xs q"
  using assms by (cases xs) simp_all

text \<open>\<open>xs @ ys\<close> becomes \<open>xs @ zs @ ys\<close>, where \<open>zs\<close> is linked already but for its ends.\<close>

lemma dlist_join:
  assumes "dseg nx pv None p xs r" and "dseg nx pv b q ys None"
    and dis: "distinct (xs @ ys)"
  shows "dlist (upd_opt nx (last_or None xs) q) (upd_opt pv (first_or None ys) (last_or None xs))
     (if xs = [] then q else p) (xs @ ys)"
proof -
  let ?nx = "upd_opt nx (last_or None xs) q" and ?pv = "upd_opt pv (first_or None ys) (last_or None xs)"
  have q: "q = first_or None ys"
    by (rule dseg_start) (rule assms(2))
  have "dseg ?nx ?pv None (if xs = [] then q else p) xs q
      = dseg ?nx pv None (if xs = [] then q else p) xs q"
    using dis by (intro dseg_frame) (cases ys; auto)+
  moreover have "dseg ?nx pv None (if xs = [] then q else p) xs q"
    using dseg_last_nx [OF assms(1)] dis by simp
  moreover have "dseg ?nx ?pv (last_or None xs) q ys None = dseg nx ?pv (last_or None xs) q ys None"
    using dis by (intro dseg_frame) (auto simp: last_or_def dest: last_in_set)
  moreover have "dseg nx ?pv (last_or None xs) q ys None"
    using dseg_first_pv [OF assms(2)] dis by simp
  ultimately show ?thesis
    using q by (simp add: dseg_append)
qed

lemma dlist_unlink:
  assumes "dlist nx pv p (xs @ x # ys)"
  shows "dlist (upd_opt nx (pv x) (nx x)) (upd_opt pv (nx x) (pv x))
     (if pv x = None then nx x else p) (xs @ ys)"
proof -
  have ends: "pv x = last_or None xs" "nx x = first_or None ys"
    using dlist_ends [OF assms] by auto
  have dis: "distinct (xs @ x # ys)"
    by (rule dseg_distinct [OF assms])
  have "dseg nx pv None p xs (Some x)" "dseg nx pv (Some x) (nx x) ys None"
    using assms by (simp_all add: dseg_append)
  then have "dlist (upd_opt nx (last_or None xs) (nx x)) (upd_opt pv (first_or None ys) (last_or None xs))
     (if xs = [] then nx x else p) (xs @ ys)"
    using dis by (intro dlist_join) auto
  then show ?thesis
    using ends by (simp add: last_or_None)
qed

lemma dlist_insert:
  assumes "dlist nx pv p (xs @ ys)" and "x \<notin> set (xs @ ys)"
    and "nx x = first_or None ys" and "pv x = last_or None xs"
  shows "dlist (upd_opt nx (last_or None xs) (Some x)) (upd_opt pv (first_or None ys) (Some x))
     (if xs = [] then Some x else p) (xs @ x # ys)"
proof -
  have dis: "distinct (xs @ ys)"
    by (rule dseg_distinct [OF assms(1)])
  have xs: "dseg nx pv None p xs (first_or None ys)"
    and ys: "dseg nx pv (last_or None xs) (first_or None ys) ys None"
    using assms(1) by (simp_all add: dseg_append)
  have ys': "dseg nx (upd_opt pv (first_or None ys) (Some x)) (Some x) (first_or None ys) ys None"
    using dseg_first_pv [OF ys] dis by simp
  have pvx: "upd_opt pv (first_or None ys) (Some x) x = last_or None xs"
    using assms(2,4) by (cases ys) auto
  let ?pv = "upd_opt pv (first_or None ys) (Some x)"
  have "dseg nx ?pv None p xs (first_or None ys)"
    using xs dis by (subst dseg_frame [where pv = pv and nx = nx]) (cases ys; auto)+
  moreover have "dseg nx ?pv (last_or None xs) (Some x) (x # ys) None"
    using ys' pvx assms(3) by simp
  moreover have "distinct (xs @ x # ys)"
    using dis assms(2) by auto
  ultimately have "dlist (upd_opt nx (last_or None xs) (Some x))
     (upd_opt ?pv (first_or None (x # ys)) (last_or None xs)) (if xs = [] then Some x else p) (xs @ x # ys)"
    by (rule dlist_join)
  moreover have "upd_opt ?pv (first_or None (x # ys)) (last_or None xs) = ?pv"
    using pvx by (simp add: fun_upd_idem)
  ultimately show ?thesis
    by simp
qed

end
