(* ===== verification/UtHash.thy ===== *)
theory UtHash
  imports Chains
begin

text \<open>
  The hash table of \<open>src/contrib/uthash/uthash.h\<close>: its structures and its macros, each a
  function from the memory before to the memory after.

  An element of the user is a node; its \<open>UT_hash_handle\<close> is the member \<open>hh\<close> at a fixed offset
  \<open>hho\<close>, so one address stands for the element and for its handle (\<open>ELMT_FROM_HH\<close> and
  \<open>HH_FROM_ELMT\<close> are the identity). A key is the list of the \<open>keylen\<close> bytes at its address.
  The user's variable \<open>head\<close>, which the macros assign, is an argument and part of the result.
  Loops that follow pointers are partial functions, \<open>None\<close> when they run forever. The result
  of a macro that allocates is \<open>Inl (-1)\<close> when \<open>uthash_fatal\<close> ends the process.
\<close>

section \<open>Structures\<close>

type_synonym ptr = nat

record UT_hash_bucket =
  hh_head :: "ptr option"
  count :: unsigned
  expand_mult :: unsigned

record UT_hash_table =
  buckets :: "UT_hash_bucket list"
  num_buckets :: unsigned
  log2_num_buckets :: unsigned
  num_items :: unsigned
  tail :: "ptr option"
  ideal_chain_maxlen :: unsigned
  nonideal_items :: unsigned
  ineff_expands :: unsigned
  noexpand :: unsigned
  signature :: unsigned

record UT_hash_handle =
  tbl :: "ptr option"
  prev :: "ptr option"
  nxt :: "ptr option"
  hh_prev :: "ptr option"
  hh_next :: "ptr option"
  key :: "byte list"
  keylen :: unsigned
  hashv :: unsigned

text \<open>Memory: the handle of every element, and the tables that are allocated.\<close>

type_synonym handles = "ptr \<Rightarrow> UT_hash_handle"

record hash_mem =
  hh :: handles
  tables :: "ptr \<Rightarrow> UT_hash_table option"

definition HASH_INITIAL_NUM_BUCKETS :: unsigned where "HASH_INITIAL_NUM_BUCKETS = 32"
definition HASH_INITIAL_NUM_BUCKETS_LOG2 :: unsigned where "HASH_INITIAL_NUM_BUCKETS_LOG2 = 5"
definition HASH_BKT_CAPACITY_THRESH :: unsigned where "HASH_BKT_CAPACITY_THRESH = 10"
definition HASH_SIGNATURE :: unsigned where "HASH_SIGNATURE = 0xa0111fe1"

definition sizeof_table :: nat where "sizeof_table = 64"
definition sizeof_bucket :: nat where "sizeof_bucket = 16"
definition sizeof_handle :: nat where "sizeof_handle = 56"

text \<open>A bucket, and a table but for its buckets, after \<open>uthash_bzero\<close>.\<close>

definition zero_bucket :: UT_hash_bucket where
  "zero_bucket = \<lparr>hh_head = None, count = 0, expand_mult = 0\<rparr>"

definition zero_table :: UT_hash_table where
  "zero_table = \<lparr>buckets = [], num_buckets = 0, log2_num_buckets = 0, num_items = 0, tail = None,
     ideal_chain_maxlen = 0, nonideal_items = 0, ineff_expands = 0, noexpand = 0, signature = 0\<rparr>"

subsection \<open>Assignments through a pointer\<close>

definition set_tbl :: "ptr \<Rightarrow> ptr option \<Rightarrow> handles \<Rightarrow> handles" where
  "set_tbl p v m = m(p := (m p)\<lparr>tbl := v\<rparr>)"
definition set_prev :: "ptr \<Rightarrow> ptr option \<Rightarrow> handles \<Rightarrow> handles" where
  "set_prev p v m = m(p := (m p)\<lparr>prev := v\<rparr>)"
definition set_nxt :: "ptr \<Rightarrow> ptr option \<Rightarrow> handles \<Rightarrow> handles" where
  "set_nxt p v m = m(p := (m p)\<lparr>nxt := v\<rparr>)"
definition set_hh_prev :: "ptr \<Rightarrow> ptr option \<Rightarrow> handles \<Rightarrow> handles" where
  "set_hh_prev p v m = m(p := (m p)\<lparr>hh_prev := v\<rparr>)"
definition set_hh_next :: "ptr \<Rightarrow> ptr option \<Rightarrow> handles \<Rightarrow> handles" where
  "set_hh_next p v m = m(p := (m p)\<lparr>hh_next := v\<rparr>)"
definition set_key :: "ptr \<Rightarrow> byte list \<Rightarrow> unsigned \<Rightarrow> handles \<Rightarrow> handles" where
  "set_key p k hv m = m(p := (m p)\<lparr>hashv := hv, key := k, keylen := of_nat (length k)\<rparr>)"

text \<open>\<open>if (p != NULL) p->field = v\<close>\<close>

definition if_set :: "(ptr \<Rightarrow> ptr option \<Rightarrow> handles \<Rightarrow> handles) \<Rightarrow> ptr option \<Rightarrow> ptr option \<Rightarrow> handles \<Rightarrow>
    handles" where
  "if_set set_field p v m = (case p of None \<Rightarrow> m | Some q \<Rightarrow> set_field q v m)"

text \<open>\<open>p->hh.tbl\<close>, what it points to, and an assignment to its fields.\<close>

definition tbl_of :: "hash_mem \<Rightarrow> ptr \<Rightarrow> ptr" where
  "tbl_of s p = the (tbl (hh s p))"

definition table_at :: "hash_mem \<Rightarrow> ptr \<Rightarrow> UT_hash_table" where
  "table_at s t = the (tables s t)"

definition upd_hh :: "(handles \<Rightarrow> handles) \<Rightarrow> hash_mem \<Rightarrow> hash_mem" where
  "upd_hh f s = s\<lparr>hh := f (hh s)\<rparr>"

definition upd_table :: "ptr \<Rightarrow> (UT_hash_table \<Rightarrow> UT_hash_table) \<Rightarrow> hash_mem \<Rightarrow> hash_mem" where
  "upd_table t f s = s\<lparr>tables := (tables s)(t \<mapsto> f (table_at s t))\<rparr>"

definition upd_bucket :: "nat \<Rightarrow> (UT_hash_bucket \<Rightarrow> UT_hash_bucket) \<Rightarrow> UT_hash_table \<Rightarrow> UT_hash_table"
  where "upd_bucket i f T = T\<lparr>buckets := (buckets T)[i := f (buckets T ! i)]\<rparr>"

section \<open>Finding\<close>

definition HASH_TO_BKT :: "unsigned \<Rightarrow> unsigned \<Rightarrow> unsigned" where
  "HASH_TO_BKT hv num_bkts = hv AND (num_bkts - 1)"

text \<open>\<open>memcmp\<close>: zero iff the first \<open>n\<close> bytes agree.\<close>

definition HASH_KEYCMP :: "byte list \<Rightarrow> byte list \<Rightarrow> nat \<Rightarrow> int" where
  "HASH_KEYCMP a b n = (if take n a = take n b then 0 else 1)"

definition key_matches :: "byte list \<Rightarrow> unsigned \<Rightarrow> UT_hash_handle \<Rightarrow> bool" where
  "key_matches k hv h \<longleftrightarrow> hashv h = hv \<and> keylen h = of_nat (length k)
     \<and> HASH_KEYCMP (key h) k (length k) = 0"

partial_function (option) find_loop ::
    "(UT_hash_handle \<Rightarrow> bool) \<Rightarrow> handles \<Rightarrow> ptr option \<Rightarrow> ptr option option" where
  "find_loop matches m out =
     (case out of None \<Rightarrow> Some None
      | Some p \<Rightarrow> if matches (m p) then Some (Some p) else find_loop matches m (hh_next (m p)))"

definition HASH_FIND_IN_BKT :: "handles \<Rightarrow> UT_hash_bucket \<Rightarrow> byte list \<Rightarrow> unsigned \<Rightarrow>
    ptr option option" where
  "HASH_FIND_IN_BKT m b k hv = find_loop (key_matches k hv) m (hh_head b)"

definition HASH_FIND_BYHASHVALUE :: "byte list \<Rightarrow> unsigned \<Rightarrow> ptr option \<Rightarrow> hash_mem \<Rightarrow>
    ptr option option" where
  "HASH_FIND_BYHASHVALUE k hv head s =
     (case head of None \<Rightarrow> Some None
      | Some h \<Rightarrow>
        let T = table_at s (tbl_of s h);
            bkt = HASH_TO_BKT hv (num_buckets T)
        in HASH_FIND_IN_BKT (hh s) (buckets T ! unat bkt) k hv)"

definition HASH_FIND :: "(byte list \<Rightarrow> unsigned) \<Rightarrow> byte list \<Rightarrow> ptr option \<Rightarrow> hash_mem \<Rightarrow>
    ptr option option" where
  "HASH_FIND HASH_FUNCTION k head s = HASH_FIND_BYHASHVALUE k (HASH_FUNCTION k) head s"

section \<open>Buckets\<close>

definition HASH_DEL_IN_BKT :: "ptr \<Rightarrow> nat \<Rightarrow> ptr \<Rightarrow> hash_mem \<Rightarrow> hash_mem" where
  "HASH_DEL_IN_BKT t i del s =
     (let m = hh s;
          s1 = upd_table t (upd_bucket i (\<lambda>b. b\<lparr>count := count b - 1,
                 hh_head := (if hh_head b = Some del then hh_next (m del) else hh_head b)\<rparr>)) s
      in upd_hh (\<lambda>m. let m1 = if_set set_hh_next (hh_prev (m del)) (hh_next (m del)) m
                     in if_set set_hh_prev (hh_next (m1 del)) (hh_prev (m1 del)) m1) s1)"

text \<open>
  Expansion: every chain in turn, every handle of the chain in turn, moves to the front of its
  chain in the new bucket array. The state of the loops is the handles, the new buckets and
  \<open>nonideal_items\<close>.
\<close>

type_synonym expansion = "handles \<times> UT_hash_bucket list \<times> unsigned"

fun expand_step :: "unsigned \<Rightarrow> unsigned \<Rightarrow> ptr \<Rightarrow> expansion \<Rightarrow> expansion" where
  "expand_step nb ideal thh (m, bs, nonideal) =
     (let i = unat (HASH_TO_BKT (hashv (m thh)) nb);
          b = bs ! i;
          c = count b + 1;
          (nonideal, em) =
            (if c > ideal
             then (nonideal + 1,
                   if c > expand_mult b * ideal then expand_mult b + 1 else expand_mult b)
             else (nonideal, expand_mult b));
          m = set_hh_prev thh None m;
          m = set_hh_next thh (hh_head b) m;
          m = if_set set_hh_prev (hh_head b) (Some thh) m
      in (m, bs[i := \<lparr>hh_head = Some thh, count = c, expand_mult = em\<rparr>], nonideal))"

partial_function (option) expand_chain ::
    "(ptr \<Rightarrow> expansion \<Rightarrow> expansion) \<Rightarrow> ptr option \<Rightarrow> expansion \<Rightarrow> expansion option" where
  "expand_chain step thh st =
     (case thh of None \<Rightarrow> Some st
      | Some p \<Rightarrow> let hh_nxt = hh_next (fst st p) in expand_chain step hh_nxt (step p st))"

primrec expand_loop :: "unsigned \<Rightarrow> unsigned \<Rightarrow> UT_hash_bucket list \<Rightarrow> expansion \<Rightarrow>
    expansion option" where
  "expand_loop nb ideal [] st = Some st"
| "expand_loop nb ideal (b # bs) st =
     (case expand_chain (expand_step nb ideal) (hh_head b) st of None \<Rightarrow> None
      | Some st' \<Rightarrow> expand_loop nb ideal bs st')"

definition ideal_maxlen :: "UT_hash_table \<Rightarrow> unsigned" where
  "ideal_maxlen T =
     drop_bit (unat (log2_num_buckets T + 1)) (num_items T)
     + (if num_items T AND (num_buckets T * 2 - 1) \<noteq> 0 then 1 else 0)"

text \<open>
  \<open>uthash_malloc\<close> is a parameter: the address of a new block of the given size, or \<open>NULL\<close>.
  The flag of the result says that memory ran out (\<open>HASH_RECORD_OOM\<close>).
\<close>

definition HASH_EXPAND_BUCKETS :: "(nat \<Rightarrow> ptr option) \<Rightarrow> ptr \<Rightarrow> hash_mem \<Rightarrow>
    (hash_mem \<times> bool) option" where
  "HASH_EXPAND_BUCKETS uthash_malloc t s =
     (let T = table_at s t; nb = unat (num_buckets T)
      in case uthash_malloc (sizeof_bucket * nb * 2) of None \<Rightarrow> Some (s, True)
      | Some _ \<Rightarrow>
        (case expand_loop (num_buckets T * 2) (ideal_maxlen T) (buckets T)
                (hh s, replicate (nb * 2) zero_bucket, 0) of
           None \<Rightarrow> None
         | Some (m, bs, nonideal) \<Rightarrow>
           let ineff = if nonideal > drop_bit 1 (num_items T) then ineff_expands T + 1 else 0
           in Some (upd_table t (\<lambda>T. T\<lparr>
                 ideal_chain_maxlen := ideal_maxlen T,
                 nonideal_items := nonideal,
                 num_buckets := num_buckets T * 2,
                 log2_num_buckets := log2_num_buckets T + 1,
                 buckets := bs,
                 ineff_expands := ineff,
                 noexpand := (if ineff > 1 then 1 else noexpand T)\<rparr>) (upd_hh (\<lambda>_. m) s), False)))"

definition HASH_ADD_TO_BKT :: "(nat \<Rightarrow> ptr option) \<Rightarrow> nat \<Rightarrow> ptr \<Rightarrow> hash_mem \<Rightarrow>
    (hash_mem \<times> bool) option" where
  "HASH_ADD_TO_BKT uthash_malloc i add s =
     (let t = tbl_of s add;
          b = buckets (table_at s t) ! i;
          s = upd_hh (set_hh_next add (hh_head b)) s;
          s = upd_hh (set_hh_prev add None) s;
          s = upd_hh (if_set set_hh_prev (hh_head b) (Some add)) s;
          s = upd_table t (upd_bucket i (\<lambda>b. b\<lparr>count := count b + 1, hh_head := Some add\<rparr>)) s
      in if count b + 1 \<ge> (expand_mult b + 1) * HASH_BKT_CAPACITY_THRESH
            \<and> noexpand (table_at s t) = 0
         then (case HASH_EXPAND_BUCKETS uthash_malloc t s of None \<Rightarrow> None
               | Some (s, oomed) \<Rightarrow> Some (if oomed then HASH_DEL_IN_BKT t i add s else s, oomed))
         else Some (s, False))"

section \<open>Deleting\<close>

definition HASH_DELETE_HH :: "ptr \<Rightarrow> ptr option \<Rightarrow> hash_mem \<Rightarrow> hash_mem \<times> ptr option" where
  "HASH_DELETE_HH del head s =
     (let t = tbl_of s (the head); p = prev (hh s del); n = nxt (hh s del)
      in if p = None \<and> n = None
         then (s\<lparr>tables := (tables s)(t := None)\<rparr>, None)
         else
           let s = (if tail (table_at s t) = Some del
                    then upd_table t (tail_update (\<lambda>_. p)) s else s);
               (s, head) = (case p of Some q \<Rightarrow> (upd_hh (set_nxt q n) s, head)
                            | None \<Rightarrow> (s, n));
               s = upd_hh (if_set set_prev n p) s;
               t = tbl_of s (the head);
               bkt = HASH_TO_BKT (hashv (hh s del)) (num_buckets (table_at s t));
               s = HASH_DEL_IN_BKT t (unat bkt) del s
           in (upd_table t (num_items_update (\<lambda>n. n - 1)) s, head))"

text \<open>\<open>HASH_DELETE (hh, head, delptr)\<close> is the same on the handle of the element.\<close>

definition HASH_CLEAR :: "ptr option \<Rightarrow> hash_mem \<Rightarrow> hash_mem \<times> ptr option" where
  "HASH_CLEAR head s =
     (case head of None \<Rightarrow> (s, None)
      | Some h \<Rightarrow> (s\<lparr>tables := (tables s)(tbl_of s h := None)\<rparr>, None))"

section \<open>Adding\<close>

definition HASH_MAKE_TABLE :: "(nat \<Rightarrow> ptr option) \<Rightarrow> ptr \<Rightarrow> hash_mem \<Rightarrow> hash_mem \<times> bool" where
  "HASH_MAKE_TABLE uthash_malloc head s =
     (case uthash_malloc sizeof_table of
        None \<Rightarrow> (upd_hh (set_tbl head None) s, True)
      | Some t \<Rightarrow>
        let s = upd_hh (set_tbl head (Some t)) s;
            T = zero_table\<lparr>tail := Some head, num_buckets := HASH_INITIAL_NUM_BUCKETS,
                  log2_num_buckets := HASH_INITIAL_NUM_BUCKETS_LOG2, signature := HASH_SIGNATURE\<rparr>
        in case uthash_malloc (unat HASH_INITIAL_NUM_BUCKETS * sizeof_bucket) of
             None \<Rightarrow> (s, True)
           | Some _ \<Rightarrow>
             (s\<lparr>tables := (tables s)(t \<mapsto>
                  T\<lparr>buckets := replicate (unat HASH_INITIAL_NUM_BUCKETS) zero_bucket\<rparr>)\<rparr>, False))"

definition HASH_APPEND_LIST :: "ptr \<Rightarrow> ptr \<Rightarrow> hash_mem \<Rightarrow> hash_mem" where
  "HASH_APPEND_LIST head add s =
     (let t = tbl_of s head;
          s = upd_hh (set_nxt add None) s;
          s = upd_hh (set_prev add (tail (table_at s t))) s;
          s = upd_hh (set_nxt (the (tail (table_at s t))) (Some add)) s
      in upd_table t (tail_update (\<lambda>_. Some add)) s)"

text \<open>
  Both configurations: by default running out of memory ends the process (\<open>uthash_fatal\<close>);
  with \<open>HASH_NONFATAL_OOM\<close> the element is taken out again and the program goes on.
\<close>

definition HASH_ROLLBACK_BKT :: "ptr \<Rightarrow> ptr \<Rightarrow> hash_mem \<Rightarrow> hash_mem" where
  "HASH_ROLLBACK_BKT head item s =
     (let t = tbl_of s head;
          bkt = HASH_TO_BKT (hashv (hh s item)) (num_buckets (table_at s t));
          s = upd_table t (upd_bucket (unat bkt) (count_update (\<lambda>c. c + 1))) s;
          s = upd_hh (set_hh_next item None) s
      in upd_hh (set_hh_prev item None) s)"

definition HASH_ADD_TO_TABLE :: "(nat \<Rightarrow> ptr option) \<Rightarrow> bool \<Rightarrow> unsigned \<Rightarrow> ptr \<Rightarrow> ptr \<Rightarrow> hash_mem \<Rightarrow>
    (int + hash_mem \<times> ptr option) option" where
  "HASH_ADD_TO_TABLE uthash_malloc NONFATAL hv head add s =
     (let t = tbl_of s head;
          s = upd_table t (num_items_update (\<lambda>n. n + 1)) s;
          bkt = HASH_TO_BKT hv (num_buckets (table_at s t))
      in case HASH_ADD_TO_BKT uthash_malloc (unat bkt) add s of None \<Rightarrow> None
         | Some (s, oomed) \<Rightarrow>
           if \<not> oomed then Some (Inr (s, Some head))
           else if \<not> NONFATAL then Some (Inl (-1))
           else
             let s = HASH_ROLLBACK_BKT head add s;
                 (s, head) = HASH_DELETE_HH add (Some head) s
             in Some (Inr (upd_hh (set_tbl add None) s, head)))"

definition first_element :: "(nat \<Rightarrow> ptr option) \<Rightarrow> bool \<Rightarrow> unsigned \<Rightarrow> ptr \<Rightarrow> hash_mem \<Rightarrow>
    (int + hash_mem \<times> ptr option) option" where
  "first_element uthash_malloc NONFATAL hv add s =
     (let s = upd_hh (set_nxt add None) s;
          s = upd_hh (set_prev add None) s;
          (s, oomed) = HASH_MAKE_TABLE uthash_malloc add s
      in if \<not> oomed then HASH_ADD_TO_TABLE uthash_malloc NONFATAL hv add add s
         else if \<not> NONFATAL then Some (Inl (-1))
         else Some (Inr (upd_hh (set_tbl add None) s, None)))"

definition HASH_ADD_KEYPTR_BYHASHVALUE :: "(nat \<Rightarrow> ptr option) \<Rightarrow> bool \<Rightarrow> byte list \<Rightarrow> unsigned \<Rightarrow>
    ptr \<Rightarrow> ptr option \<Rightarrow> hash_mem \<Rightarrow> (int + hash_mem \<times> ptr option) option" where
  "HASH_ADD_KEYPTR_BYHASHVALUE uthash_malloc NONFATAL k hv add head s =
     (let s = upd_hh (set_key add k hv) s
      in case head of
           None \<Rightarrow> first_element uthash_malloc NONFATAL hv add s
         | Some h \<Rightarrow>
           let s = upd_hh (set_tbl add (tbl (hh s h))) s;
               s = HASH_APPEND_LIST h add s
           in HASH_ADD_TO_TABLE uthash_malloc NONFATAL hv h add s)"

definition HASH_ADD_KEYPTR :: "(byte list \<Rightarrow> unsigned) \<Rightarrow> (nat \<Rightarrow> ptr option) \<Rightarrow> bool \<Rightarrow> byte list \<Rightarrow>
    ptr \<Rightarrow> ptr option \<Rightarrow> hash_mem \<Rightarrow> (int + hash_mem \<times> ptr option) option" where
  "HASH_ADD_KEYPTR HASH_FUNCTION uthash_malloc NONFATAL k add head s =
     HASH_ADD_KEYPTR_BYHASHVALUE uthash_malloc NONFATAL k (HASH_FUNCTION k) add head s"

text \<open>Insertion in order: before the first element the comparison puts after the new one.\<close>

partial_function (option) HASH_AKBI_INNER_LOOP ::
    "(ptr \<Rightarrow> int) \<Rightarrow> handles \<Rightarrow> ptr \<Rightarrow> ptr option option" where
  "HASH_AKBI_INNER_LOOP cmp_add m iter =
     (if cmp_add iter > 0 then Some (Some iter)
      else case nxt (m iter) of None \<Rightarrow> Some None
           | Some n \<Rightarrow> HASH_AKBI_INNER_LOOP cmp_add m n)"

definition HASH_ADD_KEYPTR_BYHASHVALUE_INORDER :: "(ptr \<Rightarrow> ptr \<Rightarrow> int) \<Rightarrow> (nat \<Rightarrow> ptr option) \<Rightarrow>
    bool \<Rightarrow> byte list \<Rightarrow> unsigned \<Rightarrow> ptr \<Rightarrow> ptr option \<Rightarrow> hash_mem \<Rightarrow>
    (int + hash_mem \<times> ptr option) option" where
  "HASH_ADD_KEYPTR_BYHASHVALUE_INORDER cmpfcn uthash_malloc NONFATAL k hv add head s =
     (let s = upd_hh (set_key add k hv) s
      in case head of
           None \<Rightarrow> first_element uthash_malloc NONFATAL hv add s
         | Some h \<Rightarrow>
           let s = upd_hh (set_tbl add (tbl (hh s h))) s
           in case HASH_AKBI_INNER_LOOP (\<lambda>iter. cmpfcn iter add) (hh s) h of None \<Rightarrow> None
              | Some None \<Rightarrow>
                HASH_ADD_TO_TABLE uthash_malloc NONFATAL hv h add (HASH_APPEND_LIST h add s)
              | Some (Some iter) \<Rightarrow>
                let s = upd_hh (set_nxt add (Some iter)) s;
                    s = upd_hh (set_prev add (prev (hh s iter))) s;
                    s = upd_hh (if_set set_nxt (prev (hh s add)) (Some add)) s;
                    h = (if prev (hh s add) = None then add else h);
                    s = upd_hh (set_prev iter (Some add)) s
                in HASH_ADD_TO_TABLE uthash_malloc NONFATAL hv h add s)"

definition HASH_REPLACE_BYHASHVALUE :: "(nat \<Rightarrow> ptr option) \<Rightarrow> bool \<Rightarrow> byte list \<Rightarrow> unsigned \<Rightarrow> ptr \<Rightarrow>
    ptr option \<Rightarrow> hash_mem \<Rightarrow> (int + hash_mem \<times> ptr option \<times> ptr option) option" where
  "HASH_REPLACE_BYHASHVALUE uthash_malloc NONFATAL k hv add head s =
     (case HASH_FIND_BYHASHVALUE k hv head s of None \<Rightarrow> None
      | Some replaced \<Rightarrow>
        let (s, head) = (case replaced of None \<Rightarrow> (s, head) | Some r \<Rightarrow> HASH_DELETE_HH r head s)
        in case HASH_ADD_KEYPTR_BYHASHVALUE uthash_malloc NONFATAL k hv add head s of None \<Rightarrow> None
           | Some (Inl e) \<Rightarrow> Some (Inl e)
           | Some (Inr (s, head)) \<Rightarrow> Some (Inr (s, head, replaced)))"

definition HASH_REPLACE :: "(byte list \<Rightarrow> unsigned) \<Rightarrow> (nat \<Rightarrow> ptr option) \<Rightarrow> bool \<Rightarrow> byte list \<Rightarrow> ptr \<Rightarrow>
    ptr option \<Rightarrow> hash_mem \<Rightarrow> (int + hash_mem \<times> ptr option \<times> ptr option) option" where
  "HASH_REPLACE HASH_FUNCTION uthash_malloc NONFATAL k add head s =
     HASH_REPLACE_BYHASHVALUE uthash_malloc NONFATAL k (HASH_FUNCTION k) add head s"

section \<open>Reading the hash\<close>

definition HASH_COUNT :: "ptr option \<Rightarrow> hash_mem \<Rightarrow> unsigned" where
  "HASH_COUNT head s =
     (case head of None \<Rightarrow> 0 | Some h \<Rightarrow> num_items (table_at s (tbl_of s h)))"

definition HASH_OVERHEAD :: "ptr option \<Rightarrow> hash_mem \<Rightarrow> size_t" where
  "HASH_OVERHEAD head s =
     (case head of None \<Rightarrow> 0
      | Some h \<Rightarrow> let T = table_at s (tbl_of s h)
        in ucast (num_items T) * of_nat sizeof_handle + ucast (num_buckets T) * of_nat sizeof_bucket
           + of_nat sizeof_table)"

text \<open>
  \<open>HASH_ITER\<close> runs the body for \<open>el\<close> with \<open>tmp\<close> read before it; the body here is any function
  of the memory, so that it may delete \<open>el\<close>.
\<close>

partial_function (option) HASH_ITER ::
    "(ptr \<Rightarrow> 'a \<Rightarrow> 'a) \<Rightarrow> ('a \<Rightarrow> handles) \<Rightarrow> ptr option \<times> ptr option \<times> 'a \<Rightarrow> 'a option" where
  "HASH_ITER body mem vars =
     (case vars of
        (None, _, st) \<Rightarrow> Some st
      | (Some el, tmp, st) \<Rightarrow>
        let st = body el st
        in HASH_ITER body mem (tmp, case tmp of None \<Rightarrow> None | Some q \<Rightarrow> nxt (mem st q), st))"

section \<open>The consistency check\<close>

partial_function (option) fsck_chain :: "handles \<Rightarrow> ptr option \<times> ptr option \<times> unsigned \<Rightarrow>
    unsigned option option" where
  "fsck_chain m vars =
     (case vars of
        (None, _, cnt) \<Rightarrow> Some (Some cnt)
      | (Some p, prv, cnt) \<Rightarrow>
        if prv \<noteq> hh_prev (m p) then Some None else fsck_chain m (hh_next (m p), Some p, cnt + 1))"

primrec fsck_buckets :: "handles \<Rightarrow> UT_hash_bucket list \<Rightarrow> unsigned \<Rightarrow> unsigned option option" where
  "fsck_buckets m [] c = Some (Some c)"
| "fsck_buckets m (b # bs) c =
     (case fsck_chain m (hh_head b, None, 0) of None \<Rightarrow> None
      | Some None \<Rightarrow> Some None
      | Some (Some bkt_count) \<Rightarrow>
        if count b \<noteq> bkt_count then Some None else fsck_buckets m bs (c + bkt_count))"

partial_function (option) fsck_app :: "handles \<Rightarrow> ptr option \<times> ptr option \<times> unsigned \<Rightarrow>
    unsigned option option" where
  "fsck_app m vars =
     (case vars of
        (None, _, cnt) \<Rightarrow> Some (Some cnt)
      | (Some p, prv, cnt) \<Rightarrow>
        if prv \<noteq> prev (m p) then Some None else fsck_app m (nxt (m p), Some p, cnt + 1))"

text \<open>\<open>True\<close>: the check is silent. \<open>False\<close>: \<open>HASH_OOPS\<close> prints and ends the process.\<close>

definition HASH_FSCK :: "ptr option \<Rightarrow> hash_mem \<Rightarrow> bool option" where
  "HASH_FSCK head s =
     (case head of None \<Rightarrow> Some True
      | Some h \<Rightarrow>
        let T = table_at s (tbl_of s h)
        in case fsck_buckets (hh s) (buckets T) 0 of None \<Rightarrow> None
           | Some None \<Rightarrow> Some False
           | Some (Some c) \<Rightarrow>
             if c \<noteq> num_items T then Some False
             else case fsck_app (hh s) (head, None, 0) of None \<Rightarrow> None
                  | Some None \<Rightarrow> Some False
                  | Some (Some c) \<Rightarrow> Some (c = num_items T))"

end
