(* ===== verification/UtHashInv.thy ===== *)
theory UtHashInv
  imports UtHash
begin

text \<open>
  The invariant of a hash and the proofs that adding, deleting and expanding keep it and that
  finding is right. \<open>ut_ok s head xs\<close>: from \<open>head\<close> the elements \<open>xs\<close> are linked in
  application order, the table's tail is the last one and its counters are right, every bucket
  holds exactly the elements whose hash value selects it, linked both ways.
\<close>

section \<open>Assignments and fields\<close>

lemma set_tbl_fields [simp]:
  "tbl \<circ> set_tbl p v m = (tbl \<circ> m)(p := v)"
  "tbl (set_tbl p v m q) = (if q = p then v else tbl (m q))"
  "prev \<circ> set_tbl p v m = prev \<circ> m"
  "prev (set_tbl p v m q) = prev (m q)"
  "nxt \<circ> set_tbl p v m = nxt \<circ> m"
  "nxt (set_tbl p v m q) = nxt (m q)"
  "hh_prev \<circ> set_tbl p v m = hh_prev \<circ> m"
  "hh_prev (set_tbl p v m q) = hh_prev (m q)"
  "hh_next \<circ> set_tbl p v m = hh_next \<circ> m"
  "hh_next (set_tbl p v m q) = hh_next (m q)"
  "key \<circ> set_tbl p v m = key \<circ> m"
  "key (set_tbl p v m q) = key (m q)"
  "keylen \<circ> set_tbl p v m = keylen \<circ> m"
  "keylen (set_tbl p v m q) = keylen (m q)"
  "hashv \<circ> set_tbl p v m = hashv \<circ> m"
  "hashv (set_tbl p v m q) = hashv (m q)"
  by (auto simp: set_tbl_def fun_eq_iff)

lemma set_prev_fields [simp]:
  "tbl \<circ> set_prev p v m = tbl \<circ> m"
  "tbl (set_prev p v m q) = tbl (m q)"
  "prev \<circ> set_prev p v m = (prev \<circ> m)(p := v)"
  "prev (set_prev p v m q) = (if q = p then v else prev (m q))"
  "nxt \<circ> set_prev p v m = nxt \<circ> m"
  "nxt (set_prev p v m q) = nxt (m q)"
  "hh_prev \<circ> set_prev p v m = hh_prev \<circ> m"
  "hh_prev (set_prev p v m q) = hh_prev (m q)"
  "hh_next \<circ> set_prev p v m = hh_next \<circ> m"
  "hh_next (set_prev p v m q) = hh_next (m q)"
  "key \<circ> set_prev p v m = key \<circ> m"
  "key (set_prev p v m q) = key (m q)"
  "keylen \<circ> set_prev p v m = keylen \<circ> m"
  "keylen (set_prev p v m q) = keylen (m q)"
  "hashv \<circ> set_prev p v m = hashv \<circ> m"
  "hashv (set_prev p v m q) = hashv (m q)"
  by (auto simp: set_prev_def fun_eq_iff)

lemma set_nxt_fields [simp]:
  "tbl \<circ> set_nxt p v m = tbl \<circ> m"
  "tbl (set_nxt p v m q) = tbl (m q)"
  "prev \<circ> set_nxt p v m = prev \<circ> m"
  "prev (set_nxt p v m q) = prev (m q)"
  "nxt \<circ> set_nxt p v m = (nxt \<circ> m)(p := v)"
  "nxt (set_nxt p v m q) = (if q = p then v else nxt (m q))"
  "hh_prev \<circ> set_nxt p v m = hh_prev \<circ> m"
  "hh_prev (set_nxt p v m q) = hh_prev (m q)"
  "hh_next \<circ> set_nxt p v m = hh_next \<circ> m"
  "hh_next (set_nxt p v m q) = hh_next (m q)"
  "key \<circ> set_nxt p v m = key \<circ> m"
  "key (set_nxt p v m q) = key (m q)"
  "keylen \<circ> set_nxt p v m = keylen \<circ> m"
  "keylen (set_nxt p v m q) = keylen (m q)"
  "hashv \<circ> set_nxt p v m = hashv \<circ> m"
  "hashv (set_nxt p v m q) = hashv (m q)"
  by (auto simp: set_nxt_def fun_eq_iff)

lemma set_hh_prev_fields [simp]:
  "tbl \<circ> set_hh_prev p v m = tbl \<circ> m"
  "tbl (set_hh_prev p v m q) = tbl (m q)"
  "prev \<circ> set_hh_prev p v m = prev \<circ> m"
  "prev (set_hh_prev p v m q) = prev (m q)"
  "nxt \<circ> set_hh_prev p v m = nxt \<circ> m"
  "nxt (set_hh_prev p v m q) = nxt (m q)"
  "hh_prev \<circ> set_hh_prev p v m = (hh_prev \<circ> m)(p := v)"
  "hh_prev (set_hh_prev p v m q) = (if q = p then v else hh_prev (m q))"
  "hh_next \<circ> set_hh_prev p v m = hh_next \<circ> m"
  "hh_next (set_hh_prev p v m q) = hh_next (m q)"
  "key \<circ> set_hh_prev p v m = key \<circ> m"
  "key (set_hh_prev p v m q) = key (m q)"
  "keylen \<circ> set_hh_prev p v m = keylen \<circ> m"
  "keylen (set_hh_prev p v m q) = keylen (m q)"
  "hashv \<circ> set_hh_prev p v m = hashv \<circ> m"
  "hashv (set_hh_prev p v m q) = hashv (m q)"
  by (auto simp: set_hh_prev_def fun_eq_iff)

lemma set_hh_next_fields [simp]:
  "tbl \<circ> set_hh_next p v m = tbl \<circ> m"
  "tbl (set_hh_next p v m q) = tbl (m q)"
  "prev \<circ> set_hh_next p v m = prev \<circ> m"
  "prev (set_hh_next p v m q) = prev (m q)"
  "nxt \<circ> set_hh_next p v m = nxt \<circ> m"
  "nxt (set_hh_next p v m q) = nxt (m q)"
  "hh_prev \<circ> set_hh_next p v m = hh_prev \<circ> m"
  "hh_prev (set_hh_next p v m q) = hh_prev (m q)"
  "hh_next \<circ> set_hh_next p v m = (hh_next \<circ> m)(p := v)"
  "hh_next (set_hh_next p v m q) = (if q = p then v else hh_next (m q))"
  "key \<circ> set_hh_next p v m = key \<circ> m"
  "key (set_hh_next p v m q) = key (m q)"
  "keylen \<circ> set_hh_next p v m = keylen \<circ> m"
  "keylen (set_hh_next p v m q) = keylen (m q)"
  "hashv \<circ> set_hh_next p v m = hashv \<circ> m"
  "hashv (set_hh_next p v m q) = hashv (m q)"
  by (auto simp: set_hh_next_def fun_eq_iff)

lemma set_key_fields [simp]:
  "tbl \<circ> set_key p k hv m = tbl \<circ> m"
  "tbl (set_key p k hv m q) = tbl (m q)"
  "prev \<circ> set_key p k hv m = prev \<circ> m"
  "prev (set_key p k hv m q) = prev (m q)"
  "nxt \<circ> set_key p k hv m = nxt \<circ> m"
  "nxt (set_key p k hv m q) = nxt (m q)"
  "hh_prev \<circ> set_key p k hv m = hh_prev \<circ> m"
  "hh_prev (set_key p k hv m q) = hh_prev (m q)"
  "hh_next \<circ> set_key p k hv m = hh_next \<circ> m"
  "hh_next (set_key p k hv m q) = hh_next (m q)"
  "key \<circ> set_key p k hv m = (key \<circ> m)(p := k)"
  "key (set_key p k hv m q) = (if q = p then k else key (m q))"
  "keylen \<circ> set_key p k hv m = (keylen \<circ> m)(p := of_nat (length k))"
  "keylen (set_key p k hv m q) = (if q = p then of_nat (length k) else keylen (m q))"
  "hashv \<circ> set_key p k hv m = (hashv \<circ> m)(p := hv)"
  "hashv (set_key p k hv m q) = (if q = p then hv else hashv (m q))"
  by (auto simp: set_key_def fun_eq_iff)
lemma if_set_fields [simp]:
  "nxt \<circ> if_set set_nxt p v m = upd_opt (nxt \<circ> m) p v"
  "prev \<circ> if_set set_nxt p v m = prev \<circ> m"
  "nxt \<circ> if_set set_prev p v m = nxt \<circ> m"
  "prev \<circ> if_set set_prev p v m = upd_opt (prev \<circ> m) p v"
  "hh_next \<circ> if_set set_hh_next p v m = upd_opt (hh_next \<circ> m) p v"
  "hh_prev \<circ> if_set set_hh_next p v m = hh_prev \<circ> m"
  "hh_next \<circ> if_set set_hh_prev p v m = hh_next \<circ> m"
  "hh_prev \<circ> if_set set_hh_prev p v m = upd_opt (hh_prev \<circ> m) p v"
  "tbl \<circ> if_set set_nxt p v m = tbl \<circ> m"
  "key \<circ> if_set set_nxt p v m = key \<circ> m"
  "keylen \<circ> if_set set_nxt p v m = keylen \<circ> m"
  "hashv \<circ> if_set set_nxt p v m = hashv \<circ> m"
  "tbl \<circ> if_set set_prev p v m = tbl \<circ> m"
  "key \<circ> if_set set_prev p v m = key \<circ> m"
  "keylen \<circ> if_set set_prev p v m = keylen \<circ> m"
  "hashv \<circ> if_set set_prev p v m = hashv \<circ> m"
  "tbl \<circ> if_set set_hh_next p v m = tbl \<circ> m"
  "key \<circ> if_set set_hh_next p v m = key \<circ> m"
  "keylen \<circ> if_set set_hh_next p v m = keylen \<circ> m"
  "hashv \<circ> if_set set_hh_next p v m = hashv \<circ> m"
  "tbl \<circ> if_set set_hh_prev p v m = tbl \<circ> m"
  "key \<circ> if_set set_hh_prev p v m = key \<circ> m"
  "keylen \<circ> if_set set_hh_prev p v m = keylen \<circ> m"
  "hashv \<circ> if_set set_hh_prev p v m = hashv \<circ> m"
  by (auto simp: if_set_def upd_opt_def split: option.split)

lemma mem_simps [simp]:
  "hh (upd_hh f s) = f (hh s)" "tables (upd_hh f s) = tables s"
  "hh (upd_table t g s) = hh s" "table_at (upd_hh f s) t = table_at s t"
  "table_at (upd_table t g s) t' = (if t' = t then g (table_at s t) else table_at s t')"
  "tables (upd_table t g s) = (tables s)(t \<mapsto> g (table_at s t))"
  by (simp_all add: upd_hh_def upd_table_def table_at_def)

text \<open>Two memories that differ at most in the links of the chains, or of the application order.\<close>

definition same_items :: "handles \<Rightarrow> handles \<Rightarrow> bool" where
  "same_items m m' \<longleftrightarrow> tbl \<circ> m' = tbl \<circ> m \<and> key \<circ> m' = key \<circ> m \<and> keylen \<circ> m' = keylen \<circ> m
     \<and> hashv \<circ> m' = hashv \<circ> m"

definition same_app :: "handles \<Rightarrow> handles \<Rightarrow> bool" where
  "same_app m m' \<longleftrightarrow> same_items m m' \<and> nxt \<circ> m' = nxt \<circ> m \<and> prev \<circ> m' = prev \<circ> m"

definition same_chains :: "handles \<Rightarrow> handles \<Rightarrow> bool" where
  "same_chains m m' \<longleftrightarrow> hh_next \<circ> m' = hh_next \<circ> m \<and> hh_prev \<circ> m' = hh_prev \<circ> m
     \<and> hashv \<circ> m' = hashv \<circ> m"

lemma same_items_refl [simp]: "same_items m m" and same_app_refl [simp]: "same_app m m"
  by (simp_all add: same_items_def same_app_def)

lemma same_itemsD:
  assumes "same_items m m'"
  shows "tbl (m' x) = tbl (m x)" "key (m' x) = key (m x)" "keylen (m' x) = keylen (m x)"
    "hashv (m' x) = hashv (m x)"
  using assms by (auto simp: same_items_def fun_eq_iff)

lemma same_app_trans: "same_app m m' \<Longrightarrow> same_app m' m'' \<Longrightarrow> same_app m m''"
  by (simp add: same_app_def same_items_def)

lemma same_app_set [simp]:
  "same_app m (set_hh_next p v m') = same_app m m'" "same_app m (set_hh_prev p v m') = same_app m m'"
  "same_app m (if_set set_hh_next q v m') = same_app m m'"
  "same_app m (if_set set_hh_prev q v m') = same_app m m'"
  by (simp_all add: same_app_def same_items_def if_set_def split: option.split)

lemma same_items_set [simp]:
  "same_items m (set_nxt p v m') = same_items m m'" "same_items m (set_prev p v m') = same_items m m'"
  "same_items m (if_set set_nxt q v m') = same_items m m'"
  "same_items m (if_set set_prev q v m') = same_items m m'"
  by (simp_all add: same_items_def if_set_def split: option.split)

section \<open>Buckets\<close>

definition bkt :: "unsigned \<Rightarrow> unsigned \<Rightarrow> nat" where
  "bkt n hv = unat (HASH_TO_BKT hv n)"

lemma bkt_less: "n \<noteq> 0 \<Longrightarrow> bkt n hv < unat n"
proof -
  assume "n \<noteq> 0"
  have "HASH_TO_BKT hv n \<le> n - 1"
    by (simp add: HASH_TO_BKT_def word_and_le1)
  also have "n - 1 < n"
    using \<open>n \<noteq> 0\<close> by (simp add: word_gt_0 word_less_sub1 measure_unat unat_mono word_less_nat_alt)
  finally show ?thesis
    by (simp add: bkt_def word_less_nat_alt)
qed

definition chain_ok :: "handles \<Rightarrow> UT_hash_bucket \<Rightarrow> ptr list \<Rightarrow> bool" where
  "chain_ok m b c \<longleftrightarrow> dlist (hh_next \<circ> m) (hh_prev \<circ> m) (hh_head b) c \<and> unat (count b) = length c"

text \<open>The buckets \<open>bs\<close> hold the elements \<open>X\<close>, the \<open>i\<close>-th one the chain \<open>cs ! i\<close>.\<close>

definition buckets_ok :: "handles \<Rightarrow> unsigned \<Rightarrow> UT_hash_bucket list \<Rightarrow> ptr set \<Rightarrow> ptr list list \<Rightarrow> bool"
  where
  "buckets_ok m n bs X cs \<longleftrightarrow> length bs = unat n \<and> length cs = length bs
     \<and> (\<forall>i < length bs. chain_ok m (bs ! i) (cs ! i) \<and> set (cs ! i) = {x \<in> X. bkt n (hashv (m x)) = i})"

lemma buckets_okD:
  assumes "buckets_ok m n bs X cs" and "i < unat n"
  shows "dlist (hh_next \<circ> m) (hh_prev \<circ> m) (hh_head (bs ! i)) (cs ! i)"
    "unat (count (bs ! i)) = length (cs ! i)" "set (cs ! i) = {x \<in> X. bkt n (hashv (m x)) = i}"
    "distinct (cs ! i)"
  using assms dseg_distinct by (fastforce simp: buckets_ok_def chain_ok_def)+

lemma buckets_ok_frame:
  assumes "buckets_ok m n bs X cs" and "same_chains m m'"
  shows "buckets_ok m' n bs X cs"
proof -
  have "hashv (m' x) = hashv (m x)" for x
    using assms(2) by (simp add: same_chains_def fun_eq_iff)
  then show ?thesis
    using assms by (simp add: buckets_ok_def chain_ok_def same_chains_def)
qed

lemma buckets_ok_empty:
  "buckets_ok m n (replicate (unat n) zero_bucket) {} (replicate (unat n) [])"
  by (simp add: buckets_ok_def chain_ok_def zero_bucket_def)

text \<open>A new handle at the front of its chain.\<close>

lemma buckets_ok_push:
  assumes ok: "buckets_ok m n bs X cs" and x: "x \<notin> X" and n: "n \<noteq> 0"
    and fin: "finite X" "card X + 1 < 2 ^ 32"
    and i: "i = bkt n (hashv (m x))"
    and m': "hh_next \<circ> m' = (hh_next \<circ> m)(x := hh_head (bs ! i))"
      "hh_prev \<circ> m' = upd_opt ((hh_prev \<circ> m)(x := None)) (hh_head (bs ! i)) (Some x)"
      "hashv \<circ> m' = hashv \<circ> m"
    and b': "hh_head b' = Some x" "count b' = count (bs ! i) + 1"
  shows "buckets_ok m' n (bs[i := b']) (insert x X) (cs[i := x # cs ! i])"
proof -
  have il: "i < unat n"
    using bkt_less [OF n] i by simp
  note len = ok [unfolded buckets_ok_def, THEN conjunct1]
    ok [unfolded buckets_ok_def, THEN conjunct2, THEN conjunct1]
  note chain = buckets_okD [OF ok]
  have hv: "hashv (m' y) = hashv (m y)" for y
    using m'(3) by (simp add: fun_eq_iff)
  have head: "hh_head (bs ! i) = first_or None (cs ! i)"
    by (rule dseg_start) (rule chain(1) [OF il])
  have "chain_ok m' (bs[i := b'] ! j) (cs[i := x # cs ! i] ! j)
      \<and> set (cs[i := x # cs ! i] ! j) = {y \<in> insert x X. bkt n (hashv (m' y)) = j}" if j: "j < unat n" for j
  proof (cases "j = i")
    case True
    have xi: "x \<notin> set (cs ! i)"
      using chain(3) [OF il] x by simp
    have "length (cs ! i) \<le> card X"
      using chain(3,4) [OF il] fin(1) by (metis (no_types, lifting) card_mono distinct_card mem_Collect_eq subsetI)
    then have "unat (count (bs ! i) + 1) = Suc (length (cs ! i))"
      using chain(2) [OF il] fin(2) by (simp add: unat_word_ariths unat_of_nat)
    moreover have "dlist ((hh_next \<circ> m)(x := hh_head (bs ! i)))
        (upd_opt ((hh_prev \<circ> m)(x := None)) (hh_head (bs ! i)) (Some x)) (Some x) (x # cs ! i)"
      using dlist_insert [where xs = "[]" and ys = "cs ! i" and x = x and p = "hh_head (bs ! i)"
          and nx = "(hh_next \<circ> m)(x := hh_head (bs ! i))" and pv = "(hh_prev \<circ> m)(x := None)"]
        chain(1) [OF il] xi head by simp
    ultimately show ?thesis
      using True b' m' il len chain(3) [OF il] i hv by (auto simp: chain_ok_def)
  next
    case False
    have "hh_head (bs ! i) \<noteq> Some y" if "y \<in> set (cs ! j)" for y
      using that first_or_in [of "cs ! i" y] chain(3) [OF il] chain(3) [OF j] False head by auto
    then have "dlist (hh_next \<circ> m') (hh_prev \<circ> m') (hh_head (bs ! j)) (cs ! j)"
      using chain(1) [OF j] chain(3) [OF j] x m'(1,2)
      by (subst dseg_frame [where nx = "hh_next \<circ> m" and pv = "hh_prev \<circ> m"])
        (auto simp: upd_opt_def split: option.split)
    then show ?thesis
      using False j len chain(2,3) [OF j] i hv by (auto simp: chain_ok_def)
  qed
  then show ?thesis
    using len by (simp add: buckets_ok_def)
qed

text \<open>A handle taken out of its chain.\<close>

lemma buckets_ok_unlink:
  assumes ok: "buckets_ok m n bs X cs" and x: "x \<in> X" and n: "n \<noteq> 0"
    and i: "i = bkt n (hashv (m x))"
    and m': "hh_next \<circ> m' = upd_opt (hh_next \<circ> m) (hh_prev (m x)) (hh_next (m x))"
      "hh_prev \<circ> m' = upd_opt (hh_prev \<circ> m) (hh_next (m x)) (hh_prev (m x))"
      "hashv \<circ> m' = hashv \<circ> m"
    and b': "hh_head b' = (if hh_head (bs ! i) = Some x then hh_next (m x) else hh_head (bs ! i))"
      "count b' = count (bs ! i) - 1"
  shows "\<exists>cs'. buckets_ok m' n (bs[i := b']) (X - {x}) cs'"
proof -
  have il: "i < unat n"
    using bkt_less [OF n] i by simp
  note len = ok [unfolded buckets_ok_def, THEN conjunct1]
    ok [unfolded buckets_ok_def, THEN conjunct2, THEN conjunct1]
  note chain = buckets_okD [OF ok]
  have hv: "hashv (m' y) = hashv (m y)" for y
    using m'(3) by (simp add: fun_eq_iff)
  have "x \<in> set (cs ! i)"
    using chain(3) [OF il] x i by simp
  then obtain us vs where c: "cs ! i = us @ x # vs"
    by (meson split_list)
  have dl: "dlist (hh_next \<circ> m) (hh_prev \<circ> m) (hh_head (bs ! i)) (us @ x # vs)"
    using chain(1) [OF il] c by simp
  have ends: "hh_prev (m x) = last_or None us" "hh_next (m x) = first_or None vs"
    using dlist_ends [OF dl] by simp_all
  have dis: "distinct (us @ x # vs)"
    using chain(4) [OF il] c by simp
  have "hh_head (bs ! i) = first_or (Some x) us"
    using dseg_start [OF dl] by (simp add: first_or_append)
  then have first: "hh_head (bs ! i) = Some x \<longleftrightarrow> us = []"
    using dis by (cases us) auto
  have "chain_ok m' (bs[i := b'] ! j) (cs[i := us @ vs] ! j)
      \<and> set (cs[i := us @ vs] ! j) = {y \<in> X - {x}. bkt n (hashv (m' y)) = j}" if j: "j < unat n" for j
  proof (cases "j = i")
    case True
    have "dlist (hh_next \<circ> m') (hh_prev \<circ> m') (hh_head b') (us @ vs)"
      using dlist_unlink [OF dl] m'(1,2) b'(1) ends(1) first by (cases "us = []") (simp_all add: last_or_None)
    moreover have "unat (count (bs ! i) - 1) = length (us @ vs)"
    proof -
      have "count (bs ! i) \<noteq> 0"
        using chain(2) [OF il] c by auto
      then show ?thesis
        using chain(2) [OF il] c by (simp add: unat_minus_one)
    qed
    moreover have "set (us @ vs) = set (cs ! i) - {x}"
      using dis c by auto
    ultimately show ?thesis
      using True b'(2) il len chain(3) [OF il] hv by (auto simp: chain_ok_def)
  next
    case False
    have "hh_prev (m x) \<noteq> Some y \<and> hh_next (m x) \<noteq> Some y" if "y \<in> set (cs ! j)" for y
    proof -
      have "y \<notin> set (cs ! i)"
        using that chain(3) [OF il] chain(3) [OF j] False by auto
      then show ?thesis
        using ends c last_or_in [of us y] first_or_in [of vs y] by auto
    qed
    then have "dlist (hh_next \<circ> m') (hh_prev \<circ> m') (hh_head (bs ! j)) (cs ! j)"
      using chain(1) [OF j] m'(1,2)
      by (subst dseg_frame [where nx = "hh_next \<circ> m" and pv = "hh_prev \<circ> m"])
        (auto simp: upd_opt_def split: option.split)
    then show ?thesis
      using False j len chain(2,3) [OF j] i hv by (auto simp: chain_ok_def)
  qed
  then have "buckets_ok m' n (bs[i := b']) (X - {x}) (cs[i := us @ vs])"
    using len by (simp add: buckets_ok_def)
  then show ?thesis ..
qed

end
