(* ===== verification/UtHashOps.thy ===== *)
theory UtHashOps
  imports UtHashInv
begin

text \<open>
  The invariant of a whole hash and the operations that change one: expansion, addition (both
  configurations for a lack of memory), deletion, replacement.
\<close>

section \<open>The invariant of a hash\<close>

definition app_ok :: "handles \<Rightarrow> UT_hash_table \<Rightarrow> ptr option \<Rightarrow> ptr list \<Rightarrow> bool" where
  "app_ok m T head xs \<longleftrightarrow> dlist (nxt \<circ> m) (prev \<circ> m) head xs \<and> tail T = last_or None xs"

definition sizes_ok :: "UT_hash_table \<Rightarrow> bool" where
  "sizes_ok T \<longleftrightarrow> num_buckets T = 2 ^ unat (log2_num_buckets T) \<and> unat (log2_num_buckets T) < 32"

definition in_buckets :: "handles \<Rightarrow> UT_hash_table \<Rightarrow> ptr set \<Rightarrow> bool" where
  "in_buckets m T X \<longleftrightarrow> (\<exists>cs. buckets_ok m (num_buckets T) (buckets T) X cs)"

definition hash_at :: "hash_mem \<Rightarrow> ptr \<Rightarrow> ptr option \<Rightarrow> ptr list \<Rightarrow> bool" where
  "hash_at s t head xs \<longleftrightarrow> tables s t \<noteq> None \<and> app_ok (hh s) (table_at s t) head xs
     \<and> sizes_ok (table_at s t) \<and> in_buckets (hh s) (table_at s t) (set xs)
     \<and> unat (num_items (table_at s t)) = length xs
     \<and> (\<forall>x \<in> set xs. tbl (hh s x) = Some t)"

definition ut_ok :: "hash_mem \<Rightarrow> ptr option \<Rightarrow> ptr list \<Rightarrow> bool" where
  "ut_ok s head xs \<longleftrightarrow> (if head = None then xs = [] else \<exists>t. hash_at s t head xs)"

lemma sizes_ok_nonzero: "sizes_ok T \<Longrightarrow> num_buckets T \<noteq> 0"
  by (simp add: sizes_ok_def)

lemma unat_power2: "k < 32 \<Longrightarrow> unat (2 ^ k :: unsigned) = 2 ^ k"
proof -
  assume "k < 32"
  then have "(2 :: nat) ^ k < 2 ^ 32"
    by (intro power_strict_increasing) simp_all
  then have "unat (of_nat (2 ^ k) :: unsigned) = 2 ^ k"
    by (simp only: unat_of_nat) simp
  then show ?thesis
    by simp
qed

lemma hash_atD:
  assumes "hash_at s t head xs"
  shows "dlist (nxt \<circ> hh s) (prev \<circ> hh s) head xs" "tail (table_at s t) = last_or None xs"
    "distinct xs" "head = first_or None xs" "num_buckets (table_at s t) \<noteq> 0"
    "x \<in> set xs \<Longrightarrow> tbl_of s x = t"
proof -
  show dl: "dlist (nxt \<circ> hh s) (prev \<circ> hh s) head xs" and "tail (table_at s t) = last_or None xs"
    using assms by (simp_all add: hash_at_def app_ok_def)
  show "distinct xs" and "head = first_or None xs"
    using dseg_distinct [OF dl] dseg_start [OF dl] by simp_all
  show "num_buckets (table_at s t) \<noteq> 0"
    using assms sizes_ok_nonzero by (simp add: hash_at_def)
  show "x \<in> set xs \<Longrightarrow> tbl_of s x = t"
    using assms by (simp add: hash_at_def tbl_of_def)
qed

lemma ut_ok_head:
  assumes "ut_ok s (Some h) xs"
  shows "hash_at s (tbl_of s h) (Some h) xs" "h \<in> set xs"
proof -
  obtain t where t: "hash_at s t (Some h) xs"
    using assms by (auto simp: ut_ok_def)
  show "h \<in> set xs"
    using hash_atD(4) [OF t] first_or_in by metis
  then show "hash_at s (tbl_of s h) (Some h) xs"
    using hash_atD(6) [OF t] t by simp
qed

lemma same_app_chain_links:
  "same_app m m' \<Longrightarrow> app_ok m' T head xs = app_ok m T head xs"
  by (simp add: same_app_def app_ok_def)

lemma in_buckets_frame: "in_buckets m T X \<Longrightarrow> same_chains m m' \<Longrightarrow> num_buckets T' = num_buckets T \<Longrightarrow>
  buckets T' = buckets T \<Longrightarrow> in_buckets m' T' X"
  unfolding in_buckets_def using buckets_ok_frame by metis

lemma same_chains_set [simp]:
  "same_chains m (set_nxt p v m') = same_chains m m'" "same_chains m (set_prev p v m') = same_chains m m'"
  "same_chains m (set_tbl p v m') = same_chains m m'"
  "same_chains m (if_set set_nxt q v m') = same_chains m m'"
  "same_chains m (if_set set_prev q v m') = same_chains m m'"
  "same_chains m m"
  by (simp_all add: same_chains_def if_set_def split: option.split)

section \<open>Expansion\<close>

lemma expand_step_ok:
  assumes ok: "buckets_ok m n bs X cs" and x: "x \<notin> X" and n: "n \<noteq> 0"
    and fin: "finite X" "card X + 1 < 2 ^ 32"
    and step: "expand_step n ideal x (m, bs, ni) = (m', bs', ni')"
  shows "\<exists>cs'. buckets_ok m' n bs' (insert x X) cs'" "same_app m m'"
    "y \<notin> insert x X \<Longrightarrow> m' y = m y"
proof -
  let ?i = "bkt n (hashv (m x))"
  have il: "?i < unat n"
    by (rule bkt_less [OF n])
  have m': "m' = if_set set_hh_prev (hh_head (bs ! ?i)) (Some x)
      (set_hh_next x (hh_head (bs ! ?i)) (set_hh_prev x None m))"
    using step by (auto simp: Let_def bkt_def split: if_splits)
  have bs': "\<exists>b'. bs' = bs[?i := b'] \<and> hh_head b' = Some x \<and> count b' = count (bs ! ?i) + 1"
    using step by (auto simp: Let_def bkt_def split: if_splits)
  then obtain b' where b': "bs' = bs[?i := b']" "hh_head b' = Some x" "count b' = count (bs ! ?i) + 1"
    by blast
  have "buckets_ok m' n (bs[?i := b']) (insert x X) (cs[?i := x # cs ! ?i])"
    by (rule buckets_ok_push [OF ok x n fin refl])
      (simp_all add: m' b' if_set_def fun_eq_iff upd_opt_def split: option.split)
  then show "\<exists>cs'. buckets_ok m' n bs' (insert x X) cs'"
    using b' by blast
  show "same_app m m'"
    by (simp add: m')
  show "m' y = m y" if y: "y \<notin> insert x X"
  proof -
    have "hh_head (bs ! ?i) \<noteq> Some y"
      using dseg_start [OF buckets_okD(1) [OF ok il]] first_or_in [of "cs ! ?i" y]
        buckets_okD(3) [OF ok il] y by auto
    then show ?thesis
      using y by (auto simp: m' if_set_def set_hh_prev_def set_hh_next_def split: option.split)
  qed
qed

lemma expand_chain_ok:
  assumes "dseg (hh_next \<circ> m) (hh_prev \<circ> m) a p c None" and "buckets_ok m n bs X cs"
    and "set c \<inter> X = {}" and "n \<noteq> 0" and "finite X" and "card X + length c < 2 ^ 32"
  shows "\<exists>m' bs' ni'. expand_chain (expand_step n ideal) p (m, bs, ni) = Some (m', bs', ni')
    \<and> (\<exists>cs'. buckets_ok m' n bs' (X \<union> set c) cs') \<and> same_app m m'
    \<and> (\<forall>y. y \<notin> X \<union> set c \<longrightarrow> m' y = m y)"
  using assms
proof (induction c arbitrary: m a p bs ni X cs)
  case Nil
  then show ?case by (auto simp: expand_chain.simps)
next
  case (Cons x c)
  obtain m1 bs1 ni1 where step: "expand_step n ideal x (m, bs, ni) = (m1, bs1, ni1)"
    by (metis prod_cases3)
  have dis: "distinct (x # c)"
    by (rule dseg_distinct [OF Cons.prems(1)])
  note one = expand_step_ok [OF Cons.prems(2) _ Cons.prems(4,5) _ step]
  have x: "x \<notin> X" "card X + 1 < 2 ^ 32"
    using Cons.prems(3,6) by auto
  obtain cs1 where cs1: "buckets_ok m1 n bs1 (insert x X) cs1"
    using one(1) [OF x] by blast
  have keep: "m1 y = m y" if "y \<in> set c" for y
    using one(3) [OF x, of y] that dis Cons.prems(3) by auto
  have "dseg (hh_next \<circ> m) (hh_prev \<circ> m) (Some x) (hh_next (m x)) c None"
    using Cons.prems(1) by (simp add: comp_def)
  then have seg: "dseg (hh_next \<circ> m1) (hh_prev \<circ> m1) (Some x) (hh_next (m x)) c None"
    using keep by (subst dseg_frame [where nx = "hh_next \<circ> m" and pv = "hh_prev \<circ> m"]) auto
  have "set c \<inter> insert x X = {}" "finite (insert x X)" "card (insert x X) + length c < 2 ^ 32"
    using Cons.prems(3,5,6) dis x by auto
  from Cons.IH [OF seg cs1 this(1) Cons.prems(4) this(2,3), of ni1]
  obtain m2 bs2 ni2 where res:
    "expand_chain (expand_step n ideal) (hh_next (m x)) (m1, bs1, ni1) = Some (m2, bs2, ni2)"
    "\<exists>cs'. buckets_ok m2 n bs2 (insert x X \<union> set c) cs'" "same_app m1 m2"
    "\<forall>y. y \<notin> insert x X \<union> set c \<longrightarrow> m2 y = m1 y"
    by blast
  have "expand_chain (expand_step n ideal) p (m, bs, ni) = Some (m2, bs2, ni2)"
    using Cons.prems(1) res(1) step by (subst expand_chain.simps) (simp add: Let_def)
  moreover have "same_app m m2"
    using same_app_trans one(2) [OF x] res(3) by blast
  moreover have "\<forall>y. y \<notin> X \<union> set (x # c) \<longrightarrow> m2 y = m y"
    using res(4) one(3) [OF x] by auto
  ultimately show ?case
    using res(2) by auto
qed

text \<open>The chains of an array of buckets, without their places.\<close>

lemma expand_loop_ok:
  assumes "list_all2 (\<lambda>b c. dlist (hh_next \<circ> m) (hh_prev \<circ> m) (hh_head b) c) old cc"
    and "buckets_ok m n bs X cs" and "set (concat cc) \<inter> X = {}" and "distinct (concat cc)"
    and "n \<noteq> 0" and "finite X" and "card X + length (concat cc) < 2 ^ 32"
  shows "\<exists>m' bs' ni'. expand_loop n ideal old (m, bs, ni) = Some (m', bs', ni')
    \<and> (\<exists>cs'. buckets_ok m' n bs' (X \<union> set (concat cc)) cs') \<and> same_app m m'
    \<and> (\<forall>y. y \<notin> X \<union> set (concat cc) \<longrightarrow> m' y = m y)"
  using assms
proof (induction old arbitrary: cc m bs ni X cs)
  case Nil
  then show ?case by auto
next
  case (Cons b old)
  then obtain c cc' where cc: "cc = c # cc'"
    and first: "dlist (hh_next \<circ> m) (hh_prev \<circ> m) (hh_head b) c"
    and rest: "list_all2 (\<lambda>b c. dlist (hh_next \<circ> m) (hh_prev \<circ> m) (hh_head b) c) old cc'"
    using Cons.prems(1) [unfolded list_all2_Cons1] by blast
  have "set c \<inter> X = {}" "card X + length c < 2 ^ 32"
    using Cons.prems(3,7) cc by auto
  from expand_chain_ok [OF first Cons.prems(2) this(1) Cons.prems(5,6) this(2), of ideal ni]
  obtain m1 bs1 ni1 cs1 where one:
    "expand_chain (expand_step n ideal) (hh_head b) (m, bs, ni) = Some (m1, bs1, ni1)"
    "buckets_ok m1 n bs1 (X \<union> set c) cs1" "same_app m m1"
    "\<forall>y. y \<notin> X \<union> set c \<longrightarrow> m1 y = m y"
    by blast
  have dis: "distinct c" "set c \<inter> set (concat cc') = {}" "distinct (concat cc')"
    using Cons.prems(4) cc by auto
  have fresh: "m1 y = m y" if "y \<in> set d" "d \<in> set cc'" for y d
    using one(4) that dis(2) Cons.prems(3) cc by auto
  have "list_all2 (\<lambda>b c. dlist (hh_next \<circ> m1) (hh_prev \<circ> m1) (hh_head b) c) old cc'"
    using rest
  proof (rule list.rel_mono_strong)
    fix b d assume "d \<in> set cc'" and "dlist (hh_next \<circ> m) (hh_prev \<circ> m) (hh_head b) d"
    then show "dlist (hh_next \<circ> m1) (hh_prev \<circ> m1) (hh_head b) d"
      using fresh by (subst dseg_frame [where nx = "hh_next \<circ> m" and pv = "hh_prev \<circ> m"]) auto
  qed
  moreover have "set (concat cc') \<inter> (X \<union> set c) = {}" "finite (X \<union> set c)"
    using Cons.prems(3,6) dis cc by auto
  moreover have "card (X \<union> set c) + length (concat cc') < 2 ^ 32"
    using Cons.prems(3,6,7) dis(1) cc by (subst card_Un_disjoint) (auto simp: distinct_card)
  ultimately obtain m2 bs2 ni2 where two:
    "expand_loop n ideal old (m1, bs1, ni1) = Some (m2, bs2, ni2)"
    "\<exists>cs'. buckets_ok m2 n bs2 (X \<union> set c \<union> set (concat cc')) cs'" "same_app m1 m2"
    "\<forall>y. y \<notin> X \<union> set c \<union> set (concat cc') \<longrightarrow> m2 y = m1 y"
    using Cons.IH [OF _ one(2) _ dis(3) Cons.prems(5), where ni = ni1] by blast
  have "expand_loop n ideal (b # old) (m, bs, ni) = Some (m2, bs2, ni2)"
    using one(1) two(1) by simp
  moreover have "same_app m m2"
    using same_app_trans one(3) two(3) by blast
  ultimately show ?case
    using two(2,4) one(4) cc by (auto simp: Un_assoc)
qed

lemma distinct_concat_nth:
  assumes "\<And>i. i < length xs \<Longrightarrow> distinct (xs ! i)"
    and "\<And>i j. i < j \<Longrightarrow> j < length xs \<Longrightarrow> set (xs ! i) \<inter> set (xs ! j) = {}"
  shows "distinct (concat xs)"
  using assms
proof (induction xs)
  case (Cons x xs)
  have "distinct (xs ! i)" if "i < length xs" for i
    using Cons.prems(1) [of "Suc i"] that by simp
  moreover have "set (xs ! i) \<inter> set (xs ! j) = {}" if "i < j" "j < length xs" for i j
    using Cons.prems(2) [of "Suc i" "Suc j"] that by simp
  ultimately have "distinct (concat xs)"
    by (rule Cons.IH)
  moreover have "set x \<inter> set (concat xs) = {}"
  proof (rule equals0I)
    fix y assume y: "y \<in> set x \<inter> set (concat xs)"
    then obtain z where "z \<in> set xs" "y \<in> set z"
      by auto
    then obtain j where "j < length xs" "z = xs ! j"
      by (metis in_set_conv_nth)
    then show False
      using Cons.prems(2) [of 0 "Suc j"] y \<open>y \<in> set z\<close> by auto
  qed
  moreover have "distinct x"
    using Cons.prems(1) [of 0] by simp
  ultimately show ?case
    by simp
qed simp

lemma buckets_ok_chains:
  assumes ok: "buckets_ok m n bs X cs" and n: "n \<noteq> 0"
  shows "list_all2 (\<lambda>b c. dlist (hh_next \<circ> m) (hh_prev \<circ> m) (hh_head b) c) bs cs"
    "set (concat cs) = X" "distinct (concat cs)"
proof -
  have len: "length bs = unat n" "length cs = unat n"
    using ok by (auto simp: buckets_ok_def)
  note chain = buckets_okD [OF ok]
  show "list_all2 (\<lambda>b c. dlist (hh_next \<circ> m) (hh_prev \<circ> m) (hh_head b) c) bs cs"
    using chain(1) len by (simp add: list_all2_conv_all_nth)
  have "x \<in> set (concat cs) \<longleftrightarrow> x \<in> X" for x
  proof
    assume "x \<in> set (concat cs)"
    then obtain i where "i < unat n" "x \<in> set (cs ! i)"
      using len by (auto simp: in_set_conv_nth [where xs = cs])
    then show "x \<in> X"
      using chain(3) by simp
  next
    assume "x \<in> X"
    then have "x \<in> set (cs ! bkt n (hashv (m x)))"
      using chain(3) [OF bkt_less [OF n]] by simp
    then show "x \<in> set (concat cs)"
      using bkt_less [OF n] len by auto
  qed
  then show "set (concat cs) = X"
    by blast
  show "distinct (concat cs)"
    using chain(3,4) len by (intro distinct_concat_nth) auto
qed

text \<open>Doubling the number of buckets keeps it a power of two of 32 bits.\<close>

lemma sizes_ok_double:
  assumes "sizes_ok T" and "unat (log2_num_buckets T) < 31"
  shows "unat (num_buckets T * 2) = unat (num_buckets T) * 2"
    "num_buckets T * 2 = 2 ^ unat (log2_num_buckets T + 1)"
    "unat (log2_num_buckets T + 1) = unat (log2_num_buckets T) + 1"
proof -
  let ?k = "unat (log2_num_buckets T)"
  show suc: "unat (log2_num_buckets T + 1) = ?k + 1"
    using assms(2) by (simp add: unat_word_ariths)
  then show two: "num_buckets T * 2 = 2 ^ unat (log2_num_buckets T + 1)"
    using assms(1) by (simp add: sizes_ok_def)
  have "unat (num_buckets T * 2) = 2 ^ (?k + 1)"
    using assms(2) by (simp only: two suc unat_power2)
  then show "unat (num_buckets T * 2) = unat (num_buckets T) * 2"
    using assms by (simp add: sizes_ok_def unat_power2)
qed

lemma expand_ok:
  assumes sz: "sizes_ok (table_at s t)" and bk: "in_buckets (hh s) (table_at s t) X"
    and fin: "finite X" "card X < 2 ^ 32"
    and room: "uthash_malloc (sizeof_bucket * unat (num_buckets (table_at s t)) * 2) = Some a"
    and small: "unat (log2_num_buckets (table_at s t)) < 31"
  shows "\<exists>s'. HASH_EXPAND_BUCKETS uthash_malloc t s = Some (s', False)
    \<and> sizes_ok (table_at s' t) \<and> in_buckets (hh s') (table_at s' t) X
    \<and> same_app (hh s) (hh s') \<and> tables s' t \<noteq> None
    \<and> tail (table_at s' t) = tail (table_at s t) \<and> num_items (table_at s' t) = num_items (table_at s t)"
proof -
  let ?T = "table_at s t" and ?m = "hh s"
  let ?nb = "unat (num_buckets ?T)" and ?n = "num_buckets (table_at s t) * 2"
  obtain cs where cs: "buckets_ok ?m (num_buckets ?T) (buckets ?T) X cs"
    using bk by (auto simp: in_buckets_def)
  note cc = buckets_ok_chains [OF cs sizes_ok_nonzero [OF sz]]
  note double = sizes_ok_double [OF sz small]
  have n0: "?n \<noteq> 0"
    using double(1) sizes_ok_nonzero [OF sz] by (metis mult_eq_0_iff unat_0 unat_eq_zero zero_neq_numeral)
  have empty: "buckets_ok ?m ?n (replicate (?nb * 2) zero_bucket) {} (replicate (?nb * 2) [])"
    using buckets_ok_empty [of ?m ?n] double(1) by simp
  have "set (concat cs) \<inter> {} = {}" "card {} + length (concat cs) < 2 ^ 32"
    using cc(2,3) fin distinct_card [of "concat cs"] by simp_all
  from expand_loop_ok [OF cc(1) empty this(1) cc(3) n0 finite.emptyI this(2), of "ideal_maxlen ?T" 0]
  obtain m' bs' ni' where loop:
    "expand_loop ?n (ideal_maxlen ?T) (buckets ?T) (?m, replicate (?nb * 2) zero_bucket, 0) = Some (m', bs', ni')"
    "\<exists>cs'. buckets_ok m' ?n bs' X cs'" "same_app ?m m'"
    using cc(2) by auto
  show ?thesis
    using room loop double by (auto simp: HASH_EXPAND_BUCKETS_def Let_def in_buckets_def sizes_ok_def)
      (use sz small in \<open>simp_all add: sizes_ok_def\<close>)
qed

text \<open>The shift and the mask compute \<open>ceil (n / b)\<close> for the doubled number of buckets \<open>b\<close>.\<close>

lemma ideal_maxlen_ceil:
  assumes sz: "sizes_ok T" and small: "unat (log2_num_buckets T) < 31"
  shows "unat (ideal_maxlen T) =
    (let b = 2 * unat (num_buckets T); n = unat (num_items T) in n div b + (if n mod b \<noteq> 0 then 1 else 0))"
proof -
  define k where "k = unat (log2_num_buckets T + 1)"
  note double = sizes_ok_double [OF sz small]
  have k: "0 < k" "k < 32"
    using double(3) small by (simp_all add: k_def)
  have b: "2 * unat (num_buckets T) = 2 ^ k"
    using double unat_power2 [OF k(2)] by (simp add: k_def)
  have "num_items T AND (num_buckets T * 2 - 1) = take_bit k (num_items T)"
    using double(2) by (simp add: k_def take_bit_eq_mask mask_eq_exp_minus_1)
  then have and_zero: "num_items T AND (num_buckets T * 2 - 1) \<noteq> 0 \<longleftrightarrow> unat (num_items T) mod 2 ^ k \<noteq> 0"
    using unsigned_take_bit_eq [of k "num_items T", where 'a = nat]
    by (simp only: word_unat_eq_iff take_bit_eq_mod [of k "unat (num_items T)"] unat_0)
  have div: "unat (drop_bit k (num_items T)) = unat (num_items T) div 2 ^ k"
    using unat_drop_bit_eq [of k "num_items T"] by (simp only: drop_bit_eq_div [of k "unat (num_items T)"])
  have "unat (num_items T) div 2 ^ k \<le> unat (num_items T) div 2"
    using k(1) by (intro div_le_mono2) (simp_all add: self_le_power)
  moreover have "unat (num_items T) < 2 ^ 32"
    by (rule order_less_le_trans [OF unsigned_less]) simp
  ultimately have "unat (drop_bit k (num_items T) + 1) = unat (num_items T) div 2 ^ k + 1"
    using div by (simp add: unat_word_ariths)
  then show ?thesis
    using div and_zero by (simp add: ideal_maxlen_def b k_def [symmetric] Let_def)
qed

section \<open>Deletion\<close>

text \<open>
  What \<open>HASH_DEL_IN_BKT\<close> needs to leave the handles of \<open>X\<close> in their buckets: it depends only on
  the links of the chains, so it holds for every later memory with the same chains.
\<close>

definition chain_links_cut :: "handles \<Rightarrow> ptr \<Rightarrow> handles \<Rightarrow> bool" where
  "chain_links_cut m x m' \<longleftrightarrow>
     hh_next \<circ> m' = upd_opt (hh_next \<circ> m) (hh_prev (m x)) (hh_next (m x))
     \<and> hh_prev \<circ> m' = upd_opt (hh_prev \<circ> m) (hh_next (m x)) (hh_prev (m x))
     \<and> hashv \<circ> m' = hashv \<circ> m"

definition bucket_cut :: "handles \<Rightarrow> ptr \<Rightarrow> UT_hash_bucket \<Rightarrow> UT_hash_bucket" where
  "bucket_cut m x b = b\<lparr>count := count b - 1,
     hh_head := (if hh_head b = Some x then hh_next (m x) else hh_head b)\<rparr>"

definition can_cut :: "handles \<Rightarrow> UT_hash_table \<Rightarrow> ptr \<Rightarrow> ptr set \<Rightarrow> bool" where
  "can_cut m T x X \<longleftrightarrow> hh_prev (m x) \<noteq> Some x \<and>
     (let i = bkt (num_buckets T) (hashv (m x))
      in \<forall>m'. chain_links_cut m x m' \<longrightarrow> in_buckets m' (upd_bucket i (bucket_cut m x) T) X)"

lemma can_cut_frame:
  assumes "same_chains m m'" and "num_buckets T' = num_buckets T" and "buckets T' = buckets T"
  shows "can_cut m' T' x X = can_cut m T x X"
proof -
  have *: "hh_prev (m' x) = hh_prev (m x)" "hh_next (m' x) = hh_next (m x)" "hashv (m' x) = hashv (m x)"
    using assms(1) by (auto simp: same_chains_def fun_eq_iff)
  have "chain_links_cut m' x = chain_links_cut m x"
    using assms(1) * by (auto simp: chain_links_cut_def same_chains_def)
  then show ?thesis
    using * assms(2,3) by (simp add: can_cut_def bucket_cut_def in_buckets_def upd_bucket_def Let_def)
qed

lemma buckets_can_cut:
  assumes bk: "in_buckets m T X" and x: "x \<in> X" and n: "num_buckets T \<noteq> 0"
  shows "can_cut m T x (X - {x})"
proof -
  let ?i = "bkt (num_buckets T) (hashv (m x))"
  obtain cs where cs: "buckets_ok m (num_buckets T) (buckets T) X cs"
    using bk by (auto simp: in_buckets_def)
  note chain = buckets_okD [OF cs bkt_less [OF n, of "hashv (m x)"]]
  have "x \<in> set (cs ! ?i)"
    using chain(3) x by simp
  then obtain us vs where c: "cs ! ?i = us @ x # vs"
    by (meson split_list)
  then have "hh_prev (m x) = last_or None us" "x \<notin> set us"
    using dlist_ends(1) [of "hh_next \<circ> m" "hh_prev \<circ> m"] chain(1,4) by auto
  then have "hh_prev (m x) \<noteq> Some x"
    using last_or_in [of us x] by auto
  moreover have "in_buckets m' (upd_bucket ?i (bucket_cut m x) T) (X - {x})"
    if "chain_links_cut m x m'" for m'
    using that buckets_ok_unlink [OF cs x n refl, of m' "bucket_cut m x (buckets T ! ?i)"]
    by (auto simp: chain_links_cut_def in_buckets_def upd_bucket_def bucket_cut_def)
  ultimately show ?thesis
    by (simp add: can_cut_def)
qed

lemma del_in_bkt:
  fixes s :: hash_mem and i :: nat and t x :: ptr
  assumes "hh_prev (hh s x) \<noteq> Some x"
  defines "s' \<equiv> HASH_DEL_IN_BKT t i x s"
  shows "chain_links_cut (hh s) x (hh s')" "same_app (hh s) (hh s')"
    "tables s' = (tables s)(t \<mapsto> upd_bucket i (bucket_cut (hh s) x) (table_at s t))"
    "table_at s' t = upd_bucket i (bucket_cut (hh s) x) (table_at s t)"
proof -
  show app: "same_app (hh s) (hh s')"
    by (simp add: s'_def HASH_DEL_IN_BKT_def Let_def)
  have "hh_next (if_set set_hh_next (hh_prev (hh s x)) (hh_next (hh s x)) (hh s) x) = hh_next (hh s x)"
    "hh_prev (if_set set_hh_next (hh_prev (hh s x)) (hh_next (hh s x)) (hh s) x) = hh_prev (hh s x)"
    using assms by (auto simp: if_set_def split: option.split)
  then show "chain_links_cut (hh s) x (hh s')"
    using app by (simp add: s'_def HASH_DEL_IN_BKT_def Let_def chain_links_cut_def same_app_def same_items_def)
  show "tables s' = (tables s)(t \<mapsto> upd_bucket i (bucket_cut (hh s) x) (table_at s t))"
    "table_at s' t = upd_bucket i (bucket_cut (hh s) x) (table_at s t)"
    by (simp_all add: s'_def HASH_DEL_IN_BKT_def Let_def bucket_cut_def [abs_def])
qed

lemma upd_bucket_simps [simp]:
  "num_buckets (upd_bucket i f T) = num_buckets T" "num_items (upd_bucket i f T) = num_items T"
  "log2_num_buckets (upd_bucket i f T) = log2_num_buckets T" "tail (upd_bucket i f T) = tail T"
  "noexpand (upd_bucket i f T) = noexpand T"
  "sizes_ok (upd_bucket i f T) = sizes_ok T" "app_ok m (upd_bucket i f T) h xs = app_ok m T h xs"
  by (simp_all add: upd_bucket_def sizes_ok_def app_ok_def)

lemma update_simps [simp]:
  "sizes_ok (tail_update f T) = sizes_ok T" "sizes_ok (num_items_update g T) = sizes_ok T"
  "in_buckets m (tail_update f T) X = in_buckets m T X"
  "in_buckets m (num_items_update g T) X = in_buckets m T X"
  "app_ok m (num_items_update g T) h xs = app_ok m T h xs"
  by (simp_all add: sizes_ok_def in_buckets_def app_ok_def)

text \<open>The hash before the buckets are touched: linked in order, counted, but maybe not in a bucket.\<close>

definition listed_at :: "hash_mem \<Rightarrow> ptr \<Rightarrow> ptr option \<Rightarrow> ptr list \<Rightarrow> bool" where
  "listed_at s t head xs \<longleftrightarrow> tables s t \<noteq> None \<and> app_ok (hh s) (table_at s t) head xs
     \<and> sizes_ok (table_at s t) \<and> unat (num_items (table_at s t)) = length xs
     \<and> (\<forall>x \<in> set xs. tbl (hh s x) = Some t)"

lemma hash_at_listed:
  "hash_at s t head xs \<longleftrightarrow> listed_at s t head xs \<and> in_buckets (hh s) (table_at s t) (set xs)"
  by (auto simp: hash_at_def listed_at_def)

text \<open>Out of the list of all elements, before the buckets are touched.\<close>

definition unlink_app :: "ptr \<Rightarrow> ptr \<Rightarrow> ptr list \<Rightarrow> hash_mem \<Rightarrow> hash_mem" where
  "unlink_app t x l s =
     (let p = prev (hh s x); n = nxt (hh s x)
      in upd_hh (if_set set_prev n p \<circ> if_set set_nxt p n) (upd_table t (tail_update (\<lambda>_. last_or None l)) s))"

lemma unlink_app_ok:
  assumes l: "listed_at s t head (xs @ x # ys)"
  defines "s' \<equiv> unlink_app t x (xs @ ys) s"
    and "head' \<equiv> if xs = [] then nxt (hh s x) else head"
  shows "app_ok (hh s') (table_at s' t) head' (xs @ ys)" "same_chains (hh s) (hh s')"
    "same_items (hh s) (hh s')" "table_at s' t = tail_update (\<lambda>_. last_or None (xs @ ys)) (table_at s t)"
    "tables s' t \<noteq> None"
proof -
  have dl: "dlist (nxt \<circ> hh s) (prev \<circ> hh s) head (xs @ x # ys)"
    using l by (simp add: listed_at_def app_ok_def)
  show T: "table_at s' t = tail_update (\<lambda>_. last_or None (xs @ ys)) (table_at s t)" "tables s' t \<noteq> None"
    by (simp_all add: s'_def unlink_app_def Let_def)
  show "same_chains (hh s) (hh s')" "same_items (hh s) (hh s')"
    by (simp_all add: s'_def unlink_app_def Let_def)
  have "dlist (nxt \<circ> hh s') (prev \<circ> hh s') head' (xs @ ys)"
    using dlist_unlink [OF dl] dlist_ends(1) [OF dl]
    by (cases "xs = []") (simp_all add: s'_def head'_def unlink_app_def Let_def last_or_None)
  then show "app_ok (hh s') (table_at s' t) head' (xs @ ys)"
    by (simp add: app_ok_def T)
qed

lemma update_same_tail:
  assumes "tables s t \<noteq> None" and "tail (table_at s t) = l"
  shows "upd_table t (tail_update (\<lambda>_. l)) s = s"
proof -
  have "tail_update (\<lambda>_. l) (table_at s t) = table_at s t"
    using assms(2) by (cases "table_at s t") simp
  moreover have "(tables s)(t \<mapsto> table_at s t) = tables s"
    using assms(1) by (auto simp: table_at_def fun_eq_iff)
  ultimately show ?thesis
    unfolding upd_table_def by simp
qed

lemma delete_unfold:
  assumes l: "listed_at s t head (xs @ x # ys)" and rest: "xs @ ys \<noteq> []"
  defines "s1 \<equiv> unlink_app t x (xs @ ys) s"
    and "head1 \<equiv> if xs = [] then nxt (hh s x) else head"
  shows "HASH_DELETE_HH x head s = (upd_table t (num_items_update (\<lambda>n. n - 1))
     (HASH_DEL_IN_BKT t (bkt (num_buckets (table_at s t)) (hashv (hh s x))) x s1), head1)"
proof -
  let ?p = "prev (hh s x)" and ?n = "nxt (hh s x)"
  have dl: "dlist (nxt \<circ> hh s) (prev \<circ> hh s) head (xs @ x # ys)"
    and tl: "tail (table_at s t) = last_or None (xs @ x # ys)"
    using l by (auto simp: listed_at_def app_ok_def)
  have ends: "?p = last_or None xs" "?n = first_or None ys"
    using dlist_ends [OF dl] by simp_all
  have dis: "distinct (xs @ x # ys)"
    by (rule dseg_distinct [OF dl])
  note un = unlink_app_ok [OF l, folded s1_def head1_def]
  have own: "tbl_of z h = t" if "same_items (hh s) (hh z)" "h \<in> set (xs @ x # ys)" for z h
    using l that same_itemsD(1) [OF that(1)] by (auto simp: listed_at_def tbl_of_def)
  have "head = first_or (Some x) xs"
    using dseg_start [OF dl] by (simp add: first_or_append)
  then have t0: "tbl_of s (the head) = t"
    by (cases xs) (auto intro!: own)
  have "head1 = first_or None (xs @ ys)"
    using dseg_start un(1) unfolding app_ok_def by blast
  then obtain a where "head1 = Some a" "a \<in> set (xs @ ys)"
    using rest by (metis first_or_None first_or_in not_None_eq)
  then have t1: "tbl_of s1 (the head1) = t"
    using own [OF un(3), of a] by simp
  have pn: "\<not> (?p = None \<and> ?n = None)"
    using rest ends by (auto simp: last_or_None first_or_None)
  have tail1: "(if tail (table_at s t) = Some x then upd_table t (tail_update (\<lambda>_. ?p)) s else s)
      = upd_table t (tail_update (\<lambda>_. last_or None (xs @ ys))) s"
  proof (cases "ys = []")
    case False
    then have "tail (table_at s t) = last_or None (xs @ ys)" "tail (table_at s t) \<noteq> Some x"
      using tl dis by (auto simp: last_or_def split: if_splits)
    then show ?thesis
      using l update_same_tail [of s t "last_or None (xs @ ys)"] by (simp add: listed_at_def)
  qed (use tl ends in simp)
  have heads: "(case ?p of Some q \<Rightarrow> (upd_hh (set_nxt q ?n) z, head) | None \<Rightarrow> (z, ?n))
      = (upd_hh (if_set set_nxt ?p ?n) z, head1)" for z
    using ends by (auto simp: head1_def if_set_def upd_hh_def last_or_def split: option.split)
  have linked: "upd_hh (if_set set_prev ?n ?p) (upd_hh (if_set set_nxt ?p ?n)
      (upd_table t (tail_update (\<lambda>_. last_or None (xs @ ys))) s)) = s1"
    by (simp add: s1_def unlink_app_def upd_hh_def upd_table_def table_at_def Let_def)
  have i: "unat (HASH_TO_BKT (hashv (hh s1 x)) (num_buckets (table_at s1 t)))
      = bkt (num_buckets (table_at s t)) (hashv (hh s x))"
    using same_itemsD(4) [OF un(3), of x] by (simp add: un(4) bkt_def)
  show ?thesis
    unfolding HASH_DELETE_HH_def Let_def t0
    by (simp only: pn if_False tail1 heads prod.case linked t1 i)
qed

lemma delete_listed:
  assumes l: "listed_at s t head (xs @ x # ys)"
    and cut: "can_cut (hh s) (table_at s t) x (set (xs @ ys))"
    and res: "HASH_DELETE_HH x head s = (s', head')"
  shows "ut_ok s' head' (xs @ ys)" "same_items (hh s) (hh s')"
proof -
  have "ut_ok s' head' (xs @ ys) \<and> same_items (hh s) (hh s')"
  proof (cases "xs @ ys = []")
    case True
    then have "prev (hh s x) = None" "nxt (hh s x) = None"
      using l dlist_ends [of "nxt \<circ> hh s" "prev \<circ> hh s" head xs x ys] by (auto simp: listed_at_def app_ok_def)
    then show ?thesis
      using True res by (auto simp: HASH_DELETE_HH_def Let_def ut_ok_def)
  next
    case False
    define s1 where "s1 = unlink_app t x (xs @ ys) s"
    define i where "i = bkt (num_buckets (table_at s t)) (hashv (hh s x))"
    define s2 where "s2 = HASH_DEL_IN_BKT t i x s1"
    define s3 where "s3 = upd_table t (num_items_update (\<lambda>n. n - 1)) s2"
    define head1 where "head1 = (if xs = [] then nxt (hh s x) else head)"
    note un = unlink_app_ok [OF l, folded s1_def head1_def]
    have cut1: "can_cut (hh s1) (table_at s1 t) x (set (xs @ ys))"
      using cut can_cut_frame [OF un(2), of "table_at s1 t" "table_at s t"] by (simp add: un(4))
    have i: "i = bkt (num_buckets (table_at s1 t)) (hashv (hh s1 x))"
      using same_itemsD(4) [OF un(3), of x] by (simp add: un(4) i_def)
    have "hh_prev (hh s1 x) \<noteq> Some x"
      using cut1 by (simp add: can_cut_def)
    note del = del_in_bkt [OF this, of t i, folded s2_def]
    have T3: "table_at s3 t = num_items_update (\<lambda>n. n - 1) (table_at s2 t)" "hh s3 = hh s2"
      by (simp_all add: s3_def)
    have "in_buckets (hh s2) (table_at s2 t) (set (xs @ ys))"
      using cut1 del(1) by (simp add: can_cut_def del(4) i)
    then have bk: "in_buckets (hh s3) (table_at s3 t) (set (xs @ ys))"
      by (simp add: T3)
    have app: "app_ok (hh s3) (table_at s3 t) head1 (xs @ ys)"
      using un(1) del(2) by (simp add: T3 del(4) same_app_def app_ok_def)
    have "num_items (table_at s t) \<noteq> 0" "unat (num_items (table_at s t)) = length (xs @ ys) + 1"
      using l by (auto simp: listed_at_def)
    then have num: "unat (num_items (table_at s3 t)) = length (xs @ ys)"
      by (simp add: T3 del(4) un(4) unat_minus_one)
    have items: "same_items (hh s) (hh s3)"
      using un(3) del(2) by (simp add: T3 same_app_def same_items_def)
    have "sizes_ok (table_at s3 t)" "tables s3 t \<noteq> None"
      using l by (auto simp: s3_def del(4) un(4) listed_at_def)
    then have "hash_at s3 t head1 (xs @ ys)"
      using l app bk num same_itemsD(1) [OF items] by (auto simp: hash_at_def listed_at_def)
    moreover have "head1 \<noteq> None"
      using dseg_start un(1) False first_or_None unfolding app_ok_def by metis
    ultimately show ?thesis
      using res items delete_unfold [OF l False] by (auto simp: ut_ok_def s3_def s2_def s1_def i_def head1_def)
  qed
  then show "ut_ok s' head' (xs @ ys)" "same_items (hh s) (hh s')"
    by auto
qed

lemma delete_ok:
  assumes "hash_at s t head (xs @ x # ys)" and "HASH_DELETE_HH x head s = (s', head')"
  shows "ut_ok s' head' (xs @ ys)" "same_items (hh s) (hh s')"
proof -
  have l: "listed_at s t head (xs @ x # ys)" and bk: "in_buckets (hh s) (table_at s t) (set (xs @ x # ys))"
    using assms(1) by (auto simp: hash_at_listed)
  have "set (xs @ x # ys) - {x} = set (xs @ ys)"
    using hash_atD(3) [OF assms(1)] by auto
  then have "can_cut (hh s) (table_at s t) x (set (xs @ ys))"
    using buckets_can_cut [OF bk _ hash_atD(5) [OF assms(1)], of x] by simp
  from delete_listed [OF l this assms(2)]
  show "ut_ok s' head' (xs @ ys)" "same_items (hh s) (hh s')" by auto
qed

end
