(* ===== verification/UtHashAdd.thy ===== *)
theory UtHashAdd
  imports UtHashOps
begin

text \<open>
  Addition, in both configurations for a lack of memory: the new handle enters its bucket, which
  may double the array of buckets; when that fails the process ends, or the element is taken out
  again (\<open>HASH_NONFATAL_OOM\<close>). \<open>add_keyptr_ok\<close> is the addition at the end of the application order,
  \<open>add_inorder_ok\<close> the one at the place that a comparison gives.
\<close>

section \<open>The result of an addition\<close>

definition same_keys :: "handles \<Rightarrow> handles \<Rightarrow> bool" where
  "same_keys m m' \<longleftrightarrow> key \<circ> m' = key \<circ> m \<and> keylen \<circ> m' = keylen \<circ> m \<and> hashv \<circ> m' = hashv \<circ> m"

lemma same_items_keys: "same_items m m' \<Longrightarrow> same_keys m m'"
  by (simp add: same_items_def same_keys_def)

lemma same_keysD:
  "same_keys m m' \<Longrightarrow> key (m' x) = key (m x)" "same_keys m m' \<Longrightarrow> keylen (m' x) = keylen (m x)"
  "same_keys m m' \<Longrightarrow> hashv (m' x) = hashv (m x)"
  by (auto simp: same_keys_def fun_eq_iff)

lemma same_keys_trans: "same_keys m m' \<Longrightarrow> same_keys m' m'' \<Longrightarrow> same_keys m m''"
  by (simp add: same_keys_def)

lemma same_keys_set [simp]:
  "same_keys m (set_nxt p v m') = same_keys m m'" "same_keys m (set_prev p v m') = same_keys m m'"
  "same_keys m (set_tbl p v m') = same_keys m m'"
  "same_keys m (if_set set_nxt q v m') = same_keys m m'" "same_keys m m"
  by (simp_all add: same_keys_def if_set_def split: option.split)

lemma buckets_ok_on:
  assumes ok: "buckets_ok m n bs X cs"
    and same: "\<And>y. y \<in> X \<Longrightarrow> hh_next (m' y) = hh_next (m y)" "\<And>y. y \<in> X \<Longrightarrow> hh_prev (m' y) = hh_prev (m y)"
      "\<And>y. y \<in> X \<Longrightarrow> hashv (m' y) = hashv (m y)"
    and bs: "length bs' = length bs" "\<And>i. i < length bs \<Longrightarrow> hh_head (bs' ! i) = hh_head (bs ! i)"
      "\<And>i. i < length bs \<Longrightarrow> count (bs' ! i) = count (bs ! i)"
  shows "buckets_ok m' n bs' X cs"
proof -
  have len: "length bs = unat n"
    using ok by (simp add: buckets_ok_def)
  have "dlist (hh_next \<circ> m') (hh_prev \<circ> m') (hh_head (bs ! i)) (cs ! i)" if "i < length bs" for i
    using buckets_okD(1,3) [OF ok, of i] that len same
    by (subst dseg_frame [where nx = "hh_next \<circ> m" and pv = "hh_prev \<circ> m"]) auto
  moreover have "{x \<in> X. bkt n (hashv (m' x)) = i} = {x \<in> X. bkt n (hashv (m x)) = i}" for i
    using same(3) by auto
  ultimately show ?thesis
    using ok bs by (simp add: buckets_ok_def chain_ok_def)
qed

text \<open>The handle goes to the front of its chain, before anything is expanded.\<close>

definition push_bucket :: "nat \<Rightarrow> ptr \<Rightarrow> ptr \<Rightarrow> hash_mem \<Rightarrow> hash_mem" where
  "push_bucket i t x s =
     (let b = buckets (table_at s t) ! i
      in upd_table t (upd_bucket i (\<lambda>b. b\<lparr>count := count b + 1, hh_head := Some x\<rparr>))
           (upd_hh (if_set set_hh_prev (hh_head b) (Some x) \<circ> set_hh_prev x None \<circ> set_hh_next x (hh_head b)) s))"

lemma push_bucket_ok:
  fixes s :: hash_mem and t x :: ptr
  assumes bk: "in_buckets (hh s) (table_at s t) X" and x: "x \<notin> X" and sz: "sizes_ok (table_at s t)"
    and fin: "finite X" "card X + 1 < 2 ^ 32"
  defines "i \<equiv> bkt (num_buckets (table_at s t)) (hashv (hh s x))"
  defines "s' \<equiv> push_bucket i t x s"
  shows "in_buckets (hh s') (table_at s' t) (insert x X)" "same_app (hh s) (hh s')"
    "tables s' t \<noteq> None" "sizes_ok (table_at s' t)" "num_buckets (table_at s' t) = num_buckets (table_at s t)"
    "tail (table_at s' t) = tail (table_at s t)" "num_items (table_at s' t) = num_items (table_at s t)"
    "log2_num_buckets (table_at s' t) = log2_num_buckets (table_at s t)"
proof -
  obtain cs where cs: "buckets_ok (hh s) (num_buckets (table_at s t)) (buckets (table_at s t)) X cs"
    using bk by (auto simp: in_buckets_def)
  show app: "same_app (hh s) (hh s')"
    by (simp add: s'_def push_bucket_def Let_def)
  have "buckets_ok (hh s') (num_buckets (table_at s t)) ((buckets (table_at s t))[i :=
      (buckets (table_at s t) ! i)\<lparr>count := count (buckets (table_at s t) ! i) + 1, hh_head := Some x\<rparr>])
      (insert x X) (cs[i := x # cs ! i])"
    using app unfolding i_def
    by (intro buckets_ok_push [OF cs x sizes_ok_nonzero [OF sz] fin refl])
      (simp_all add: s'_def i_def push_bucket_def Let_def same_app_def same_items_def)
  then show "in_buckets (hh s') (table_at s' t) (insert x X)"
    by (auto simp: in_buckets_def s'_def push_bucket_def Let_def upd_bucket_def)
qed (use sz in \<open>simp_all add: s'_def push_bucket_def Let_def\<close>)

lemma add_to_bkt_push:
  assumes "tbl_of s x = t"
  shows "HASH_ADD_TO_BKT uthash_malloc i x s =
     (let s' = push_bucket i t x s; b = buckets (table_at s t) ! i
      in if count b + 1 \<ge> (expand_mult b + 1) * HASH_BKT_CAPACITY_THRESH \<and> noexpand (table_at s t) = 0
         then (case HASH_EXPAND_BUCKETS uthash_malloc t s' of None \<Rightarrow> None
               | Some (s, oomed) \<Rightarrow> Some (if oomed then HASH_DEL_IN_BKT t i x s else s, oomed))
         else Some (s', False))"
proof -
  have *: "upd_table t f (upd_hh a (upd_hh b (upd_hh c s))) = upd_table t f (upd_hh (a \<circ> b \<circ> c) s)" for f a b c
    by (simp add: upd_hh_def)
  show ?thesis
    unfolding HASH_ADD_TO_BKT_def push_bucket_def Let_def assms by (simp only: * mem_simps if_True upd_bucket_simps simp_thms)
qed

text \<open>Taking the new handle out again when the larger array could not be allocated.\<close>

lemma rollback_can_cut:
  fixes s :: hash_mem and x t h :: ptr
  assumes bk: "in_buckets (hh s) (table_at s t) X" and x: "x \<notin> X" and sz: "sizes_ok (table_at s t)"
    and t: "tbl_of s h = t"
  defines "s' \<equiv> HASH_ROLLBACK_BKT h x s"
  shows "can_cut (hh s') (table_at s' t) x X" "same_app (hh s) (hh s')" "tables s' t \<noteq> None"
    "sizes_ok (table_at s' t)" "tail (table_at s' t) = tail (table_at s t)"
    "num_items (table_at s' t) = num_items (table_at s t)"
proof -
  let ?n = "num_buckets (table_at s t)" and ?bs = "buckets (table_at s t)"
  let ?i = "bkt ?n (hashv (hh s x))"
  obtain cs where cs: "buckets_ok (hh s) ?n ?bs X cs"
    using bk by (auto simp: in_buckets_def)
  have il: "?i < length ?bs"
    using cs bkt_less [OF sizes_ok_nonzero [OF sz]] by (simp add: buckets_ok_def)
  have s': "hh s' = set_hh_prev x None (set_hh_next x None (hh s))"
    "table_at s' t = upd_bucket ?i (count_update (\<lambda>c. c + 1)) (table_at s t)"
    by (simp_all add: s'_def HASH_ROLLBACK_BKT_def Let_def t bkt_def)
  show "same_app (hh s) (hh s')"
    by (simp add: s')
  show "tables s' t \<noteq> None" "sizes_ok (table_at s' t)" "tail (table_at s' t) = tail (table_at s t)"
    "num_items (table_at s' t) = num_items (table_at s t)"
    using sz by (simp_all add: s') (simp_all add: s'_def HASH_ROLLBACK_BKT_def Let_def t)
  have head: "hh_head (?bs ! ?i) \<noteq> Some x"
    using dseg_start [OF buckets_okD(1) [OF cs bkt_less [OF sizes_ok_nonzero [OF sz], of "hashv (hh s x)"]]]
      first_or_in [of "cs ! ?i" x] buckets_okD(3) [OF cs bkt_less [OF sizes_ok_nonzero [OF sz], of "hashv (hh s x)"]]
      x by auto
  have "in_buckets m' (upd_bucket ?i (bucket_cut (hh s') x) (table_at s' t)) X"
    if "chain_links_cut (hh s') x m'" for m'
  proof -
    have "hh_next \<circ> m' = hh_next \<circ> hh s'" "hh_prev \<circ> m' = hh_prev \<circ> hh s'" "hashv \<circ> m' = hashv \<circ> hh s"
      using that by (simp_all add: chain_links_cut_def s')
    then have same: "hh_next (m' y) = hh_next (hh s y)" "hh_prev (m' y) = hh_prev (hh s y)"
      "hashv (m' y) = hashv (hh s y)" if "y \<in> X" for y
      using that x by (auto simp: fun_eq_iff s')
    have "buckets_ok m' ?n (buckets (upd_bucket ?i (bucket_cut (hh s') x) (table_at s' t))) X cs"
      by (rule buckets_ok_on [OF cs same])
        (use il head in \<open>auto simp: s' upd_bucket_def bucket_cut_def nth_list_update\<close>)
    then show ?thesis
      by (auto simp: in_buckets_def s')
  qed
  then show "can_cut (hh s') (table_at s' t) x X"
    by (simp add: can_cut_def s' Let_def)
qed

text \<open>
  The result of an addition: the new element is in the hash, or memory ran out, which ends the
  process or, in the other configuration, leaves the hash as it was.
\<close>

definition added :: "bool \<Rightarrow> bool \<Rightarrow> handles \<Rightarrow> ptr list \<Rightarrow> ptr list \<Rightarrow> int + hash_mem \<times> ptr option \<Rightarrow> bool" where
  "added NONFATAL noroom m xs xs' r = (case r of
     Inl e \<Rightarrow> e = -1 \<and> \<not> NONFATAL \<and> noroom
   | Inr (s', head') \<Rightarrow> same_keys m (hh s') \<and> (ut_ok s' head' xs' \<or> NONFATAL \<and> noroom \<and> ut_ok s' head' xs))"

abbreviation no_room :: "(nat \<Rightarrow> ptr option) \<Rightarrow> UT_hash_table \<Rightarrow> bool" where
  "no_room uthash_malloc T \<equiv> uthash_malloc (sizeof_bucket * unat (num_buckets T) * 2) = None"

text \<open>64 GB of buckets cannot be had: then \<open>num_buckets\<close> stays a power of two below \<open>2\<^sup>3\<^sup>2\<close>.\<close>

definition bounded_memory :: "(nat \<Rightarrow> ptr option) \<Rightarrow> bool" where
  "bounded_memory uthash_malloc \<longleftrightarrow> uthash_malloc (sizeof_bucket * 2 ^ 31 * 2) = None"

lemma bounded_memory_log2:
  assumes "bounded_memory uthash_malloc" and "sizes_ok T" and "\<not> no_room uthash_malloc T"
  shows "unat (log2_num_buckets T) < 31"
proof (rule ccontr)
  assume "\<not> ?thesis"
  then have "unat (log2_num_buckets T) = 31"
    using assms(2) by (simp add: sizes_ok_def)
  then have "unat (num_buckets T) = 2 ^ 31"
    using assms(2) unat_power2 [of 31] by (simp add: sizes_ok_def)
  then show False
    using assms(1,3) by (simp add: bounded_memory_def)
qed

lemma ut_ok_set_tbl:
  assumes "ut_ok s head xs" and "x \<notin> set xs"
  shows "ut_ok (upd_hh (set_tbl x v) s) head xs"
proof -
  have "hash_at (upd_hh (set_tbl x v) s) t head xs" if "hash_at s t head xs" for t
    using that assms(2) in_buckets_frame [of "hh s" "table_at s t" "set xs" "set_tbl x v (hh s)"]
    by (auto simp: hash_at_def app_ok_def)
  then show ?thesis
    using assms(1) by (auto simp: ut_ok_def split: if_splits)
qed

text \<open>Into the bucket, or, when the array must grow and cannot, back out of it.\<close>

lemma add_to_bkt_ok:
  fixes s :: hash_mem and t x :: ptr
  assumes bk: "in_buckets (hh s) (table_at s t) X" and x: "x \<notin> X" and sz: "sizes_ok (table_at s t)"
    and fin: "finite X" "card X + 1 < 2 ^ 32" and t: "tbl_of s x = t"
    and mem: "bounded_memory uthash_malloc"
  defines "i \<equiv> bkt (num_buckets (table_at s t)) (hashv (hh s x))"
  shows "\<exists>s' oomed. HASH_ADD_TO_BKT uthash_malloc i x s = Some (s', oomed)
    \<and> same_app (hh s) (hh s') \<and> tables s' t \<noteq> None \<and> sizes_ok (table_at s' t)
    \<and> tail (table_at s' t) = tail (table_at s t) \<and> num_items (table_at s' t) = num_items (table_at s t)
    \<and> (if oomed then no_room uthash_malloc (table_at s t) \<and> in_buckets (hh s') (table_at s' t) X
       else in_buckets (hh s') (table_at s' t) (insert x X))"
proof -
  define s2 where "s2 = push_bucket i t x s"
  note push = push_bucket_ok [OF bk x sz fin, folded i_def, folded s2_def]
  define E where "E \<longleftrightarrow> count (buckets (table_at s t) ! i) + 1 \<ge> (expand_mult (buckets (table_at s t) ! i) + 1)
      * HASH_BKT_CAPACITY_THRESH \<and> noexpand (table_at s t) = 0"
  have bkt: "HASH_ADD_TO_BKT uthash_malloc i x s =
     (if E then (case HASH_EXPAND_BUCKETS uthash_malloc t s2 of None \<Rightarrow> None
               | Some (s, oomed) \<Rightarrow> Some (if oomed then HASH_DEL_IN_BKT t i x s else s, oomed))
      else Some (s2, False))"
    by (simp add: add_to_bkt_push [OF t] s2_def Let_def E_def)
  consider "\<not> E" | "E" "\<not> no_room uthash_malloc (table_at s t)" | "E" "no_room uthash_malloc (table_at s t)"
    by blast
  then show ?thesis
  proof cases
    case 1
    then show ?thesis
      using push by (intro exI [of _ s2] exI [of _ False]) (simp add: bkt)
  next
    case 2
    then obtain a where room: "uthash_malloc (sizeof_bucket * unat (num_buckets (table_at s2 t)) * 2) = Some a"
      using push(5) by auto
    have small: "unat (log2_num_buckets (table_at s2 t)) < 31"
      by (rule bounded_memory_log2 [OF mem push(4)]) (simp add: room)
    have "finite (insert x X)" "card (insert x X) < 2 ^ 32"
      using fin x by auto
    from expand_ok [where uthash_malloc = uthash_malloc, OF push(4,1) this room small]
    obtain s3 where "HASH_EXPAND_BUCKETS uthash_malloc t s2 = Some (s3, False)"
      "sizes_ok (table_at s3 t)" "in_buckets (hh s3) (table_at s3 t) (insert x X)"
      "same_app (hh s2) (hh s3)" "tables s3 t \<noteq> None" "tail (table_at s3 t) = tail (table_at s2 t)"
      "num_items (table_at s3 t) = num_items (table_at s2 t)"
      by blast
    then show ?thesis
      using 2 push same_app_trans [OF push(2), of "hh s3"]
      by (intro exI [of _ s3] exI [of _ False]) (simp add: bkt)
  next
    case 3
    then have exp: "HASH_EXPAND_BUCKETS uthash_malloc t s2 = Some (s2, True)"
      using push(5) by (simp add: HASH_EXPAND_BUCKETS_def Let_def)
    define s3 where "s3 = HASH_DEL_IN_BKT t i x s2"
    have i2: "i = bkt (num_buckets (table_at s2 t)) (hashv (hh s2 x))"
      using push(2,5) same_itemsD(4) [of "hh s" "hh s2"] by (simp add: i_def same_app_def)
    have "insert x X - {x} = X"
      using x by auto
    then have cut: "can_cut (hh s2) (table_at s2 t) x X"
      using buckets_can_cut [OF push(1) _ sizes_ok_nonzero [OF push(4)], of x] by simp
    then have "hh_prev (hh s2 x) \<noteq> Some x"
      by (simp add: can_cut_def)
    note del = del_in_bkt [OF this, of t i, folded s3_def]
    have "in_buckets (hh s3) (table_at s3 t) X"
      using cut del(1) by (simp add: can_cut_def del(4) i2)
    then show ?thesis
      using 3 push same_app_trans [OF push(2) del(2)]
      by (intro exI [of _ s3] exI [of _ True]) (simp add: bkt exp s3_def [symmetric] del)
  qed
qed

lemma add_to_table_ok:
  assumes tab: "tables s t \<noteq> None" and app: "app_ok (hh s) (table_at s t) (Some h) (us @ x # vs)"
    and sz: "sizes_ok (table_at s t)" and bk: "in_buckets (hh s) (table_at s t) (set (us @ vs))"
    and num: "unat (num_items (table_at s t)) = length (us @ vs)" "length (us @ x # vs) < 2 ^ 32"
    and own: "\<forall>y \<in> set (us @ x # vs). tbl (hh s y) = Some t"
    and hv: "hashv (hh s x) = hv" and mem: "bounded_memory uthash_malloc"
  shows "\<exists>r. HASH_ADD_TO_TABLE uthash_malloc NONFATAL hv h x s = Some r
    \<and> added NONFATAL (no_room uthash_malloc (table_at s t)) (hh s) (us @ vs) (us @ x # vs) r"
proof -
  let ?T = "table_at s t" and ?xs = "us @ x # vs"
  define s1 where "s1 = upd_table t (num_items_update (\<lambda>n. n + 1)) s"
  define i where "i = bkt (num_buckets (table_at s1 t)) (hashv (hh s1 x))"
  have dis: "distinct ?xs"
    using app unfolding app_ok_def by (blast dest: dseg_distinct)
  have "h \<in> set ?xs"
    using app dseg_start first_or_in by (metis app_ok_def)
  then have t: "tbl_of s h = t" "tbl_of s1 x = t"
    using own by (auto simp: tbl_of_def s1_def)
  have x: "x \<notin> set (us @ vs)" "card (set (us @ vs)) + 1 < 2 ^ 32" "insert x (set (us @ vs)) = set ?xs"
    using dis num(2) by (auto simp: card_Un_disjoint distinct_card)
  have s1: "hh s1 = hh s" "table_at s1 t = num_items_update (\<lambda>n. n + 1) ?T"
    by (simp_all add: s1_def)
  have bk1: "in_buckets (hh s1) (table_at s1 t) (set (us @ vs))" and sz1: "sizes_ok (table_at s1 t)"
    using bk sz by (simp_all add: s1)
  have nb: "num_buckets (table_at s1 t) = num_buckets ?T"
    by (simp add: s1)
  from add_to_bkt_ok [OF bk1 x(1) sz1 finite_set x(2) t(2) mem] obtain s2 oomed where
    add: "HASH_ADD_TO_BKT uthash_malloc i x s1 = Some (s2, oomed)" and same: "same_app (hh s) (hh s2)"
    and t2: "tables s2 t \<noteq> None" "sizes_ok (table_at s2 t)" "tail (table_at s2 t) = tail ?T"
      "num_items (table_at s2 t) = num_items ?T + 1"
    and bk2: "if oomed then no_room uthash_malloc ?T \<and> in_buckets (hh s2) (table_at s2 t) (set (us @ vs))
       else in_buckets (hh s2) (table_at s2 t) (set ?xs)"
    unfolding i_def [symmetric] x(3) unfolding nb by (auto simp: s1)
  have "unat (num_items ?T + 1) = length ?xs"
    using num by (simp add: unat_word_ariths)
  then have listed: "listed_at s' t (Some h) ?xs"
    if "same_app (hh s) (hh s')" "tail (table_at s' t) = tail ?T" "num_items (table_at s' t) = num_items ?T + 1"
       "tables s' t \<noteq> None" "sizes_ok (table_at s' t)" for s'
    using that app own same_itemsD(1) [of "hh s" "hh s'"] by (simp add: listed_at_def app_ok_def same_app_def)
  have table: "HASH_ADD_TO_TABLE uthash_malloc NONFATAL hv h x s =
     (if \<not> oomed then Some (Inr (s2, Some h))
      else if \<not> NONFATAL then Some (Inl (-1))
      else let (s, head) = HASH_DELETE_HH x (Some h) (HASH_ROLLBACK_BKT h x s2)
           in Some (Inr (upd_hh (set_tbl x None) s, head)))"
    using add unfolding HASH_ADD_TO_TABLE_def Let_def t s1_def [symmetric] by (simp add: i_def bkt_def hv s1)
  show ?thesis
  proof (cases oomed)
    case False
    then have "ut_ok s2 (Some h) ?xs"
      using listed [OF same t2(3,4,1,2)] bk2 by (auto simp: ut_ok_def hash_at_listed)
    then show ?thesis
      using False same same_items_keys by (auto simp: table added_def same_app_def)
  next
    case True
    have t2h: "tbl_of s2 h = t"
      using t(1) same same_itemsD(1) [of "hh s" "hh s2"] by (simp add: tbl_of_def same_app_def)
    have out: "no_room uthash_malloc ?T" "in_buckets (hh s2) (table_at s2 t) (set (us @ vs))"
      using True bk2 by auto
    define s4 where "s4 = HASH_ROLLBACK_BKT h x s2"
    note roll = rollback_can_cut [OF out(2) x(1) t2(2) t2h, folded s4_def]
    have same4: "same_app (hh s) (hh s4)"
      by (rule same_app_trans [OF same roll(2)])
    have l4: "listed_at s4 t (Some h) ?xs"
      by (rule listed [OF same4 _ _ roll(3,4)]) (simp_all add: roll t2)
    obtain s5 head5 where res: "HASH_DELETE_HH x (Some h) s4 = (s5, head5)"
      by fastforce
    note gone = delete_listed [OF l4 roll(1) res]
    have "same_keys (hh s) (set_tbl x None (hh s5))"
      using same4 gone(2) by (simp add: same_app_def same_items_def same_keys_def)
    moreover have "ut_ok (upd_hh (set_tbl x None) s5) head5 (us @ vs)"
      using gone(1) x(1) by (rule ut_ok_set_tbl)
    ultimately show ?thesis
      using True out(1) by (simp add: table s4_def [symmetric] res added_def)
  qed
qed

text \<open>The element becomes the first one of a new table.\<close>

lemma first_element_ok:
  assumes mem: "bounded_memory uthash_malloc" and hv: "hashv (hh s x) = hv"
  shows "\<exists>r. first_element uthash_malloc NONFATAL hv x s = Some r
    \<and> added NONFATAL (uthash_malloc sizeof_table = None \<or> uthash_malloc (32 * sizeof_bucket) = None
         \<or> uthash_malloc (sizeof_bucket * 32 * 2) = None) (hh s) [] [x] r"
    (is "\<exists>r. _ \<and> added _ ?noroom _ _ _ r")
proof -
  define s1 where "s1 = upd_hh (set_prev x None) (upd_hh (set_nxt x None) s)"
  obtain s2 oomed where make: "HASH_MAKE_TABLE uthash_malloc x s1 = (s2, oomed)"
    by fastforce
  have first: "first_element uthash_malloc NONFATAL hv x s =
     (if \<not> oomed then HASH_ADD_TO_TABLE uthash_malloc NONFATAL hv x x s2
      else if \<not> NONFATAL then Some (Inl (-1)) else Some (Inr (upd_hh (set_tbl x None) s2, None)))"
    by (simp add: first_element_def s1_def [symmetric] make)
  have keys: "same_keys (hh s) (hh s2)"
    using make by (auto simp: HASH_MAKE_TABLE_def s1_def Let_def split: option.splits)
  show ?thesis
  proof (cases oomed)
    case True
    then have "uthash_malloc sizeof_table = None \<or> uthash_malloc (32 * sizeof_bucket) = None"
      using make by (auto simp: HASH_MAKE_TABLE_def HASH_INITIAL_NUM_BUCKETS_def Let_def split: option.splits)
    then show ?thesis
      using True keys by (auto simp: first added_def ut_ok_def)
  next
    case False
    then obtain t where t: "hh s2 = set_tbl x (Some t) (hh s1)" "tables s2 t \<noteq> None"
      and T: "table_at s2 t = zero_table\<lparr>tail := Some x, num_buckets := 32, log2_num_buckets := 5,
        signature := HASH_SIGNATURE, buckets := replicate 32 zero_bucket\<rparr>"
      using make by (auto simp: HASH_MAKE_TABLE_def HASH_INITIAL_NUM_BUCKETS_def table_at_def
          HASH_INITIAL_NUM_BUCKETS_LOG2_def Let_def split: option.splits)
    have T': "num_buckets (table_at s2 t) = 32" "buckets (table_at s2 t) = replicate 32 zero_bucket"
      "num_items (table_at s2 t) = 0" "tail (table_at s2 t) = Some x" "log2_num_buckets (table_at s2 t) = 5"
      by (simp_all add: T zero_table_def)
    have "app_ok (hh s2) (table_at s2 t) (Some x) ([] @ x # [])" "sizes_ok (table_at s2 t)"
      by (simp_all add: app_ok_def T' t s1_def sizes_ok_def)
    moreover have "in_buckets (hh s2) (table_at s2 t) (set ([] @ []))"
      using buckets_ok_empty [of "hh s2" 32] by (auto simp: in_buckets_def T')
    moreover have "unat (num_items (table_at s2 t)) = length ([] @ [])" "length ([] @ x # []) < 2 ^ 32"
      "\<forall>y \<in> set ([] @ x # []). tbl (hh s2 y) = Some t" "hashv (hh s2 x) = hv"
      using hv by (simp_all add: T' t s1_def)
    ultimately have "\<exists>r. HASH_ADD_TO_TABLE uthash_malloc NONFATAL hv x x s2 = Some r
       \<and> added NONFATAL (no_room uthash_malloc (table_at s2 t)) (hh s2) ([] @ []) ([] @ x # []) r"
      using t(2) mem by (intro add_to_table_ok)
    then show ?thesis
      using False keys same_keys_trans by (fastforce simp: first added_def T' split: sum.splits)
  qed
qed

text \<open>What the next addition may need to allocate.\<close>

definition lacks_memory :: "(nat \<Rightarrow> ptr option) \<Rightarrow> ptr option \<Rightarrow> hash_mem \<Rightarrow> bool" where
  "lacks_memory uthash_malloc head s = (case head of
     None \<Rightarrow> uthash_malloc sizeof_table = None \<or> uthash_malloc (32 * sizeof_bucket) = None
         \<or> uthash_malloc (sizeof_bucket * 32 * 2) = None
   | Some h \<Rightarrow> no_room uthash_malloc (table_at s (tbl_of s h)))"

lemma key_set_frame:
  assumes "hash_at s t head xs" and "x \<notin> set xs"
  shows "hash_at (upd_hh (set_key x k hv) s) t head xs"
proof -
  have "in_buckets (set_key x k hv (hh s)) (table_at s t) (set xs)"
    using assms(1) buckets_ok_on [of "hh s" _ _ "set xs" _ "set_key x k hv (hh s)"] assms(2)
    unfolding hash_at_def in_buckets_def by (metis (no_types, lifting) set_key_fields(8,10,16))
  then show ?thesis
    using assms by (auto simp: hash_at_def app_ok_def)
qed

text \<open>Linked in between \<open>us\<close> and \<open>vs\<close>, the element still has to go to its bucket.\<close>

lemma add_linked_ok:
  assumes at: "hash_at s t head (us @ vs)" and new: "x \<notin> set (us @ vs)" "us @ vs \<noteq> []"
    and len: "length (us @ vs) + 1 < 2 ^ 32" and mem: "bounded_memory uthash_malloc"
    and links: "nxt \<circ> hh s' = upd_opt ((nxt \<circ> hh s)(x := first_or None vs)) (last_or None us) (Some x)"
      "prev \<circ> hh s' = upd_opt ((prev \<circ> hh s)(x := last_or None us)) (first_or None vs) (Some x)"
    and rest: "same_chains (hh s) (hh s')" "tbl \<circ> hh s' = (tbl \<circ> hh s)(x := Some t)" "same_keys (hh s) (hh s')"
    and tab: "tables s' t \<noteq> None" "table_at s' t = tail_update (\<lambda>_. last_or (Some x) vs) (table_at s t)"
    and hv: "hashv (hh s x) = hv" and h: "Some h = (if us = [] then Some x else head)"
  shows "\<exists>r. HASH_ADD_TO_TABLE uthash_malloc NONFATAL hv h x s' = Some r
    \<and> added NONFATAL (no_room uthash_malloc (table_at s t)) (hh s) (us @ vs) (us @ x # vs) r"
proof -
  have dl: "dlist (nxt \<circ> hh s) (prev \<circ> hh s) head (us @ vs)"
    by (rule hash_atD(1) [OF at])
  have "dlist ((nxt \<circ> hh s)(x := first_or None vs)) ((prev \<circ> hh s)(x := last_or None us)) head (us @ vs)"
    using dl new(1) by (simp del: fun_upd_apply)
  then have "dlist (nxt \<circ> hh s') (prev \<circ> hh s') (if us = [] then Some x else head) (us @ x # vs)"
    unfolding links by (rule dlist_insert) (use new in simp_all)
  then have app: "app_ok (hh s') (table_at s' t) (Some h) (us @ x # vs)"
    using h tab(2) by (simp add: app_ok_def last_or_append)
  have hv': "hashv (hh s' x) = hv"
    using same_keysD(3) [OF rest(3)] hv by simp
  have bk: "in_buckets (hh s') (table_at s' t) (set (us @ vs))"
    using at rest(1) in_buckets_frame tab(2) by (fastforce simp: hash_at_def)
  have "tbl (hh s' y) = Some t" if "y \<in> set (us @ x # vs)" for y
    using that at fun_cong [OF rest(2), of y] by (auto simp: hash_at_def)
  moreover have "sizes_ok (table_at s' t)" "unat (num_items (table_at s' t)) = length (us @ vs)"
    "length (us @ x # vs) < 2 ^ 32"
    using at len tab(2) by (simp_all add: hash_at_def)
  ultimately have "\<exists>r. HASH_ADD_TO_TABLE uthash_malloc NONFATAL hv h x s' = Some r
      \<and> added NONFATAL (no_room uthash_malloc (table_at s' t)) (hh s') (us @ vs) (us @ x # vs) r"
    using tab(1) app bk hv' mem by (intro add_to_table_ok) auto
  then show ?thesis
    using rest(3) same_keys_trans by (fastforce simp: tab(2) added_def split: sum.splits)
qed

lemma append_ok:
  fixes s :: hash_mem and t x h :: ptr
  assumes at: "hash_at s t (Some h) xs" and new: "x \<notin> set xs"
  defines "s' \<equiv> HASH_APPEND_LIST h x (upd_hh (set_tbl x (tbl (hh s h))) s)"
  shows "nxt \<circ> hh s' = upd_opt ((nxt \<circ> hh s)(x := None)) (last_or None xs) (Some x)"
    "prev \<circ> hh s' = (prev \<circ> hh s)(x := last_or None xs)"
    "same_chains (hh s) (hh s')" "tbl \<circ> hh s' = (tbl \<circ> hh s)(x := Some t)" "same_keys (hh s) (hh s')"
    "tables s' t \<noteq> None" "table_at s' t = tail_update (\<lambda>_. Some x) (table_at s t)"
proof -
  have h: "h \<in> set xs"
    using hash_atD(4) [OF at] first_or_in by metis
  then have t: "tbl (hh s h) = Some t" "h \<noteq> x"
    using at new by (auto simp: hash_at_def)
  obtain l where l: "last_or None xs = Some l" "tail (table_at s t) = Some l"
    using h hash_atD(2) [OF at] by (cases "last_or None xs") (auto simp: last_or_None)
  note s = s'_def HASH_APPEND_LIST_def Let_def tbl_of_def
  show "nxt \<circ> hh s' = upd_opt ((nxt \<circ> hh s)(x := None)) (last_or None xs) (Some x)"
    "prev \<circ> hh s' = (prev \<circ> hh s)(x := last_or None xs)"
    "same_chains (hh s) (hh s')" "tbl \<circ> hh s' = (tbl \<circ> hh s)(x := Some t)" "same_keys (hh s) (hh s')"
    "tables s' t \<noteq> None" "table_at s' t = tail_update (\<lambda>_. Some x) (table_at s t)"
    using t l by (simp_all add: s)
qed

definition keyed :: "ptr \<Rightarrow> byte list \<Rightarrow> unsigned \<Rightarrow> hash_mem \<Rightarrow> handles" where
  "keyed x k hv s = set_key x k hv (hh s)"

theorem add_keyptr_ok:
  assumes ok: "ut_ok s head xs" and new: "x \<notin> set xs" and len: "length xs + 1 < 2 ^ 32"
    and mem: "bounded_memory uthash_malloc"
  shows "\<exists>r. HASH_ADD_KEYPTR_BYHASHVALUE uthash_malloc NONFATAL k hv x head s = Some r
    \<and> added NONFATAL (lacks_memory uthash_malloc head s) (keyed x k hv s) xs (xs @ [x]) r"
proof -
  define s1 where "s1 = upd_hh (set_key x k hv) s"
  have hv: "hashv (hh s1 x) = hv" and m: "keyed x k hv s = hh s1"
    by (simp_all add: s1_def keyed_def)
  show ?thesis
  proof (cases head)
    case None
    then show ?thesis
      using ok first_element_ok [OF mem hv, of NONFATAL]
      by (auto simp: HASH_ADD_KEYPTR_BYHASHVALUE_def ut_ok_def lacks_memory_def m s1_def Let_def)
  next
    case (Some h)
    define t where "t = tbl_of s h"
    have at0: "hash_at s t (Some h) xs"
      using ut_ok_head(1) ok Some by (simp add: t_def)
    have at: "hash_at s1 t (Some h) xs"
      using key_set_frame [OF at0 new] by (simp add: s1_def)
    have xs: "xs \<noteq> []"
      using hash_atD(4) [OF at] by auto
    define s2 where "s2 = HASH_APPEND_LIST h x (upd_hh (set_tbl x (tbl (hh s1 h))) s1)"
    note app = append_ok [OF at new, folded s2_def]
    have "\<exists>r. HASH_ADD_TO_TABLE uthash_malloc NONFATAL hv h x s2 = Some r
      \<and> added NONFATAL (no_room uthash_malloc (table_at s1 t)) (hh s1) (xs @ []) (xs @ x # []) r"
      by (rule add_linked_ok [where head = "Some h"]) (use at new xs len mem app hv in simp_all)
    then show ?thesis
      by (simp add: HASH_ADD_KEYPTR_BYHASHVALUE_def Some lacks_memory_def m s1_def [symmetric] s2_def Let_def
          t_def [symmetric]) (simp add: s1_def t_def)
  qed
qed

section \<open>Addition in order\<close>

lemma akbi_loop:
  assumes "dseg (nxt \<circ> m) pv a (Some p) xs None"
  shows "HASH_AKBI_INNER_LOOP cmp m p = Some (first_or None (dropWhile (\<lambda>y. cmp y \<le> 0) xs))"
  using assms
proof (induction xs arbitrary: a p)
  case (Cons y ys)
  then have p: "p = y" and rest: "dseg (nxt \<circ> m) pv (Some y) (nxt (m y)) ys None"
    by (simp_all add: comp_def)
  show ?case
  proof (cases "nxt (m y)")
    case None
    then have "ys = []"
      using rest by (cases ys) simp_all
    then show ?thesis
      using None p by (simp add: HASH_AKBI_INNER_LOOP.simps)
  next
    case (Some n)
    have "HASH_AKBI_INNER_LOOP cmp m n = Some (first_or None (dropWhile (\<lambda>y. cmp y \<le> 0) ys))"
      using Cons.IH [of "Some y" n] rest by (simp add: Some comp_def)
    then show ?thesis
      using Some p by (subst HASH_AKBI_INNER_LOOP.simps) simp
  qed
qed simp

text \<open>The element goes behind those that the comparison puts before it, or finds equal.\<close>

definition insert_inorder :: "(ptr \<Rightarrow> ptr \<Rightarrow> int) \<Rightarrow> ptr \<Rightarrow> ptr list \<Rightarrow> ptr list" where
  "insert_inorder cmp x xs = takeWhile (\<lambda>y. cmp y x \<le> 0) xs @ x # dropWhile (\<lambda>y. cmp y x \<le> 0) xs"

theorem add_inorder_ok:
  assumes ok: "ut_ok s head xs" and new: "x \<notin> set xs" and len: "length xs + 1 < 2 ^ 32"
    and mem: "bounded_memory uthash_malloc"
  shows "\<exists>r. HASH_ADD_KEYPTR_BYHASHVALUE_INORDER cmp uthash_malloc NONFATAL k hv x head s = Some r
    \<and> added NONFATAL (lacks_memory uthash_malloc head s) (keyed x k hv s) xs (insert_inorder cmp x xs) r"
proof -
  define s1 where "s1 = upd_hh (set_key x k hv) s"
  have hv: "hashv (hh s1 x) = hv" and m: "keyed x k hv s = hh s1"
    by (simp_all add: s1_def keyed_def)
  show ?thesis
  proof (cases head)
    case None
    then show ?thesis
      using ok first_element_ok [OF mem hv, of NONFATAL]
      by (auto simp: HASH_ADD_KEYPTR_BYHASHVALUE_INORDER_def ut_ok_def lacks_memory_def m s1_def Let_def
          insert_inorder_def)
  next
    case (Some h)
    define t where "t = tbl_of s h"
    have at0: "hash_at s t (Some h) xs"
      using ut_ok_head(1) ok Some by (simp add: t_def)
    have at: "hash_at s1 t (Some h) xs"
      using key_set_frame [OF at0 new] by (simp add: s1_def)
    have h: "h \<in> set xs"
      using hash_atD(4) [OF at] first_or_in by metis
    have t: "tbl (hh s1 h) = Some t" "table_at s1 t = table_at s t"
      using at h by (auto simp: hash_at_def s1_def)
    define us vs where "us = takeWhile (\<lambda>y. cmp y x \<le> 0) xs" and "vs = dropWhile (\<lambda>y. cmp y x \<le> 0) xs"
    have xs: "xs = us @ vs" "us @ vs \<noteq> []"
      using h by (auto simp: us_def vs_def)
    have at': "hash_at s1 t (Some h) (us @ vs)"
      using at xs by simp
    define s2 where "s2 = upd_hh (set_tbl x (tbl (hh s1 h))) s1"
    have "HASH_AKBI_INNER_LOOP (\<lambda>iter. cmp iter x) (hh s2) h = Some (first_or None vs)"
      using akbi_loop [of "hh s2" "prev \<circ> hh s1" None h xs] hash_atD(1) [OF at] by (simp add: s2_def vs_def)
    note find = this
    show ?thesis
    proof (cases vs)
      case Nil
      define s3 where "s3 = HASH_APPEND_LIST h x s2"
      note app = append_ok [OF at new, folded s2_def s3_def]
      have "\<exists>r. HASH_ADD_TO_TABLE uthash_malloc NONFATAL hv h x s3 = Some r
        \<and> added NONFATAL (no_room uthash_malloc (table_at s1 t)) (hh s1) (us @ vs) (us @ x # vs) r"
        by (rule add_linked_ok [where head = "Some h"]) (use at new xs len mem app hv Nil in simp_all)
      moreover have "HASH_ADD_KEYPTR_BYHASHVALUE_INORDER cmp uthash_malloc NONFATAL k hv x head s
        = HASH_ADD_TO_TABLE uthash_malloc NONFATAL hv h x s3"
        unfolding HASH_ADD_KEYPTR_BYHASHVALUE_INORDER_def Let_def Some option.case s1_def [symmetric]
          s2_def [symmetric] find s3_def by (simp add: Nil)
      ultimately show ?thesis
        by (simp add: Some lacks_memory_def m t_def [symmetric] insert_inorder_def us_def [symmetric]
            vs_def [symmetric] xs(1) [symmetric] t)
    next
      case (Cons y ys)
      have y: "y \<noteq> x" "prev (hh s1 y) = last_or None us" "last_or None us \<noteq> Some x"
        using new xs(1) Cons dlist_ends(1) [of "nxt \<circ> hh s1" "prev \<circ> hh s1" "Some h" us y ys]
          hash_atD(1) [OF at'] last_or_in [of us x] by auto
      have "tail (table_at s1 t) = last_or (Some x) vs"
        using hash_atD(2) [OF at'] Cons by (simp add: last_or_append)
      then have tl: "table_at s1 t = tail_update (\<lambda>_. last_or (Some x) vs) (table_at s1 t)"
        by (cases "table_at s1 t") simp
      have tab: "tables s1 t \<noteq> None"
        using at by (simp add: hash_at_def)
      define s3 where "s3 = upd_hh (set_prev y (Some x)) (upd_hh (if_set set_nxt (last_or None us) (Some x))
        (upd_hh (set_prev x (last_or None us)) (upd_hh (set_nxt x (Some y)) s2)))"
      define h3 where "h3 = (if us = [] then x else h)"
      have "\<exists>r. HASH_ADD_TO_TABLE uthash_malloc NONFATAL hv h3 x s3 = Some r
        \<and> added NONFATAL (no_room uthash_malloc (table_at s1 t)) (hh s1) (us @ vs) (us @ x # vs) r"
      proof (rule add_linked_ok [where head = "Some h"])
        show "table_at s3 t = tail_update (\<lambda>_. last_or (Some x) vs) (table_at s1 t)"
          unfolding s3_def s2_def mem_simps by (rule tl)
      qed (use at' new xs len mem hv y h3_def t tab in \<open>simp_all add: s3_def s2_def Cons\<close>)
      moreover have "HASH_ADD_KEYPTR_BYHASHVALUE_INORDER cmp uthash_malloc NONFATAL k hv x head s
        = HASH_ADD_TO_TABLE uthash_malloc NONFATAL hv h3 x s3"
      proof -
        have "prev (hh (upd_hh (set_nxt x (Some y)) s2) y) = last_or None us"
          using y by (simp add: s2_def)
        moreover have "prev (hh (upd_hh (set_prev x (last_or None us)) z) x) = last_or None us" for z
          by simp
        moreover have "prev (hh (upd_hh (if_set set_nxt q v) (upd_hh (set_prev x (last_or None us)) z)) x)
          = last_or None us" for q v z
          by (simp add: if_set_def split: option.split)
        ultimately show ?thesis
          unfolding HASH_ADD_KEYPTR_BYHASHVALUE_INORDER_def Let_def Some option.case s1_def [symmetric]
            s2_def [symmetric] find s3_def h3_def Cons first_or_simps
          by (simp only: last_or_None)
      qed
      ultimately show ?thesis
        by (simp add: Some lacks_memory_def m t_def [symmetric] insert_inorder_def us_def [symmetric]
            vs_def [symmetric] xs(1) [symmetric] t)
    qed
  qed
qed

end
