(* ===== verification/UtHashMap.thy ===== *)
theory UtHashMap
  imports UtHashAdd
begin

text \<open>
  A hash as a finite map from keys to elements: what finding, adding, deleting and replacing do to
  it.
\<close>

section \<open>Finding\<close>

lemma find_loop_find:
  "dseg (hh_next \<circ> m) pv a p c None \<Longrightarrow>
   find_loop matches m p = Some (List.find (\<lambda>x. matches (m x)) c)"
proof (induction c arbitrary: a p)
  case (Cons x c)
  then have "find_loop matches m (hh_next (m x)) = Some (List.find (\<lambda>x. matches (m x)) c)"
    using Cons.IH [of "Some x" "hh_next (m x)"] by (simp add: comp_def)
  then show ?case
    using Cons.prems by (subst find_loop.simps) simp
qed (simp add: find_loop.simps)

text \<open>Every handle carries the hash value and the length of its key.\<close>

definition hashed :: "(byte list \<Rightarrow> unsigned) \<Rightarrow> handles \<Rightarrow> ptr list \<Rightarrow> bool" where
  "hashed H m xs \<longleftrightarrow> (\<forall>x \<in> set xs. hashv (m x) = H (key (m x))
     \<and> keylen (m x) = of_nat (length (key (m x))) \<and> length (key (m x)) < 2 ^ 32)"

lemma hashed_frame: "hashed H m xs \<Longrightarrow> same_keys m m' \<Longrightarrow> set ys \<subseteq> set xs \<Longrightarrow> hashed H m' ys"
  by (auto simp: hashed_def same_keysD)

lemma key_matches_iff:
  assumes "hashed H m xs" and "x \<in> set xs" and k: "length k < 2 ^ 32"
  shows "key_matches k (H k) (m x) \<longleftrightarrow> key (m x) = k"
proof -
  have h: "hashv (m x) = H (key (m x))" "keylen (m x) = of_nat (length (key (m x)))"
    "length (key (m x)) < 2 ^ 32"
    using assms by (auto simp: hashed_def)
  have "length (key (m x)) = length k" if "(of_nat (length (key (m x))) :: unsigned) = of_nat (length k)"
  proof -
    have "unat (of_nat (length (key (m x))) :: unsigned) = unat (of_nat (length k) :: unsigned)"
      using that by simp
    then show ?thesis
      using h(3) k by (simp add: unat_of_nat)
  qed
  then show ?thesis
    using h by (auto simp: key_matches_def HASH_KEYCMP_def split: if_splits)
qed

lemma find_ok:
  assumes ok: "ut_ok s head xs" and h: "hashed H (hh s) xs" and k: "length k < 2 ^ 32"
  shows "\<exists>r. HASH_FIND H k head s = Some r
    \<and> (case r of None \<Rightarrow> \<forall>x \<in> set xs. key (hh s x) \<noteq> k | Some x \<Rightarrow> x \<in> set xs \<and> key (hh s x) = k)"
proof (cases head)
  case None
  then show ?thesis
    using ok by (simp add: HASH_FIND_def HASH_FIND_BYHASHVALUE_def ut_ok_def)
next
  case (Some a)
  define T where "T = table_at s (tbl_of s a)"
  have at: "hash_at s (tbl_of s a) (Some a) xs"
    using ut_ok_head(1) ok Some by simp
  then obtain cs where cs: "buckets_ok (hh s) (num_buckets T) (buckets T) (set xs) cs"
    by (auto simp: hash_at_def in_buckets_def T_def)
  define i where "i = bkt (num_buckets T) (H k)"
  have "i < unat (num_buckets T)"
    using bkt_less hash_atD(5) [OF at] by (simp add: i_def T_def)
  note chain = buckets_okD [OF cs this]
  have "HASH_FIND H k head s = find_loop (key_matches k (H k)) (hh s) (hh_head (buckets T ! i))"
    by (simp add: HASH_FIND_def HASH_FIND_BYHASHVALUE_def HASH_FIND_IN_BKT_def Some i_def T_def bkt_def Let_def)
  also have "\<dots> = Some (List.find (\<lambda>x. key_matches k (H k) (hh s x)) (cs ! i))"
    by (rule find_loop_find [OF chain(1)])
  finally have find: "HASH_FIND H k head s = \<dots>" .
  have match: "key_matches k (H k) (hh s x) \<longleftrightarrow> key (hh s x) = k" if "x \<in> set xs" for x
    using key_matches_iff [OF h that k] .
  have sub: "set (cs ! i) \<subseteq> set xs"
    using chain(3) by auto
  show ?thesis
  proof (cases "List.find (\<lambda>x. key_matches k (H k) (hh s x)) (cs ! i)")
    case None
    have "key (hh s x) \<noteq> k" if "x \<in> set xs" for x
    proof
      assume e: "key (hh s x) = k"
      then have "x \<in> set (cs ! i)"
        using chain(3) that h by (auto simp: hashed_def i_def)
      then show False
        using None match [OF that] e by (auto simp: find_None_iff)
    qed
    then show ?thesis
      using find None by simp
  next
    case (Some x)
    then have "x \<in> set (cs ! i)" "key_matches k (H k) (hh s x)"
      by (auto simp: find_Some_iff)
    then show ?thesis
      using find Some match sub by auto
  qed
qed

section \<open>The hash as a map\<close>

definition ut_hash :: "(byte list \<Rightarrow> unsigned) \<Rightarrow> hash_mem \<Rightarrow> ptr option \<Rightarrow> ptr list \<Rightarrow> bool" where
  "ut_hash H s head xs \<longleftrightarrow> ut_ok s head xs \<and> hashed H (hh s) xs \<and> distinct (map (key \<circ> hh s) xs)"

definition ut_map :: "hash_mem \<Rightarrow> ptr list \<Rightarrow> byte list \<Rightarrow> ptr option" where
  "ut_map s xs = map_of (map (\<lambda>x. (key (hh s x), x)) xs)"

lemma ut_map_None: "ut_map s xs k = None \<longleftrightarrow> (\<forall>x \<in> set xs. key (hh s x) \<noteq> k)"
  by (auto simp: ut_map_def map_of_eq_None_iff image_iff)

lemma ut_map_Some:
  assumes "distinct (map (key \<circ> hh s) xs)"
  shows "ut_map s xs k = Some x \<longleftrightarrow> x \<in> set xs \<and> key (hh s x) = k"
proof -
  have "distinct (map fst (map (\<lambda>x. (key (hh s x), x)) xs))"
    using assms by (simp add: comp_def)
  then show ?thesis
    by (auto simp: ut_map_def map_of_eq_Some_iff)
qed

lemma ut_map_frame: "same_keys (hh s) (hh s') \<Longrightarrow> ut_map s' xs = ut_map s xs"
  by (simp add: ut_map_def same_keysD)

lemma ut_map_snoc: "ut_map s (xs @ [x]) = [key (hh s x) \<mapsto> x] ++ ut_map s xs"
  by (simp add: ut_map_def)

theorem find_map:
  assumes "ut_hash H s head xs" and "length k < 2 ^ 32"
  shows "HASH_FIND H k head s = Some (ut_map s xs k)"
proof -
  have h: "ut_ok s head xs" "hashed H (hh s) xs" "distinct (map (key \<circ> hh s) xs)"
    using assms(1) by (auto simp: ut_hash_def)
  obtain r where r: "HASH_FIND H k head s = Some r"
    "case r of None \<Rightarrow> \<forall>x \<in> set xs. key (hh s x) \<noteq> k | Some x \<Rightarrow> x \<in> set xs \<and> key (hh s x) = k"
    using find_ok [OF h(1,2) assms(2)] by blast
  have "r = ut_map s xs k"
    using r(2) ut_map_None [of s xs k] ut_map_Some [OF h(3), THEN iffD2, of _ k] by (cases r) auto
  then show ?thesis
    using r(1) by simp
qed

lemma map_eqI: "(\<And>k y. f k = Some y \<longleftrightarrow> g k = Some y) \<Longrightarrow> f = g"
  by (rule ext) (metis not_None_eq)

lemma ut_map_remove:
  assumes "distinct (map (key \<circ> hh s) (us @ x # vs))"
  shows "ut_map s (us @ vs) = (ut_map s (us @ x # vs))(key (hh s x) := None)"
proof (rule map_eqI)
  fix k y
  have "distinct (map (key \<circ> hh s) (us @ vs))"
    using assms by auto
  then show "ut_map s (us @ vs) k = Some y \<longleftrightarrow> ((ut_map s (us @ x # vs))(key (hh s x) := None)) k = Some y"
    using assms by (auto simp: ut_map_Some [OF assms] ut_map_Some) (force simp: image_iff)+
qed

theorem delete_map:
  assumes "ut_hash H s head (us @ x # vs)" and "HASH_DELETE_HH x head s = (s', head')"
  shows "ut_hash H s' head' (us @ vs)" "ut_map s' (us @ vs) = (ut_map s (us @ x # vs))(key (hh s x) := None)"
    "same_keys (hh s) (hh s')"
proof -
  have h: "ut_ok s head (us @ x # vs)" "hashed H (hh s) (us @ x # vs)" "distinct (map (key \<circ> hh s) (us @ x # vs))"
    using assms(1) by (auto simp: ut_hash_def)
  obtain t where at: "hash_at s t head (us @ x # vs)"
    using h(1) by (auto simp: ut_ok_def split: if_splits)
  note del = delete_ok [OF at assms(2)]
  have keys: "same_keys (hh s) (hh s')"
    by (rule same_items_keys [OF del(2)])
  then show "ut_hash H s' head' (us @ vs)"
    using del(1) h(2,3) hashed_frame [OF h(2) keys, of "us @ vs"] by (auto simp: ut_hash_def same_keys_def)
  show "ut_map s' (us @ vs) = (ut_map s (us @ x # vs))(key (hh s x) := None)"
    using ut_map_frame [OF keys] ut_map_remove [OF h(3)] by simp
  show "same_keys (hh s) (hh s')"
    by (rule keys)
qed

theorem add_map:
  assumes hash: "ut_hash H s head xs" and new: "x \<notin> set xs" and len: "length xs + 1 < 2 ^ 32"
    and mem: "bounded_memory uthash_malloc" and k: "length k < 2 ^ 32" "ut_map s xs k = None"
  shows "\<exists>r. HASH_ADD_KEYPTR H uthash_malloc NONFATAL k x head s = Some r \<and> (case r of
      Inl e \<Rightarrow> e = -1 \<and> \<not> NONFATAL \<and> lacks_memory uthash_malloc head s
    | Inr (s', head') \<Rightarrow>
        ut_hash H s' head' (xs @ [x]) \<and> ut_map s' (xs @ [x]) = (ut_map s xs)(k \<mapsto> x)
        \<or> NONFATAL \<and> lacks_memory uthash_malloc head s \<and> ut_hash H s' head' xs \<and> ut_map s' xs = ut_map s xs)"
proof -
  have h: "ut_ok s head xs" "hashed H (hh s) xs" "distinct (map (key \<circ> hh s) xs)"
    using hash by (auto simp: ut_hash_def)
  obtain r where r: "HASH_ADD_KEYPTR H uthash_malloc NONFATAL k x head s = Some r"
    "added NONFATAL (lacks_memory uthash_malloc head s) (keyed x k (H k) s) xs (xs @ [x]) r"
    using add_keyptr_ok [OF h(1) new len mem] unfolding HASH_ADD_KEYPTR_def by blast
  have old: "key (keyed x k (H k) s y) = key (hh s y)" if "y \<in> set xs" for y
    using that new by (auto simp: keyed_def)
  have all: "hashed H (keyed x k (H k) s) (xs @ [x])" "hashed H (keyed x k (H k) s) xs"
    using h(2) new k(1) by (auto simp: hashed_def keyed_def)
  have "map (key \<circ> keyed x k (H k) s) xs = map (key \<circ> hh s) xs" "(key \<circ> keyed x k (H k) s) x = k"
    using new by (auto simp: keyed_def)
  moreover have "k \<notin> set (map (key \<circ> hh s) xs)"
    using k(2) by (auto simp: ut_map_None)
  ultimately have dis: "distinct (map (key \<circ> keyed x k (H k) s) (xs @ [x]))"
    using h(3) by (simp only: map_append list.map distinct_append) simp
  have case_ok: "ut_hash H s' head' (xs @ [x]) \<and> ut_map s' (xs @ [x]) = (ut_map s xs)(k \<mapsto> x)"
    if "same_keys (keyed x k (H k) s) (hh s')" "ut_ok s' head' (xs @ [x])" for s' head'
  proof
    show "ut_hash H s' head' (xs @ [x])"
      using that dis hashed_frame [OF all(1) that(1)] by (simp add: ut_hash_def same_keys_def)
    have "ut_map s' xs = ut_map s xs" "key (hh s' x) = k"
      using old same_keysD(1) [OF that(1)] by (simp_all add: keyed_def ut_map_def cong: map_cong)
    then show "ut_map s' (xs @ [x]) = (ut_map s xs)(k \<mapsto> x)"
      using k(2) by (auto simp: ut_map_snoc fun_eq_iff map_add_def split: option.split)
  qed
  have same_ok: "ut_hash H s' head' xs \<and> ut_map s' xs = ut_map s xs"
    if "same_keys (keyed x k (H k) s) (hh s')" "ut_ok s' head' xs" for s' head'
  proof
    show "ut_hash H s' head' xs"
      using that dis hashed_frame [OF all(2) that(1)] by (simp add: ut_hash_def same_keys_def)
    show "ut_map s' xs = ut_map s xs"
      using old same_keysD(1) [OF that(1)] by (simp add: ut_map_def cong: map_cong)
  qed
  show ?thesis
    using r case_ok same_ok by (fastforce simp: added_def split: sum.splits)
qed

lemma add_map_enough:
  assumes "ut_hash H s head xs" "x \<notin> set xs" "length xs + 1 < 2 ^ 32" "bounded_memory uthash_malloc"
    and "length k < 2 ^ 32" "ut_map s xs k = None" "\<not> lacks_memory uthash_malloc head s"
  shows "\<exists>s' head'. HASH_ADD_KEYPTR H uthash_malloc NONFATAL k x head s = Some (Inr (s', head'))
    \<and> ut_hash H s' head' (xs @ [x]) \<and> ut_map s' (xs @ [x]) = (ut_map s xs)(k \<mapsto> x)"
proof -
  obtain r where r: "HASH_ADD_KEYPTR H uthash_malloc NONFATAL k x head s = Some r" "case r of
      Inl e \<Rightarrow> e = -1 \<and> \<not> NONFATAL \<and> lacks_memory uthash_malloc head s
    | Inr (s', head') \<Rightarrow>
        ut_hash H s' head' (xs @ [x]) \<and> ut_map s' (xs @ [x]) = (ut_map s xs)(k \<mapsto> x)
        \<or> NONFATAL \<and> lacks_memory uthash_malloc head s \<and> ut_hash H s' head' xs \<and> ut_map s' xs = ut_map s xs"
    using add_map [OF assms(1-6), of NONFATAL] by blast
  then show ?thesis
    using assms(7) by (cases r) auto
qed

lemma ut_map_ran: "ran (ut_map s xs) \<subseteq> set xs"
  by (auto simp: ut_map_def ran_def dest: map_of_SomeD)

text \<open>Deleting whatever the lookup of a key gave.\<close>

lemma delete_found_map:
  assumes hash: "ut_hash H s head xs" and found: "ut_map s xs k = Some y"
    and res: "HASH_DELETE_HH y head s = (s', head')"
  shows "\<exists>ys. ut_hash H s' head' ys \<and> ut_map s' ys = (ut_map s xs)(k := None) \<and> set ys = set xs - {y}
    \<and> length ys + 1 = length xs \<and> ut_map s' ys k = None"
proof -
  have dis: "distinct (map (key \<circ> hh s) xs)"
    using hash by (auto simp: ut_hash_def)
  then have y: "y \<in> set xs" "key (hh s y) = k"
    using found by (simp_all add: ut_map_Some)
  then obtain us vs where xs: "xs = us @ y # vs"
    by (meson split_list)
  have "distinct xs"
    using dis by (simp add: distinct_map)
  then have "set (us @ vs) = set xs - {y}" "length (us @ vs) + 1 = length xs"
    using xs by auto
  then show ?thesis
    using delete_map [OF hash [unfolded xs] res] y(2) xs by (intro exI [of _ "us @ vs"]) auto
qed

text \<open>What is left when the element with a key, if there is one, has been deleted.\<close>

definition without_key :: "hash_mem \<Rightarrow> ptr option \<Rightarrow> ptr list \<Rightarrow> byte list \<Rightarrow> hash_mem \<times> ptr option" where
  "without_key s head xs k = (case ut_map s xs k of None \<Rightarrow> (s, head) | Some r \<Rightarrow> HASH_DELETE_HH r head s)"

lemma without_key_map:
  assumes hash: "ut_hash H s head xs" and res: "without_key s head xs k = (s', head')"
  shows "\<exists>ys. ut_hash H s' head' ys \<and> ut_map s' ys = (ut_map s xs)(k := None) \<and> set ys \<subseteq> set xs
    \<and> length ys \<le> length xs \<and> ut_map s' ys k = None"
proof (cases "ut_map s xs k")
  case None
  then have "ut_map s xs = (ut_map s xs)(k := None)"
    by auto
  then show ?thesis
    using None res hash by (intro exI [of _ xs]) (auto simp: without_key_def)
next
  case (Some y)
  then show ?thesis
    using delete_found_map [OF hash Some, of s' head'] res by (fastforce simp: without_key_def)
qed

theorem replace_map:
  assumes hash: "ut_hash H s head xs" and new: "x \<notin> set xs" and len: "length xs + 1 < 2 ^ 32"
    and mem: "bounded_memory uthash_malloc" and k: "length k < 2 ^ 32"
  shows "\<exists>r. HASH_REPLACE H uthash_malloc NONFATAL k x head s = Some r \<and> (case r of
      Inl e \<Rightarrow> e = -1 \<and> \<not> NONFATAL
        \<and> (case without_key s head xs k of (s1, head1) \<Rightarrow> lacks_memory uthash_malloc head1 s1)
    | Inr (s', head', old) \<Rightarrow> old = ut_map s xs k \<and> (\<exists>ys. ut_hash H s' head' ys
        \<and> set ys \<subseteq> insert x (set xs) \<and> length ys \<le> length xs + 1
        \<and> (ut_map s' ys = (ut_map s xs)(k \<mapsto> x) \<or> NONFATAL \<and> ut_map s' ys = (ut_map s xs)(k := None))))"
proof -
  define old where "old = ut_map s xs k"
  obtain s1 head1 where del: "without_key s head xs k = (s1, head1)"
    by fastforce
  obtain ys where ys: "ut_hash H s1 head1 ys" "ut_map s1 ys = (ut_map s xs)(k := None)"
    "set ys \<subseteq> set xs" "length ys \<le> length xs" "ut_map s1 ys k = None"
    using without_key_map [OF hash del] by blast
  have "x \<notin> set ys" "length ys + 1 < 2 ^ 32"
    using ys(3,4) new len by auto
  from add_map [OF ys(1) this mem k ys(5), of NONFATAL]
  obtain r where r: "HASH_ADD_KEYPTR H uthash_malloc NONFATAL k x head1 s1 = Some r"
    "case r of
      Inl e \<Rightarrow> e = -1 \<and> \<not> NONFATAL \<and> lacks_memory uthash_malloc head1 s1
    | Inr (s', head') \<Rightarrow>
        ut_hash H s' head' (ys @ [x]) \<and> ut_map s' (ys @ [x]) = (ut_map s1 ys)(k \<mapsto> x)
        \<or> NONFATAL \<and> lacks_memory uthash_malloc head1 s1 \<and> ut_hash H s' head' ys \<and> ut_map s' ys = ut_map s1 ys"
    by blast
  have find: "HASH_FIND_BYHASHVALUE k (H k) head s = Some old"
    using find_map [OF hash k] by (simp add: HASH_FIND_def old_def)
  have rep: "HASH_REPLACE H uthash_malloc NONFATAL k x head s =
      Some (case r of Inl e \<Rightarrow> Inl e | Inr (s', head') \<Rightarrow> Inr (s', head', old))"
    using r(1) by (simp add: HASH_REPLACE_def HASH_REPLACE_BYHASHVALUE_def find del [unfolded without_key_def, folded old_def] HASH_ADD_KEYPTR_def
        split: sum.split)
  show ?thesis
  proof (cases r)
    case (Inl e)
    then show ?thesis
      using rep r(2) del by simp
  next
    case (Inr p)
    obtain s' head' where p: "p = (s', head')"
      by fastforce
    have sub: "set (ys @ [x]) \<subseteq> insert x (set xs)" "length (ys @ [x]) \<le> length xs + 1"
      "set ys \<subseteq> insert x (set xs)" "length ys \<le> length xs + 1"
      using ys(3,4) by auto
    have "ut_hash H s' head' (ys @ [x]) \<and> ut_map s' (ys @ [x]) = (ut_map s xs)(k \<mapsto> x)
        \<or> NONFATAL \<and> ut_hash H s' head' ys \<and> ut_map s' ys = (ut_map s xs)(k := None)"
      using r(2) ys(2) by (auto simp: Inr p)
    then have "\<exists>ys. ut_hash H s' head' ys \<and> set ys \<subseteq> insert x (set xs) \<and> length ys \<le> length xs + 1
        \<and> (ut_map s' ys = (ut_map s xs)(k \<mapsto> x) \<or> NONFATAL \<and> ut_map s' ys = (ut_map s xs)(k := None))"
      using sub by blast
    then show ?thesis
      using rep by (simp add: Inr p old_def)
  qed
qed

end
