(* ===== verification/UtHashProg.thy ===== *)
theory UtHashProg
  imports UtHashMap
begin

text \<open>
  Programs that use a hash: the locale \<open>map_store\<close>, the contract of a client that replaces, finds
  and deletes in any order, interpreted on the macros of uthash. How many buckets there can be
  after a number of additions bounds the memory that such a program needs.
\<close>

section \<open>How many buckets there are\<close>

text \<open>No table in memory has more than \<open>2\<^bsup>5+n\<^esup>\<close> buckets; an addition needs memory up to the next size.\<close>

definition tables_within :: "nat \<Rightarrow> hash_mem \<Rightarrow> bool" where
  "tables_within n s \<longleftrightarrow> (\<forall>t T. tables s t = Some T \<longrightarrow> unat (log2_num_buckets T) \<le> 5 + n)"

definition out_of_memory :: "(nat \<Rightarrow> ptr option) \<Rightarrow> nat \<Rightarrow> bool" where
  "out_of_memory uthash_malloc n \<longleftrightarrow> uthash_malloc sizeof_table = None \<or> uthash_malloc (32 * sizeof_bucket) = None
     \<or> (\<exists>k \<le> 5 + n. uthash_malloc (sizeof_bucket * 2 ^ k * 2) = None)"

lemma within_hh [simp]: "tables_within n (upd_hh f s) = tables_within n s"
  by (simp add: tables_within_def upd_hh_def)

lemma within_Suc: "tables_within n s \<Longrightarrow> tables_within (Suc n) s"
  by (fastforce simp: tables_within_def)

lemma within_table:
  "tables_within n s \<Longrightarrow> tables s t \<noteq> None \<Longrightarrow> (\<And>T. log2_num_buckets (f T) = log2_num_buckets T) \<Longrightarrow>
   tables_within n (upd_table t f s)"
  by (auto simp: tables_within_def upd_table_def table_at_def)

lemma within_expand:
  assumes "HASH_EXPAND_BUCKETS uthash_malloc t s = Some (s', oomed)" "tables_within n s" "tables s t \<noteq> None"
  shows "tables_within (Suc n) s'"
proof -
  let ?T = "table_at s t"
  have "unat (log2_num_buckets ?T + 1) \<le> Suc (unat (log2_num_buckets ?T))"
    by (simp add: unat_word_ariths mod_Suc)
  moreover have "unat (log2_num_buckets ?T) \<le> 5 + n"
    using assms(2,3) by (auto simp: tables_within_def table_at_def)
  ultimately have one: "unat (log2_num_buckets ?T + 1) \<le> 5 + Suc n"
    by linarith
  have "s' = s \<or> (\<exists>f m. s' = upd_table t f (upd_hh m s) \<and> log2_num_buckets (f ?T) = log2_num_buckets ?T + 1)"
  proof (cases "uthash_malloc (sizeof_bucket * unat (num_buckets ?T) * 2)")
    case None
    then show ?thesis
      using assms(1) by (simp add: HASH_EXPAND_BUCKETS_def Let_def)
  next
    case (Some a)
    then obtain st where "expand_loop (num_buckets ?T * 2) (ideal_maxlen ?T) (buckets ?T)
        (hh s, replicate (unat (num_buckets ?T) * 2) zero_bucket, 0) = Some st"
      using assms(1) by (simp add: HASH_EXPAND_BUCKETS_def Let_def split: option.split_asm)
    then show ?thesis
      using assms(1) Some unfolding HASH_EXPAND_BUCKETS_def Let_def
      by (cases st) (simp, intro disjI2 exI conjI, erule conjunct1 [THEN sym], simp)
  qed
  then have "s' = s \<or> (\<exists>T. tables s' = (tables s)(t \<mapsto> T) \<and> log2_num_buckets T = log2_num_buckets ?T + 1)"
    by (auto simp: upd_table_def table_at_def)
  then show ?thesis
    using within_Suc [OF assms(2)] one by (auto simp: tables_within_def split: if_splits)
qed

lemma within_add_to_bkt:
  assumes "HASH_ADD_TO_BKT uthash_malloc i x s = Some (s', False)" "tables_within n s" "tables s (tbl_of s x) \<noteq> None"
  shows "tables_within (Suc n) s'"
proof -
  define t where "t = tbl_of s x"
  have "tables_within n (push_bucket i t x s)" "tables (push_bucket i t x s) t \<noteq> None"
    using assms(2,3) by (auto simp: push_bucket_def Let_def t_def intro!: within_table)
  then show ?thesis
    using assms(1) within_expand [of uthash_malloc t "push_bucket i t x s" s' False n] within_Suc [of n "push_bucket i t x s"]
    by (auto simp: add_to_bkt_push [OF t_def [symmetric]] Let_def split: if_splits option.splits)
qed

lemma within_add_to_table:
  assumes "HASH_ADD_TO_TABLE uthash_malloc False hv h x s = Some (Inr (s', head'))"
    and "tables_within n s" "tables s (tbl_of s h) \<noteq> None" "tbl_of s x = tbl_of s h"
  shows "tables_within (Suc n) s'"
proof -
  let ?s = "upd_table (tbl_of s h) (num_items_update (\<lambda>n. n + 1)) s"
  have "tables_within n ?s" "tables ?s (tbl_of ?s x) \<noteq> None"
    using assms(2-4) by (auto intro!: within_table simp: tbl_of_def)
  then show ?thesis
    using assms(1) within_add_to_bkt [of uthash_malloc _ x ?s s' n]
    by (auto simp: HASH_ADD_TO_TABLE_def Let_def split: if_splits option.splits)
qed

lemma within_add:
  assumes res: "HASH_ADD_KEYPTR H uthash_malloc False k x head s = Some (Inr (s', head'))"
    and "ut_ok s head xs" "x \<notin> set xs" "tables_within n s"
  shows "tables_within (Suc n) s'"
proof (cases head)
  case None
  define s1 where "s1 = upd_hh (set_prev x None) (upd_hh (set_nxt x None) (upd_hh (set_key x k (H k)) s))"
  obtain s2 where make: "HASH_MAKE_TABLE uthash_malloc x s1 = (s2, False)"
    and add: "HASH_ADD_TO_TABLE uthash_malloc False (H k) x x s2 = Some (Inr (s', head'))"
    using res by (auto simp: None HASH_ADD_KEYPTR_def HASH_ADD_KEYPTR_BYHASHVALUE_def first_element_def Let_def
        s1_def [symmetric] split: if_splits prod.splits)
  obtain t T where t: "tables s2 = (tables s1)(t \<mapsto> T)" "log2_num_buckets T = 5" "tbl_of s2 x = t"
    using make by (auto simp: HASH_MAKE_TABLE_def Let_def HASH_INITIAL_NUM_BUCKETS_LOG2_def
        tbl_of_def upd_hh_def set_tbl_def split: option.splits)
  have "tables_within n s1"
    using assms(4) by (simp add: s1_def)
  then have "tables_within n s2" "tables s2 (tbl_of s2 x) \<noteq> None"
    using t(2) by (auto simp: t(1,3) tables_within_def split: if_splits)
  then show ?thesis
    using within_add_to_table [OF add] by simp
next
  case (Some h)
  define s1 where "s1 = upd_hh (set_key x k (H k)) s"
  define s2 where "s2 = HASH_APPEND_LIST h x (upd_hh (set_tbl x (tbl (hh s1 h))) s1)"
  have at: "hash_at s (tbl_of s h) (Some h) xs"
    using ut_ok_head(1) assms(2) Some by simp
  have own: "tbl_of s2 h = tbl_of s h" "tbl_of s2 x = tbl_of s h"
    by (auto simp: s2_def s1_def HASH_APPEND_LIST_def Let_def tbl_of_def)
  have "tables s (tbl_of s h) \<noteq> None"
    using at by (simp add: hash_at_def)
  then have "tables_within n s2" "tables s2 (tbl_of s2 h) \<noteq> None"
    unfolding own using assms(4) own by (auto simp: s2_def s1_def HASH_APPEND_LIST_def Let_def tbl_of_def intro!: within_table)
  moreover have "HASH_ADD_TO_TABLE uthash_malloc False (H k) h x s2 = Some (Inr (s', head'))"
    using res by (simp add: Some HASH_ADD_KEYPTR_def HASH_ADD_KEYPTR_BYHASHVALUE_def Let_def s1_def [symmetric] s2_def)
  ultimately show ?thesis
    using within_add_to_table own by auto
qed

lemma within_delete:
  assumes res: "HASH_DELETE_HH x head s = (s', head')"
    and ok: "ut_ok s head xs" "x \<in> set xs" "tables_within n s"
  shows "tables_within n s'"
proof -
  obtain us vs where xs: "xs = us @ x # vs"
    using ok(2) by (meson split_list)
  obtain t where at: "hash_at s t head (us @ x # vs)"
    using ok(1,2) by (auto simp: ut_ok_def xs split: if_splits)
  have t: "tables s t \<noteq> None"
    using at by (simp add: hash_at_def)
  show ?thesis
  proof (cases "us @ vs = []")
    case True
    then have "prev (hh s x) = None" "nxt (hh s x) = None"
      using hash_atD(1) [OF at] dlist_ends [of "nxt \<circ> hh s" "prev \<circ> hh s" head us x vs] by auto
    then show ?thesis
      using res ok(3) by (auto simp: HASH_DELETE_HH_def Let_def tables_within_def split: if_splits)
  next
    case False
    have "tables_within n (unlink_app t x (us @ vs) s)" "tables (unlink_app t x (us @ vs) s) t \<noteq> None"
      using ok(3) t by (auto simp: unlink_app_def Let_def intro!: within_table)
    then show ?thesis
      using res delete_unfold [of s t head us x vs] False at
      by (auto simp: hash_at_listed HASH_DEL_IN_BKT_def Let_def intro!: within_table)
  qed
qed

lemma lacks_out_of_memory:
  assumes "lacks_memory uthash_malloc head s" "ut_ok s head xs" "tables_within n s"
  shows "out_of_memory uthash_malloc n"
proof (cases head)
  case None
  then show ?thesis
    using assms(1) by (auto simp: lacks_memory_def out_of_memory_def intro!: exI [of _ 5])
next
  case (Some h)
  let ?T = "table_at s (tbl_of s h)"
  have at: "hash_at s (tbl_of s h) (Some h) xs"
    using ut_ok_head(1) assms(2) Some by simp
  then have "num_buckets ?T = 2 ^ unat (log2_num_buckets ?T)" "unat (log2_num_buckets ?T) < 32"
    "unat (log2_num_buckets ?T) \<le> 5 + n"
    using assms(3) by (auto simp: tables_within_def hash_at_def sizes_ok_def table_at_def)
  moreover from this(1,2) have "unat (num_buckets ?T) = 2 ^ unat (log2_num_buckets ?T)"
    by (simp only: unat_power2)
  ultimately show ?thesis
    using assms(1) by (auto simp: Some lacks_memory_def out_of_memory_def)
qed

section \<open>Programs that use a hash\<close>

text \<open>
  What a client calls: \<open>HASH_REPLACE\<close>, \<open>HASH_FIND\<close>, and \<open>HASH_DELETE\<close> of what it found. An
  implementation answers like a finite map as long as fewer than \<open>limit\<close> elements come in;
  it may give up (\<open>Inl (-1)\<close>) only in the \<open>n\<close>-th replacement, when \<open>poor n\<close>.
\<close>

datatype ('k, 'v) hash_call = Replace 'k 'v | Find 'k | FindDelete 'k

fun run_calls :: "('k \<Rightarrow> 'v \<Rightarrow> 's \<Rightarrow> (int + 's \<times> 'v option) option) \<Rightarrow> ('k \<Rightarrow> 's \<Rightarrow> 'v option option) \<Rightarrow>
    ('k \<Rightarrow> 's \<Rightarrow> ('s \<times> 'v option) option) \<Rightarrow> ('k, 'v) hash_call list \<Rightarrow> 's \<Rightarrow>
    (int + 'v option list) option" where
  "run_calls replace look del [] s = Some (Inr [])"
| "run_calls replace look del (Replace k v # cs) s =
     (case replace k v s of None \<Rightarrow> None
      | Some (Inl e) \<Rightarrow> Some (Inl e)
      | Some (Inr (s', r)) \<Rightarrow> map_option (map_sum id ((#) r)) (run_calls replace look del cs s'))"
| "run_calls replace look del (Find k # cs) s =
     (case look k s of None \<Rightarrow> None
      | Some r \<Rightarrow> map_option (map_sum id ((#) r)) (run_calls replace look del cs s))"
| "run_calls replace look del (FindDelete k # cs) s =
     (case del k s of None \<Rightarrow> None
      | Some (s', r) \<Rightarrow> map_option (map_sum id ((#) r)) (run_calls replace look del cs s'))"

fun map_answers :: "('k, 'v) hash_call list \<Rightarrow> ('k \<Rightarrow> 'v option) \<Rightarrow> 'v option list" where
  "map_answers [] m = []"
| "map_answers (Replace k v # cs) m = m k # map_answers cs (m(k \<mapsto> v))"
| "map_answers (Find k # cs) m = m k # map_answers cs m"
| "map_answers (FindDelete k # cs) m = m k # map_answers cs (m(k := None))"

text \<open>Every call has a proper key, and an element goes in only while it is not in the hash.\<close>

fun proper_calls :: "('k \<Rightarrow> bool) \<Rightarrow> ('k, 'v) hash_call list \<Rightarrow> ('k \<Rightarrow> 'v option) \<Rightarrow> 'v list \<Rightarrow> bool" where
  "proper_calls good [] m vs = True"
| "proper_calls good (Replace k v # cs) m vs \<longleftrightarrow>
     good k \<and> v \<notin> set vs \<and> proper_calls good cs (m(k \<mapsto> v)) (v # vs)"
| "proper_calls good (Find k # cs) m vs \<longleftrightarrow> good k \<and> proper_calls good cs m vs"
| "proper_calls good (FindDelete k # cs) m vs \<longleftrightarrow>
     good k \<and> proper_calls good cs (m(k := None)) (case m k of None \<Rightarrow> vs | Some v \<Rightarrow> removeAll v vs)"

locale map_store =
  fixes rep :: "nat \<Rightarrow> 's \<Rightarrow> 'v list \<Rightarrow> ('k \<Rightarrow> 'v option) \<Rightarrow> bool"
    and good :: "'k \<Rightarrow> bool" and limit :: nat and poor :: "nat \<Rightarrow> bool"
    and replace :: "'k \<Rightarrow> 'v \<Rightarrow> 's \<Rightarrow> (int + 's \<times> 'v option) option"
    and look :: "'k \<Rightarrow> 's \<Rightarrow> 'v option option"
    and del :: "'k \<Rightarrow> 's \<Rightarrow> ('s \<times> 'v option) option"
  assumes look_law: "rep n s vs m \<Longrightarrow> good k \<Longrightarrow> look k s = Some (m k)"
    and del_law: "rep n s vs m \<Longrightarrow> good k \<Longrightarrow> \<exists>s'. del k s = Some (s', m k)
      \<and> rep n s' (case m k of None \<Rightarrow> vs | Some v \<Rightarrow> removeAll v vs) (m(k := None))"
    and replace_law: "rep n s vs m \<Longrightarrow> good k \<Longrightarrow> v \<notin> set vs \<Longrightarrow> length vs < limit \<Longrightarrow>
      \<exists>r. replace k v s = Some r \<and>
        (case r of Inl e \<Rightarrow> e = -1 \<and> poor n | Inr (s', old) \<Rightarrow> old = m k \<and> rep (Suc n) s' (v # vs) (m(k \<mapsto> v)))"
    and poor_mono: "poor n \<Longrightarrow> n \<le> n' \<Longrightarrow> poor n'"
begin

lemma calls_answer_like_map:
  assumes "rep n s vs m" and "proper_calls good cs m vs" and "length vs + length cs \<le> limit"
  shows "\<exists>r. run_calls replace look del cs s = Some r
    \<and> (r = Inl (-1) \<and> poor (n + length cs) \<or> r = Inr (map_answers cs m))"
  using assms
proof (induction cs arbitrary: n s vs m)
  case (Cons c cs)
  show ?case
  proof (cases c)
    case (Replace k v)
    then obtain r where r: "replace k v s = Some r"
      "case r of Inl e \<Rightarrow> e = -1 \<and> poor n | Inr (s', old) \<Rightarrow> old = m k \<and> rep (Suc n) s' (v # vs) (m(k \<mapsto> v))"
      using replace_law [OF Cons.prems(1), of k v] Cons.prems by auto
    show ?thesis
    proof (cases r)
      case (Inr p)
      then show ?thesis
        using r Replace Cons.IH [of "Suc n" "fst p" "v # vs" "m(k \<mapsto> v)"] Cons.prems by (cases p) fastforce
    qed (use r Replace poor_mono [of n "n + length (c # cs)"] in auto)
  next
    case (Find k)
    then show ?thesis
      using look_law [OF Cons.prems(1), of k] Cons.IH [OF Cons.prems(1)] Cons.prems
        poor_mono [of "n + length cs" "n + length (c # cs)"] by fastforce
  next
    case (FindDelete k)
    let ?vs = "case m k of None \<Rightarrow> vs | Some v \<Rightarrow> removeAll v vs"
    obtain s' where s': "del k s = Some (s', m k)" "rep n s' ?vs (m(k := None))"
      using del_law [OF Cons.prems(1), of k] Cons.prems(2) FindDelete by auto
    moreover have "length ?vs \<le> length vs"
      by (simp split: option.split)
    ultimately show ?thesis
      using Cons.IH [OF s'(2)] Cons.prems FindDelete poor_mono [of "n + length cs" "n + length (c # cs)"]
      by fastforce
  qed
qed simp

end

text \<open>The macros of uthash as such an implementation; \<open>vs\<close> lists elements that may be in the hash.\<close>

type_synonym hash_var = "hash_mem \<times> ptr option"

definition hash_rep :: "(byte list \<Rightarrow> unsigned) \<Rightarrow> (nat \<Rightarrow> ptr option) \<Rightarrow> nat \<Rightarrow> hash_var \<Rightarrow> ptr list \<Rightarrow>
    (byte list \<Rightarrow> ptr option) \<Rightarrow> bool" where
  "hash_rep H uthash_malloc n v vs m \<longleftrightarrow> bounded_memory uthash_malloc \<and> tables_within n (fst v)
     \<and> (\<exists>xs. ut_hash H (fst v) (snd v) xs \<and> ut_map (fst v) xs = m \<and> set xs \<subseteq> set vs \<and> length xs \<le> length vs)"

lemma hash_repE:
  assumes "hash_rep H uthash_malloc n v vs m"
  obtains xs where "bounded_memory uthash_malloc" "tables_within n (fst v)" "ut_hash H (fst v) (snd v) xs"
    "ut_map (fst v) xs = m" "set xs \<subseteq> set vs" "length xs \<le> length vs"
  using assms by (auto simp: hash_rep_def)

definition hash_replace :: "(byte list \<Rightarrow> unsigned) \<Rightarrow> (nat \<Rightarrow> ptr option) \<Rightarrow> byte list \<Rightarrow> ptr \<Rightarrow> hash_var \<Rightarrow>
    (int + hash_var \<times> ptr option) option" where
  "hash_replace H uthash_malloc k x v =
     map_option (map_sum id (\<lambda>(s, head, old). ((s, head), old)))
       (HASH_REPLACE H uthash_malloc False k x (snd v) (fst v))"

definition hash_find :: "(byte list \<Rightarrow> unsigned) \<Rightarrow> byte list \<Rightarrow> hash_var \<Rightarrow> ptr option option" where
  "hash_find H k v = HASH_FIND H k (snd v) (fst v)"

definition hash_find_delete :: "(byte list \<Rightarrow> unsigned) \<Rightarrow> byte list \<Rightarrow> hash_var \<Rightarrow>
    (hash_var \<times> ptr option) option" where
  "hash_find_delete H k v =
     (case HASH_FIND H k (snd v) (fst v) of None \<Rightarrow> None
      | Some None \<Rightarrow> Some (v, None)
      | Some (Some x) \<Rightarrow> Some (HASH_DELETE_HH x (snd v) (fst v), Some x))"

lemma within_without_key:
  assumes "ut_hash H s head xs" "tables_within n s" "without_key s head xs k = (s', head')"
  shows "tables_within n s'"
proof (cases "ut_map s xs k")
  case (Some y)
  then have "y \<in> set xs"
    using ut_map_ran [of s xs] by (auto intro: ranI)
  then show ?thesis
    using within_delete [of y head s s' head' xs n] Some assms by (auto simp: without_key_def ut_hash_def)
qed (use assms in \<open>simp add: without_key_def\<close>)

text \<open>\<open>HASH_REPLACE\<close> is the deletion followed by the addition.\<close>

lemma replace_as_add:
  assumes "ut_hash H s head xs" "length k < 2 ^ 32" "without_key s head xs k = (s1, head1)"
  shows "HASH_REPLACE H uthash_malloc NONFATAL k x head s =
    map_option (map_sum id (\<lambda>(s', head'). (s', head', ut_map s xs k)))
      (HASH_ADD_KEYPTR H uthash_malloc NONFATAL k x head1 s1)"
  using find_map [OF assms(1,2)] assms(3)
  by (auto simp: HASH_REPLACE_def HASH_REPLACE_BYHASHVALUE_def HASH_FIND_def without_key_def HASH_ADD_KEYPTR_def
      map_option_case split: option.split sum.split)

lemma hash_replace_law:
  assumes rep: "hash_rep H uthash_malloc n v vs m" and k: "length k < 2 ^ 32" and x: "x \<notin> set vs"
    and vs: "length vs < 2 ^ 32 - 1"
  shows "\<exists>r. hash_replace H uthash_malloc k x v = Some r \<and> (case r of Inl e \<Rightarrow> e = -1 \<and> out_of_memory uthash_malloc n
    | Inr (v', old) \<Rightarrow> old = m k \<and> hash_rep H uthash_malloc (Suc n) v' (x # vs) (m(k \<mapsto> x)))"
proof -
  obtain s head where v: "v = (s, head)"
    by fastforce
  obtain xs where mem: "bounded_memory uthash_malloc" and within: "tables_within n s"
    and xs: "ut_hash H s head xs" "ut_map s xs = m" "set xs \<subseteq> set vs" "length xs \<le> length vs"
    using hash_repE [OF rep] by (auto simp: v)
  obtain s1 head1 where del: "without_key s head xs k = (s1, head1)"
    by fastforce
  obtain ys where ys: "ut_hash H s1 head1 ys" "ut_map s1 ys = m(k := None)" "set ys \<subseteq> set xs" "length ys \<le> length xs"
    using without_key_map [OF xs(1) del] xs(2) by blast
  then have ok: "ut_ok s1 head1 ys" "x \<notin> set ys" "length ys + 1 < 2 ^ 32" "ut_map s1 ys k = None"
    using x xs(3,4) vs by (auto simp: ut_hash_def)
  note within1 = within_without_key [OF xs(1) within del]
  obtain r where r: "HASH_ADD_KEYPTR H uthash_malloc False k x head1 s1 = Some r"
    "case r of Inl e \<Rightarrow> e = -1 \<and> lacks_memory uthash_malloc head1 s1
      | Inr (s', head') \<Rightarrow> ut_hash H s' head' (ys @ [x]) \<and> ut_map s' (ys @ [x]) = (ut_map s1 ys)(k \<mapsto> x)"
    using add_map [OF ys(1) ok(2,3) mem k ok(4), where NONFATAL = False]
    unfolding not_False_eq_True simp_thms by blast
  have rep: "hash_replace H uthash_malloc k x v = Some (map_sum id (\<lambda>p. (p, m k)) r)"
    using replace_as_add [OF xs(1) k del] r(1) xs(2) by (cases r) (auto simp: hash_replace_def v)
  show ?thesis
  proof (cases r)
    case (Inl e)
    then show ?thesis
      using rep r(2) lacks_out_of_memory [OF _ ok(1) within1] by simp
  next
    case (Inr p)
    obtain s' head' where p: "p = (s', head')"
      by fastforce
    have "tables_within (Suc n) s'"
      using within_add [OF _ ok(1,2) within1] r(1) by (simp add: Inr p)
    moreover have "ut_hash H s' head' (ys @ [x])" "ut_map s' (ys @ [x]) = m(k \<mapsto> x)"
      using r(2) by (simp_all add: Inr p ys(2))
    moreover have "set (ys @ [x]) \<subseteq> set (x # vs)" "length (ys @ [x]) \<le> length (x # vs)"
      using ys(3,4) xs(3,4) by auto
    ultimately have "hash_rep H uthash_malloc (Suc n) (s', head') (x # vs) (m(k \<mapsto> x))"
      using mem unfolding hash_rep_def fst_conv snd_conv by blast
    then show ?thesis
      using rep by (simp add: Inr p)
  qed
qed

lemma hash_find_delete_law:
  assumes rep: "hash_rep H uthash_malloc n v vs m" and k: "length k < 2 ^ 32"
  shows "\<exists>v'. hash_find_delete H k v = Some (v', m k)
    \<and> hash_rep H uthash_malloc n v' (case m k of None \<Rightarrow> vs | Some v \<Rightarrow> removeAll v vs) (m(k := None))"
proof -
  obtain s head where v: "v = (s, head)"
    by fastforce
  obtain xs where mem: "bounded_memory uthash_malloc" and within: "tables_within n s"
    and xs: "ut_hash H s head xs" "ut_map s xs = m" "set xs \<subseteq> set vs" "length xs \<le> length vs"
    using hash_repE [OF rep] by (auto simp: v)
  show ?thesis
  proof (cases "m k")
    case None
    then have "m(k := None) = m"
      by auto
    then show ?thesis
      using None rep find_map [OF xs(1) k] xs(2) by (auto simp: hash_find_delete_def v)
  next
    case (Some y)
    obtain s' head' where del: "HASH_DELETE_HH y head s = (s', head')"
      by fastforce
    obtain ys where ys: "ut_hash H s' head' ys" "ut_map s' ys = m(k := None)" "set ys = set xs - {y}"
      using delete_found_map [OF xs(1) _ del, of k] Some xs(2) by auto
    have "distinct ys"
      using ys(1) by (auto simp: ut_hash_def distinct_map)
    then have "length ys = card (set xs - {y})"
      using ys(3) by (metis distinct_card)
    also have "\<dots> \<le> card (set (removeAll y vs))"
      using xs(3) by (intro card_mono) auto
    also have "\<dots> \<le> length (removeAll y vs)"
      by (rule card_length)
    finally have len: "length ys \<le> length (removeAll y vs)" .
    have "tables_within n s'"
      using within_without_key [OF xs(1) within, of k s' head'] del Some xs(2) by (simp add: without_key_def)
    then show ?thesis
      using mem Some del ys len xs(2,3) find_map [OF xs(1) k]
      by (auto simp: hash_find_delete_def hash_rep_def v)
  qed
qed

interpretation ut: map_store "hash_rep H uthash_malloc" "\<lambda>k :: byte list. length k < 2 ^ 32" "2 ^ 32 - 1"
  "out_of_memory uthash_malloc" "hash_replace H uthash_malloc" "hash_find H" "hash_find_delete H"
  for H :: "byte list \<Rightarrow> unsigned" and uthash_malloc :: "nat \<Rightarrow> ptr option"
proof
  fix n v vs m and k :: "byte list"
  assume rep: "hash_rep H uthash_malloc n v vs m" and k: "length k < 2 ^ 32"
  then show "hash_find H k v = Some (m k)"
    by (auto elim!: hash_repE simp: hash_find_def find_map)
next
  fix n n'
  assume "out_of_memory uthash_malloc n" and "n \<le> n'"
  then show "out_of_memory uthash_malloc n'"
    by (meson add_left_mono le_trans out_of_memory_def)
qed (rule hash_find_delete_law hash_replace_law; assumption)+

lemma hash_rep_empty:
  "bounded_memory uthash_malloc \<Longrightarrow> tables_within 0 s \<Longrightarrow> hash_rep H uthash_malloc 0 (s, None) [] Map.empty"
  by (auto simp: hash_rep_def ut_hash_def ut_ok_def ut_map_def hashed_def)

end
