(* ===== verification/UtHashRead.thy ===== *)
theory UtHashRead
  imports UtHashAdd
begin

text \<open>
  The macros that read a hash: \<open>HASH_COUNT\<close>, \<open>HASH_ITER\<close> (also with a body that deletes) and the
  consistency check \<open>HASH_FSCK\<close>.
\<close>

section \<open>Reading the hash\<close>

lemma count_ok:
  assumes "ut_ok s head xs"
  shows "unat (HASH_COUNT head s) = length xs"
proof (cases head)
  case (Some h)
  then show ?thesis
    using ut_ok_head(1) assms by (simp add: HASH_COUNT_def hash_at_def)
qed (use assms in \<open>simp add: HASH_COUNT_def ut_ok_def\<close>)

lemma ut_ok_list: "ut_ok s head xs \<Longrightarrow> dlist (nxt \<circ> hh s) (prev \<circ> hh s) head xs"
  by (cases "head = None") (auto simp: ut_ok_def dest: hash_atD(1))

text \<open>The two variables of \<open>HASH_ITER\<close> before the loop.\<close>

definition iter_start :: "ptr option \<Rightarrow> hash_mem \<Rightarrow> ptr option" where
  "iter_start head s = (case head of None \<Rightarrow> None | Some h \<Rightarrow> nxt (hh s h))"

lemma iter_fold:
  assumes "dseg (nxt \<circ> m) pv a p xs None" and "\<And>x st. mem (body x st) = mem st" and "mem st = m"
  shows "HASH_ITER body mem (p, case p of None \<Rightarrow> None | Some q \<Rightarrow> nxt (m q), st) = Some (fold body xs st)"
  using assms(1,3)
proof (induction xs arbitrary: a p st)
  case Nil
  then show ?case by (simp add: HASH_ITER.simps)
next
  case (Cons x xs)
  have "mem (body x st) = m"
    using assms(2) Cons.prems(2) by simp
  moreover have "dseg (nxt \<circ> m) pv (Some x) (nxt (m x)) xs None" "p = Some x"
    using Cons.prems(1) by (simp_all add: comp_def)
  ultimately show ?case
    using Cons.IH [of "Some x" "nxt (m x)" "body x st"]
    by (subst HASH_ITER.simps) (simp add: Let_def comp_def cong: option.case_cong)
qed

theorem iter_visits_all:
  assumes "ut_ok s head xs"
  shows "HASH_ITER (\<lambda>p (m, seen). (m, seen @ [p])) fst (head, iter_start head s, hh s, []) = Some (hh s, xs)"
proof -
  have "HASH_ITER (\<lambda>p (m, seen). (m, seen @ [p])) fst (head, iter_start head s, hh s, [])
      = Some (fold (\<lambda>p (m, seen). (m, seen @ [p])) xs (hh s, []))"
    unfolding iter_start_def using ut_ok_list [OF assms] by (intro iter_fold) auto
  moreover have "fold (\<lambda>p (m, seen). (m, seen @ [p])) xs (m, ys) = (m, ys @ xs)" for m :: handles and ys
    by (induction xs arbitrary: ys) simp_all
  ultimately show ?thesis
    by simp
qed

text \<open>\<open>HASH_ITER\<close> is safe for deletion: a body that deletes its element empties the hash.\<close>

definition delete_body :: "ptr \<Rightarrow> hash_mem \<times> ptr option \<Rightarrow> hash_mem \<times> ptr option" where
  "delete_body p st = HASH_DELETE_HH p (snd st) (fst st)"

theorem iter_delete_all:
  assumes "ut_ok s head xs"
  shows "\<exists>s'. HASH_ITER delete_body (hh \<circ> fst) (head, iter_start head s, s, head) = Some (s', None)
    \<and> (case head of None \<Rightarrow> s' = s | Some h \<Rightarrow> tables s' (tbl_of s h) = None)"
  using assms
proof (induction xs arbitrary: s head)
  case Nil
  then have "head = None"
    using dseg_start [OF ut_ok_list] by fastforce
  then show ?case
    by (simp add: HASH_ITER.simps)
next
  case (Cons x xs)
  obtain t where at: "hash_at s t head (x # xs)"
    using Cons.prems by (auto simp: ut_ok_def split: if_splits)
  obtain s1 head1 where del: "HASH_DELETE_HH x head s = (s1, head1)"
    by fastforce
  note ok1 = delete_ok [of s t head "[]" x xs s1 head1, unfolded append_Nil, OF at del]
  have head: "head = Some x" "nxt (hh s x) = first_or None xs" "tbl_of s x = t"
    using hash_atD(4) [OF at] dlist_ends(2) [of "nxt \<circ> hh s" "prev \<circ> hh s" head "[]" x xs] hash_atD(1) [OF at] at
    by (simp_all add: hash_at_def tbl_of_def)
  have head1: "head1 = first_or None xs"
    by (rule dseg_start) (rule ut_ok_list [OF ok1(1)])
  have step: "HASH_ITER delete_body (hh \<circ> fst) (head, iter_start head s, s, head)
      = HASH_ITER delete_body (hh \<circ> fst) (head1, iter_start head1 s1, s1, head1)"
    using del head(1,2) head1
    by (subst HASH_ITER.simps) (simp add: iter_start_def delete_body_def Let_def cong: option.case_cong)
  obtain s' where s': "HASH_ITER delete_body (hh \<circ> fst) (head1, iter_start head1 s1, s1, head1) = Some (s', None)"
    "case head1 of None \<Rightarrow> s' = s1 | Some h \<Rightarrow> tables s' (tbl_of s1 h) = None"
    using Cons.IH [OF ok1(1)] by blast
  have "tables s' t = None"
  proof (cases xs)
    case Nil
    then have "prev (hh s x) = None"
      using hash_atD(1) [OF at] by simp
    then have "tables s1 t = None"
      using del Nil head by (auto simp: HASH_DELETE_HH_def Let_def)
    then show ?thesis
      using s'(2) Nil head1 by simp
  next
    case (Cons y ys)
    then have "tbl_of s1 y = t"
      using at same_itemsD(1) [OF ok1(2), of y] by (simp add: hash_at_def tbl_of_def)
    then show ?thesis
      using s'(2) head1 Cons by simp
  qed
  then show ?case
    unfolding step s'(1) using head by simp
qed

section \<open>The consistency check\<close>

lemma word_of_unat: "w = (of_nat (unat w) :: unsigned)"
  by simp

lemma fsck_chain_ok:
  "dseg (hh_next \<circ> m) (hh_prev \<circ> m) a p c None \<Longrightarrow> fsck_chain m (p, a, n) = Some (Some (n + of_nat (length c)))"
proof (induction c arbitrary: a p n)
  case (Cons x c)
  then have "p = Some x" "hh_prev (m x) = a"
    "fsck_chain m (hh_next (m x), Some x, n + 1) = Some (Some (n + 1 + of_nat (length c)))"
    using Cons.IH [of "Some x" "hh_next (m x)" "n + 1"] by (simp_all add: comp_def)
  then show ?case
    by (subst fsck_chain.simps) (simp add: algebra_simps)
qed (simp add: fsck_chain.simps)

lemma fsck_app_ok:
  "dseg (nxt \<circ> m) (prev \<circ> m) a p c None \<Longrightarrow> fsck_app m (p, a, n) = Some (Some (n + of_nat (length c)))"
proof (induction c arbitrary: a p n)
  case (Cons x c)
  then have "p = Some x" "prev (m x) = a"
    "fsck_app m (nxt (m x), Some x, n + 1) = Some (Some (n + 1 + of_nat (length c)))"
    using Cons.IH [of "Some x" "nxt (m x)" "n + 1"] by (simp_all add: comp_def)
  then show ?case
    by (subst fsck_app.simps) (simp add: algebra_simps)
qed (simp add: fsck_app.simps)

lemma fsck_buckets_ok:
  assumes "list_all2 (\<lambda>b c. chain_ok m b c) bs cs"
  shows "fsck_buckets m bs n = Some (Some (n + of_nat (length (concat cs))))"
  using assms
proof (induction bs cs arbitrary: n rule: list_all2_induct)
  case (Cons b bs c cs)
  have "fsck_chain m (hh_head b, None, 0) = Some (Some (of_nat (length c)))"
    using Cons.hyps(1) fsck_chain_ok [of m None "hh_head b" c 0] by (simp add: chain_ok_def)
  moreover have "count b = of_nat (length c)"
    using Cons.hyps(1) word_of_unat [of "count b"] by (simp add: chain_ok_def)
  ultimately show ?case
    using Cons.IH [of "n + of_nat (length c)"] by (simp add: algebra_simps)
qed simp

theorem fsck_silent:
  assumes "ut_ok s head xs"
  shows "HASH_FSCK head s = Some True"
proof (cases head)
  case (Some h)
  define T where "T = table_at s (tbl_of s h)"
  have at: "hash_at s (tbl_of s h) (Some h) xs"
    using ut_ok_head(1) assms Some by simp
  then obtain cs where cs: "buckets_ok (hh s) (num_buckets T) (buckets T) (set xs) cs"
    by (auto simp: hash_at_def in_buckets_def T_def)
  have n: "num_buckets T \<noteq> 0"
    using hash_atD(5) [OF at] by (simp add: T_def)
  have "length (concat cs) = length xs"
    using buckets_ok_chains(2,3) [OF cs n] hash_atD(3) [OF at] by (metis distinct_card)
  moreover have "num_items T = of_nat (length xs)"
    using at word_of_unat [of "num_items T"] by (simp add: hash_at_def T_def)
  moreover have "list_all2 (\<lambda>b c. chain_ok (hh s) b c) (buckets T) cs"
    using cs by (auto simp: buckets_ok_def list_all2_conv_all_nth)
  ultimately show ?thesis
    using fsck_buckets_ok [of "hh s" "buckets T" cs 0] fsck_app_ok [OF hash_atD(1) [OF at], of 0]
    by (simp add: HASH_FSCK_def Some T_def Let_def)
qed (simp add: HASH_FSCK_def)

end
