(* ===== verification/UtSort.thy ===== *)
theory UtSort
  imports UtHash "HOL-Library.Multiset"
begin

text \<open>
  \<open>HASH_SRT\<close>: the merge sort of the list of elements in application order, in place. The
  macro has three nested loops: runs of \<open>insize\<close> elements are merged in pairs until a pass makes
  one merge at most.
\<close>

section \<open>The macro\<close>

text \<open>The variables \<open>_hs_p\<close>, \<open>_hs_q\<close>, \<open>_hs_list\<close>, \<open>_hs_tail\<close>, \<open>_hs_psize\<close>, \<open>_hs_qsize\<close>, and memory.\<close>

record srt_vars =
  hs_mem :: handles
  hs_p :: "ptr option"
  hs_q :: "ptr option"
  hs_list :: "ptr option"
  hs_tail :: "ptr option"
  hs_psize :: unsigned
  hs_qsize :: unsigned

definition take_p :: "srt_vars \<Rightarrow> ptr option \<times> srt_vars" where
  "take_p v = (hs_p v, v\<lparr>hs_p := (case hs_p v of None \<Rightarrow> None | Some p \<Rightarrow> nxt (hs_mem v p)),
     hs_psize := hs_psize v - 1\<rparr>)"

definition take_q :: "srt_vars \<Rightarrow> ptr option \<times> srt_vars" where
  "take_q v = (hs_q v, v\<lparr>hs_q := nxt (hs_mem v (the (hs_q v))), hs_qsize := hs_qsize v - 1\<rparr>)"

definition srt_append :: "ptr option \<Rightarrow> srt_vars \<Rightarrow> srt_vars" where
  "srt_append e v =
     (let v = (case hs_tail v of Some t \<Rightarrow> v\<lparr>hs_mem := set_nxt t e (hs_mem v)\<rparr>
               | None \<Rightarrow> v\<lparr>hs_list := e\<rparr>);
          v = v\<lparr>hs_mem := if_set set_prev e (hs_tail v) (hs_mem v)\<rparr>
      in v\<lparr>hs_tail := e\<rparr>)"

definition merge_step :: "(ptr \<Rightarrow> ptr \<Rightarrow> int) \<Rightarrow> srt_vars \<Rightarrow> srt_vars" where
  "merge_step cmpfcn v =
     (let (e, v) =
        (if hs_psize v = 0 then take_q v
         else if hs_qsize v = 0 \<or> hs_q v = None then take_p v
         else if cmpfcn (the (hs_p v)) (the (hs_q v)) \<le> 0 then take_p v
         else take_q v)
      in srt_append e v)"

partial_function (option) merge_loop :: "(ptr \<Rightarrow> ptr \<Rightarrow> int) \<Rightarrow> srt_vars \<Rightarrow> srt_vars option" where
  "merge_loop cmpfcn v =
     (if hs_psize v \<noteq> 0 \<or> (hs_qsize v \<noteq> 0 \<and> hs_q v \<noteq> None)
      then merge_loop cmpfcn (merge_step cmpfcn v) else Some v)"

primrec step_off :: "nat \<Rightarrow> handles \<Rightarrow> ptr option \<Rightarrow> unsigned \<Rightarrow> unsigned \<times> ptr option" where
  "step_off 0 m q psize = (psize, q)"
| "step_off (Suc n) m q psize =
     (let q = nxt (m (the q))
      in if q = None then (psize + 1, q) else step_off n m q (psize + 1))"

partial_function (option) pass_loop :: "(ptr \<Rightarrow> ptr \<Rightarrow> int) \<Rightarrow> unsigned \<Rightarrow> srt_vars \<times> unsigned \<Rightarrow>
    (srt_vars \<times> unsigned) option" where
  "pass_loop cmpfcn insize st =
     (if hs_p (fst st) = None then Some st
      else
        let (v, nmerges) = st;
            (psize, q) = step_off (unat insize) (hs_mem v) (hs_p v) 0
        in case merge_loop cmpfcn (v\<lparr>hs_psize := psize, hs_q := q, hs_qsize := insize\<rparr>) of
             None \<Rightarrow> None
           | Some v \<Rightarrow> pass_loop cmpfcn insize (v\<lparr>hs_p := hs_q v\<rparr>, nmerges + 1))"

partial_function (option) sort_loop :: "(ptr \<Rightarrow> ptr \<Rightarrow> int) \<Rightarrow> unsigned \<Rightarrow> handles \<times> ptr option \<Rightarrow>
    (handles \<times> ptr option \<times> ptr option) option" where
  "sort_loop cmpfcn insize st =
     (case pass_loop cmpfcn insize (\<lparr>hs_mem = fst st, hs_p = snd st, hs_q = None, hs_list = None,
             hs_tail = None, hs_psize = 0, hs_qsize = 0\<rparr>, 0) of
        None \<Rightarrow> None
      | Some (v, nmerges) \<Rightarrow>
        let m = if_set set_nxt (hs_tail v) None (hs_mem v)
        in if nmerges \<le> 1 then Some (m, hs_list v, hs_tail v)
           else sort_loop cmpfcn (insize * 2) (m, hs_list v))"

definition HASH_SRT :: "(ptr \<Rightarrow> ptr \<Rightarrow> int) \<Rightarrow> ptr option \<Rightarrow> hash_mem \<Rightarrow> (hash_mem \<times> ptr option) option" where
  "HASH_SRT cmpfcn head s =
     (case head of None \<Rightarrow> Some (s, None)
      | Some h \<Rightarrow>
        (case sort_loop cmpfcn 1 (hh s, Some h) of None \<Rightarrow> None
         | Some (m, list, last_hh) \<Rightarrow>
           Some (upd_table (tbl_of s h) (tail_update (\<lambda>_. last_hh)) (upd_hh (\<lambda>_. m) s), list)))"

section \<open>Merging lists\<close>

fun merge_by :: "('a \<Rightarrow> 'a \<Rightarrow> bool) \<Rightarrow> 'a list \<Rightarrow> 'a list \<Rightarrow> 'a list" where
  "merge_by le [] qs = qs"
| "merge_by le ps [] = ps"
| "merge_by le (p # ps) (q # qs) =
     (if le p q then p # merge_by le ps (q # qs) else q # merge_by le (p # ps) qs)"

lemma merge_by_Nil2 [simp]: "merge_by le ps [] = ps"
  by (cases ps) simp_all

lemma mset_merge_by [simp]: "mset (merge_by le ps qs) = mset ps + mset qs"
  by (induction le ps qs rule: merge_by.induct) simp_all

lemma set_merge_by [simp]: "set (merge_by le ps qs) = set ps \<union> set qs"
  by (induction le ps qs rule: merge_by.induct) auto

lemma length_merge_by [simp]: "length (merge_by le ps qs) = length ps + length qs"
  by (induction le ps qs rule: merge_by.induct) simp_all

lemma sorted_merge_by:
  fixes f :: "'a \<Rightarrow> 'b :: linorder"
  assumes "sorted (map f ps)" and "sorted (map f qs)"
  shows "sorted (map f (merge_by (\<lambda>x y. f x \<le> f y) ps qs))"
  using assms
  by (induction "\<lambda>x y. f x \<le> f y" ps qs rule: merge_by.induct) (auto simp: not_le intro: order_trans less_imp_le)

text \<open>Elements with the same key stay in their order, those of the first list first.\<close>

lemma filter_merge_by:
  fixes f :: "'a \<Rightarrow> 'b :: linorder"
  assumes "sorted (map f ps)" and "sorted (map f qs)"
  shows "filter (\<lambda>x. f x = k) (merge_by (\<lambda>x y. f x \<le> f y) ps qs)
    = filter (\<lambda>x. f x = k) ps @ filter (\<lambda>x. f x = k) qs"
  using assms
proof (induction "\<lambda>x y. f x \<le> f y" ps qs rule: merge_by.induct)
  case (3 p ps q qs)
  show ?case
  proof (cases "f p \<le> f q")
    case False
    have "filter (\<lambda>x. f x = k) (p # ps) = []" if "f q = k"
      using False 3(3) that by (auto simp: filter_empty_conv not_le)
    then show ?thesis
      using False 3 by auto
  qed (use 3 in auto)
qed simp_all

lemma merge_sort_keys:
  fixes f :: "'a \<Rightarrow> 'b :: linorder"
  shows "merge_by (\<lambda>x y. f x \<le> f y) (sort_key f xs) (sort_key f ys) = sort_key f (xs @ ys)"
proof (rule sym, rule properties_for_sort_key)
  show "mset (merge_by (\<lambda>x y. f x \<le> f y) (sort_key f xs) (sort_key f ys)) = mset (xs @ ys)"
    by simp
  show "filter (\<lambda>x. f k = f x) (merge_by (\<lambda>x y. f x \<le> f y) (sort_key f xs) (sort_key f ys))
      = filter (\<lambda>x. f k = f x) (xs @ ys)" for k
    using filter_merge_by [of f "sort_key f xs" "sort_key f ys" "f k"] by (simp add: eq_commute sort_key_stable)
  show "sorted (map f (merge_by (\<lambda>x y. f x \<le> f y) (sort_key f xs) (sort_key f ys)))"
    by (simp add: sorted_merge_by)
qed

section \<open>Passes over lists\<close>

text \<open>One pass over runs of \<open>n\<close> elements, and passes with doubled runs until one merge does.\<close>

function merge_pass :: "('a \<Rightarrow> 'a \<Rightarrow> bool) \<Rightarrow> nat \<Rightarrow> 'a list \<Rightarrow> 'a list" where
  "merge_pass le n xs =
     (if xs = [] \<or> n = 0 then []
      else merge_by le (take n xs) (take n (drop n xs)) @ merge_pass le n (drop (2 * n) xs))"
  by pat_completeness auto
termination by (relation "measure (\<lambda>(le, n, xs). length xs)") auto

function bottom_up :: "('a \<Rightarrow> 'a \<Rightarrow> bool) \<Rightarrow> nat \<Rightarrow> 'a list \<Rightarrow> 'a list" where
  "bottom_up le n xs =
     (if length xs \<le> 2 * n \<or> n = 0 then merge_pass le n xs
      else bottom_up le (2 * n) (merge_pass le n xs))"
  by pat_completeness auto

declare merge_pass.simps [simp del]

lemma mset_merge_pass: "n \<noteq> 0 \<Longrightarrow> mset (merge_pass le n xs) = mset xs"
proof (induction le n xs rule: merge_pass.induct)
  case (1 le n xs)
  show ?case
  proof (cases "xs = []")
    case False
    then have "mset (merge_pass le n xs) = mset (take n xs) + mset (take n (drop n xs)) + mset (drop (2 * n) xs)"
      using 1 by (subst merge_pass.simps) simp
    also have "\<dots> = mset (take n xs @ take n (drop n xs) @ drop n (drop n xs))"
      by (simp add: mult_2 add.commute)
    finally show ?thesis
      by (simp only: append_take_drop_id)
  qed (simp add: merge_pass.simps)
qed

lemma length_merge_pass: "n \<noteq> 0 \<Longrightarrow> length (merge_pass le n xs) = length xs"
  by (rule mset_eq_length) (rule mset_merge_pass)

termination bottom_up
  by (relation "measure (\<lambda>(le, n, xs). length xs - n)") (auto simp: length_merge_pass)

declare bottom_up.simps [simp del]

text \<open>A list whose runs of length \<open>n\<close> are sorted.\<close>

function sorted_runs :: "('a \<Rightarrow> 'b :: linorder) \<Rightarrow> nat \<Rightarrow> 'a list \<Rightarrow> 'a list" where
  "sorted_runs f n xs =
     (if xs = [] \<or> n = 0 then [] else sort_key f (take n xs) @ sorted_runs f n (drop n xs))"
  by pat_completeness auto
termination by (relation "measure (\<lambda>(f, n, xs). length xs)") auto

declare sorted_runs.simps [simp del]

lemma length_sorted_runs: "n \<noteq> 0 \<Longrightarrow> length (sorted_runs f n xs) = length xs"
  by (induction f n xs rule: sorted_runs.induct) (subst sorted_runs.simps, auto)

lemma sorted_runs_one: "sorted_runs f 1 xs = xs"
  by (induction xs) (simp_all add: sorted_runs.simps)

lemma sorted_runs_all:
  assumes "length xs \<le> n" and "n \<noteq> 0"
  shows "sorted_runs f n xs = sort_key f xs"
proof -
  have "sorted_runs f n (drop n xs) = []"
    using assms by (simp add: sorted_runs.simps)
  then show ?thesis
    using assms by (subst sorted_runs.simps) simp
qed

lemma sorted_runs_take:
  "n \<noteq> 0 \<Longrightarrow> take n (sorted_runs f n xs) = sort_key f (take n xs)"
  "n \<noteq> 0 \<Longrightarrow> drop n (sorted_runs f n xs) = sorted_runs f n (drop n xs)"
proof -
  assume n: "n \<noteq> 0"
  have "sorted_runs f n (drop n xs) = []" if "length xs < n"
    using that by (simp add: sorted_runs.simps)
  moreover have "sorted_runs f n xs = sort_key f (take n xs) @ sorted_runs f n (drop n xs)"
    using n by (subst sorted_runs.simps) (simp add: sorted_runs.simps [of f n "[]"])
  ultimately show "take n (sorted_runs f n xs) = sort_key f (take n xs)"
    "drop n (sorted_runs f n xs) = sorted_runs f n (drop n xs)"
    by (cases "length xs < n"; simp)+
qed

lemma merge_pass_runs:
  "n \<noteq> 0 \<Longrightarrow> merge_pass (\<lambda>x y. f x \<le> f y) n (sorted_runs f n xs) = sorted_runs f (2 * n) xs"
proof (induction "length xs" arbitrary: xs rule: less_induct)
  case less
  show ?case
  proof (cases "xs = []")
    case False
    have runs: "sorted_runs f n xs \<noteq> []"
      using False length_sorted_runs [OF less.prems, of f xs] by fastforce
    have "drop (2 * n) (sorted_runs f n xs) = sorted_runs f n (drop (2 * n) xs)"
      using sorted_runs_take(2) [OF less.prems, of f xs] sorted_runs_take(2) [OF less.prems, of f "drop n xs"]
      by (metis drop_drop mult_2)
    moreover have "merge_pass (\<lambda>x y. f x \<le> f y) n (sorted_runs f n (drop (2 * n) xs))
        = sorted_runs f (2 * n) (drop (2 * n) xs)"
      using False less by simp
    moreover have "sort_key f (take n xs @ take n (drop n xs)) = sort_key f (take (2 * n) xs)"
      by (metis mult_2 take_add)
    ultimately have "merge_pass (\<lambda>x y. f x \<le> f y) n (sorted_runs f n xs)
        = sort_key f (take (2 * n) xs) @ sorted_runs f (2 * n) (drop (2 * n) xs)"
      using runs less.prems by (subst merge_pass.simps) (simp add: sorted_runs_take merge_sort_keys)
    then show ?thesis
      using False less.prems by (subst (2) sorted_runs.simps) simp
  qed (simp add: merge_pass.simps sorted_runs.simps)
qed

lemma bottom_up_runs:
  "n \<noteq> 0 \<Longrightarrow> bottom_up (\<lambda>x y. f x \<le> f y) n (sorted_runs f n xs) = sort_key f xs"
proof (induction "length xs - n" arbitrary: n rule: less_induct)
  case less
  show ?case
  proof (cases "length xs \<le> 2 * n")
    case True
    then show ?thesis
      using less.prems by (subst bottom_up.simps)
        (simp add: length_sorted_runs merge_pass_runs sorted_runs_all)
  next
    case False
    then show ?thesis
      using less by (subst bottom_up.simps) (simp add: length_sorted_runs merge_pass_runs)
  qed
qed

theorem bottom_up_sort: "bottom_up (\<lambda>x y. f x \<le> f y) 1 xs = sort_key f xs"
  using bottom_up_runs [of 1 f xs] by (simp only: sorted_runs_one one_neq_zero simp_thms)

end
