(* ===== verification/UtSortOk.thy ===== *)
theory UtSortOk
  imports UtSort UtHashAdd
begin

text \<open>
  The three loops of \<open>HASH_SRT\<close> end and do in memory what the functions of \<open>UtSort\<close> do on lists, so
  the macro is a stable sort that keeps the hash well formed.
\<close>

section \<open>The loops refine the list functions\<close>

text \<open>Following \<open>nxt\<close> only: the back links of the runs are out of date while they are merged.\<close>

primrec seg :: "('a \<Rightarrow> 'a option) \<Rightarrow> 'a option \<Rightarrow> 'a list \<Rightarrow> 'a option \<Rightarrow> bool" where
  "seg nx p [] q \<longleftrightarrow> p = q"
| "seg nx p (x # xs) q \<longleftrightarrow> p = Some x \<and> seg nx (nx x) xs q"

lemma seg_frame: "(\<And>x. x \<in> set xs \<Longrightarrow> nx' x = nx x) \<Longrightarrow> seg nx' p xs q = seg nx p xs q"
  by (induction xs arbitrary: p) auto

lemma dseg_seg: "dseg nx pv a p xs q \<Longrightarrow> seg nx p xs q"
  by (induction xs arbitrary: a p) auto

lemma seg_start: "seg nx p xs q \<Longrightarrow> p = first_or q xs"
  by (cases xs) simp_all

lemma seg_append: "seg nx p (xs @ ys) q \<longleftrightarrow> seg nx p xs (first_or q ys) \<and> seg nx (first_or q ys) ys q"
  by (induction xs arbitrary: p) (auto dest: seg_start)

definition sort_frame :: "handles \<Rightarrow> handles \<Rightarrow> bool" where
  "sort_frame m m' \<longleftrightarrow> same_chains m m' \<and> same_items m m'"

lemma sort_frame_trans: "sort_frame m m' \<Longrightarrow> sort_frame m' m'' \<Longrightarrow> sort_frame m m''"
  by (simp add: sort_frame_def same_chains_def same_items_def)

lemma sort_frame_refl [simp]: "sort_frame m m"
  by (simp add: sort_frame_def)

text \<open>The elements merged so far, what is left of the first run, and all elements behind it.\<close>

definition merging :: "srt_vars \<Rightarrow> ptr list \<Rightarrow> ptr list \<Rightarrow> ptr list \<Rightarrow> bool" where
  "merging v ds ps qs \<longleftrightarrow>
     (\<exists>r. dseg (nxt \<circ> hs_mem v) (prev \<circ> hs_mem v) None (hs_list v) ds r) \<and> hs_tail v = last_or None ds
     \<and> (\<exists>r. seg (nxt \<circ> hs_mem v) (hs_p v) ps r) \<and> seg (nxt \<circ> hs_mem v) (hs_q v) qs None
     \<and> distinct (ds @ ps @ qs) \<and> unat (hs_psize v) = length ps"

lemma srt_append_merging:
  assumes ds: "dseg (nxt \<circ> hs_mem v) (prev \<circ> hs_mem v) None (hs_list v) ds r" "hs_tail v = last_or None ds"
    and ps: "seg (nxt \<circ> hs_mem v) (hs_p v) ps r1" and qs: "seg (nxt \<circ> hs_mem v) (hs_q v) qs None"
    and dis: "distinct (ds @ e # ps @ qs)" and sz: "unat (hs_psize v) = length ps"
  shows "merging (srt_append (Some e) v) (ds @ [e]) ps qs"
    "sort_frame (hs_mem v) (hs_mem (srt_append (Some e) v))"
    "hs_qsize (srt_append (Some e) v) = hs_qsize v"
proof -
  let ?v = "srt_append (Some e) v" and ?nx = "upd_opt (nxt \<circ> hs_mem v) (last_or None ds) (Some e)"
    and ?pv = "(prev \<circ> hs_mem v)(e := last_or None ds)"
  have v: "hs_mem ?v = set_prev e (last_or None ds) (if_set set_nxt (last_or None ds) (Some e) (hs_mem v))"
    "hs_list ?v = (if ds = [] then Some e else hs_list v)" "hs_tail ?v = Some e" "hs_p ?v = hs_p v"
    "hs_q ?v = hs_q v" "hs_psize ?v = hs_psize v" "hs_qsize ?v = hs_qsize v"
    using ds(2) by (auto simp: srt_append_def if_set_def Let_def last_or_def split: option.split)
  have links: "nxt \<circ> hs_mem ?v = ?nx" "prev \<circ> hs_mem ?v = ?pv"
    by (simp_all add: v(1))
  show "hs_qsize ?v = hs_qsize v"
    by (rule v(7))
  show "sort_frame (hs_mem v) (hs_mem ?v)"
    by (simp add: v(1) sort_frame_def)
  have keep: "?nx x = (nxt \<circ> hs_mem v) x" if "x \<in> set (ps @ qs)" for x
    using that dis last_or_in [of ds x] by (auto simp: upd_opt_def split: option.split)
  have "dseg ?nx (prev \<circ> hs_mem v) None (if ds = [] then Some e else hs_list v) ds (Some e)"
    using dseg_last_nx [OF ds(1)] dis by simp
  then have "dseg ?nx ?pv None (hs_list ?v) ds (Some e)"
    using dis v(2) by simp
  then have "dseg ?nx ?pv None (hs_list ?v) (ds @ [e]) (?nx e)"
    by (simp add: dseg_append)
  moreover have "seg ?nx (hs_p v) ps r1" "seg ?nx (hs_q v) qs None"
    using ps qs keep seg_frame [of ps ?nx "nxt \<circ> hs_mem v"] seg_frame [of qs ?nx "nxt \<circ> hs_mem v"]
    by auto
  ultimately show "merging ?v (ds @ [e]) ps qs"
    unfolding merging_def links using v dis sz by (auto simp: last_or_append)
qed

lemma merge_step_p:
  assumes m: "merging v ds (p # ps) qs"
    and c: "take (unat (hs_qsize v)) qs = [] \<or> cmpfcn p (hd qs) \<le> 0"
  shows "merging (merge_step cmpfcn v) (ds @ [p]) ps qs"
    "sort_frame (hs_mem v) (hs_mem (merge_step cmpfcn v))" "hs_qsize (merge_step cmpfcn v) = hs_qsize v"
proof -
  obtain r r1 where h: "dseg (nxt \<circ> hs_mem v) (prev \<circ> hs_mem v) None (hs_list v) ds r"
    "hs_tail v = last_or None ds" "hs_p v = Some p" "seg (nxt \<circ> hs_mem v) (nxt (hs_mem v p)) ps r1"
    "seg (nxt \<circ> hs_mem v) (hs_q v) qs None" "distinct (ds @ p # ps @ qs)" "unat (hs_psize v) = Suc (length ps)"
    using m by (auto simp: merging_def comp_def)
  have sz1: "hs_psize v \<noteq> 0"
    using h(7) by auto
  then have sz: "hs_psize v \<noteq> 0" "unat (hs_psize v - 1) = length ps"
    using h(7) by (simp_all add: unat_minus_one)
  have q: "hs_q v = first_or None qs"
    using seg_start [OF h(5)] .
  define w where "w = snd (take_p v)"
  have w: "take_p v = (Some p, w)" "hs_mem w = hs_mem v" "hs_list w = hs_list v" "hs_tail w = hs_tail v"
    "hs_p w = nxt (hs_mem v p)" "hs_q w = hs_q v" "unat (hs_psize w) = length ps" "hs_qsize w = hs_qsize v"
    using h(3) sz by (simp_all add: take_p_def w_def)
  have step: "merge_step cmpfcn v = srt_append (Some p) w"
  proof (cases qs)
    case Nil
    then show ?thesis
      using sz w(1) q by (simp add: merge_step_def)
  next
    case (Cons q' qs')
    then show ?thesis
      using sz w(1) q c h(3) by (auto simp: merge_step_def unat_eq_zero)
  qed
  show "merging (merge_step cmpfcn v) (ds @ [p]) ps qs"
    "sort_frame (hs_mem v) (hs_mem (merge_step cmpfcn v))" "hs_qsize (merge_step cmpfcn v) = hs_qsize v"
    unfolding step using srt_append_merging [of w ds r ps r1 qs p] h w by simp_all
qed

lemma merge_step_q:
  assumes m: "merging v ds ps (q # qs)" and n: "hs_qsize v \<noteq> 0"
    and c: "ps = [] \<or> \<not> cmpfcn (hd ps) q \<le> 0"
  shows "merging (merge_step cmpfcn v) (ds @ [q]) ps qs"
    "sort_frame (hs_mem v) (hs_mem (merge_step cmpfcn v))"
    "unat (hs_qsize (merge_step cmpfcn v)) = unat (hs_qsize v) - 1"
proof -
  obtain r r1 where h: "dseg (nxt \<circ> hs_mem v) (prev \<circ> hs_mem v) None (hs_list v) ds r"
    "hs_tail v = last_or None ds" "seg (nxt \<circ> hs_mem v) (hs_p v) ps r1" "hs_q v = Some q"
    "seg (nxt \<circ> hs_mem v) (nxt (hs_mem v q)) qs None" "distinct (ds @ q # ps @ qs)"
    "unat (hs_psize v) = length ps"
    using m by (auto simp: merging_def comp_def)
  define w where "w = snd (take_q v)"
  have w: "take_q v = (Some q, w)" "hs_mem w = hs_mem v" "hs_list w = hs_list v" "hs_tail w = hs_tail v"
    "hs_q w = nxt (hs_mem v q)" "hs_p w = hs_p v" "unat (hs_psize w) = length ps" "hs_qsize w = hs_qsize v - 1"
    using h(4,7) by (simp_all add: take_q_def w_def)
  have step: "merge_step cmpfcn v = srt_append (Some q) w"
  proof (cases ps)
    case Nil
    then show ?thesis
      using w(1) h(7) by (simp add: merge_step_def unat_eq_zero)
  next
    case (Cons p' ps')
    then have "hs_psize v \<noteq> 0" "hs_p v = Some p'"
      using h(3,7) by auto
    then show ?thesis
      using w(1) h(4) n c Cons by (auto simp: merge_step_def)
  qed
  show "merging (merge_step cmpfcn v) (ds @ [q]) ps qs"
    "sort_frame (hs_mem v) (hs_mem (merge_step cmpfcn v))"
    "unat (hs_qsize (merge_step cmpfcn v)) = unat (hs_qsize v) - 1"
    unfolding step using srt_append_merging [of w ds r ps r1 qs q] h w n by (simp_all add: unat_minus_one)
qed

lemma merge_loop_ok:
  fixes cmpfcn :: "ptr \<Rightarrow> ptr \<Rightarrow> int"
  defines "le \<equiv> \<lambda>x y. cmpfcn x y \<le> 0"
  assumes "merging v ds ps qs"
  shows "\<exists>v'. merge_loop cmpfcn v = Some v' \<and> sort_frame (hs_mem v) (hs_mem v')
    \<and> merging v' (ds @ merge_by le ps (take (unat (hs_qsize v)) qs)) [] (drop (unat (hs_qsize v)) qs)"
  using assms(2)
proof (induction "length ps + unat (hs_qsize v)" arbitrary: v ds ps qs rule: less_induct)
  case less
  let ?n = "unat (hs_qsize v)" and ?w = "merge_step cmpfcn v"
  have q: "hs_q v = first_or None qs"
    using less.prems seg_start by (auto simp: merging_def)
  have p: "hs_psize v = 0 \<longleftrightarrow> ps = []"
    using less.prems by (auto simp: merging_def unat_eq_zero)
  have n: "?n = 0 \<longleftrightarrow> hs_qsize v = 0"
    by (rule unat_eq_zero)
  have go: "merge_loop cmpfcn v = merge_loop cmpfcn ?w" if "ps \<noteq> [] \<or> take ?n qs \<noteq> []"
    using that p q n by (subst merge_loop.simps) (auto simp: first_or_None)
  show ?case
  proof (cases "ps = [] \<and> take ?n qs = []")
    case True
    then have "merge_loop cmpfcn v = Some v"
      using p q n by (subst merge_loop.simps) (auto simp: first_or_None)
    moreover have "drop ?n qs = qs"
      using True by auto
    ultimately show ?thesis
      using True less.prems by auto
  next
    case False
    show ?thesis
    proof (cases "ps \<noteq> [] \<and> (take ?n qs = [] \<or> le (hd ps) (hd qs))")
      case True
      then obtain p ps' where ps: "ps = p # ps'"
        by (cases ps) auto
      note step = merge_step_p [OF less.prems [unfolded ps], of cmpfcn]
      have st: "merging ?w (ds @ [p]) ps' qs" "sort_frame (hs_mem v) (hs_mem ?w)" "hs_qsize ?w = hs_qsize v"
        using step True ps by (auto simp: le_def)
      obtain v' where v': "merge_loop cmpfcn ?w = Some v'" "sort_frame (hs_mem ?w) (hs_mem v')"
        "merging v' ((ds @ [p]) @ merge_by le ps' (take ?n qs)) [] (drop ?n qs)"
        using less.hyps [OF _ st(1)] st(3) ps by auto
      have "merge_by le ps (take ?n qs) = p # merge_by le ps' (take ?n qs)"
      proof (cases "take ?n qs")
        case (Cons y ys)
        then have "hd qs = y"
          by (metis hd_take list.sel(1) take_eq_Nil list.distinct(1) bot_nat_0.not_eq_extremum)
        then show ?thesis
          using True ps Cons by simp
      qed (auto simp: ps)
      then show ?thesis
        using v' go sort_frame_trans [OF st(2) v'(2)] ps by simp
    next
      case c: False
      then obtain q' qs' where qs: "qs = q' # qs'" and n0: "hs_qsize v \<noteq> 0"
        using False n by (cases qs) auto
      note step = merge_step_q [OF less.prems [unfolded qs] n0, of cmpfcn]
      obtain k where k: "?n = Suc k"
        using n n0 by (metis not0_implies_Suc)
      have st: "merging ?w (ds @ [q']) ps qs'" "sort_frame (hs_mem v) (hs_mem ?w)" "unat (hs_qsize ?w) = k"
        using step c qs k by (auto simp: le_def)
      obtain v' where v': "merge_loop cmpfcn ?w = Some v'" "sort_frame (hs_mem ?w) (hs_mem v')"
        "merging v' ((ds @ [q']) @ merge_by le ps (take k qs')) [] (drop k qs')"
        using less.hyps [OF _ st(1)] st(3) k by auto
      have "merge_by le ps (take ?n qs) = q' # merge_by le ps (take k qs')"
        using c k qs by (cases ps) auto
      then show ?thesis
        using v' go sort_frame_trans [OF st(2) v'(2)] qs k by simp
    qed
  qed
qed


lemma step_off_ok:
  assumes "seg (nxt \<circ> m) (Some x) (x # xs) None" and "n \<noteq> 0"
  shows "step_off n m (Some x) k = (k + of_nat (min n (length (x # xs))), first_or None (drop n (x # xs)))"
  using assms
proof (induction n arbitrary: x xs k)
  case (Suc n)
  have rest: "seg (nxt \<circ> m) (nxt (m x)) xs None"
    using Suc.prems by (simp add: comp_def)
  show ?case
  proof (cases xs)
    case Nil
    then show ?thesis
      using rest by simp
  next
    case (Cons y ys)
    then have y: "nxt (m x) = Some y"
      using rest by simp
    show ?thesis
    proof (cases "n = 0")
      case False
      then have "step_off n m (Some y) (k + 1)
          = (k + 1 + of_nat (min n (length (y # ys))), first_or None (drop n (y # ys)))"
        using Suc.IH [of y ys] rest Cons y by (simp add: comp_def)
      then show ?thesis
        using y Cons by (simp add: Let_def algebra_simps)
    qed (use y Cons in \<open>simp add: Let_def\<close>)
  qed
qed simp

text \<open>How many merges a pass makes.\<close>

function merges :: "nat \<Rightarrow> 'a list \<Rightarrow> nat" where
  "merges n xs = (if xs = [] \<or> n = 0 then 0 else Suc (merges n (drop (2 * n) xs)))"
  by pat_completeness auto
termination by (relation "measure (\<lambda>(n, xs). length xs)") auto

declare merges.simps [simp del]

lemma merges_le: "merges n xs \<le> length xs"
proof (induction n xs rule: merges.induct)
  case (1 n xs)
  then show ?case
    by (subst merges.simps) (cases xs; force)
qed

lemma merges_one: "n \<noteq> 0 \<Longrightarrow> merges n xs \<le> 1 \<longleftrightarrow> length xs \<le> 2 * n"
proof -
  assume n: "n \<noteq> 0"
  have zero: "merges n ys = 0 \<longleftrightarrow> ys = []" for ys :: "'a list"
    using n by (subst merges.simps) simp
  show ?thesis
    using n by (subst merges.simps) (auto simp: zero)
qed

lemma pass_loop_ok:
  fixes cmpfcn :: "ptr \<Rightarrow> ptr \<Rightarrow> int"
  defines "le \<equiv> \<lambda>x y. cmpfcn x y \<le> 0"
  assumes "dseg (nxt \<circ> hs_mem v) (prev \<circ> hs_mem v) None (hs_list v) ds r" and "hs_tail v = last_or None ds"
    and "seg (nxt \<circ> hs_mem v) (hs_p v) xs None" and "distinct (ds @ xs)" and "insize \<noteq> 0"
    and "length xs < 2 ^ 32"
  shows "\<exists>v' r'. pass_loop cmpfcn insize (v, nmerges) = Some (v', nmerges + of_nat (merges (unat insize) xs))
    \<and> sort_frame (hs_mem v) (hs_mem v') \<and> hs_tail v' = last_or None (ds @ merge_pass le (unat insize) xs)
    \<and> dseg (nxt \<circ> hs_mem v') (prev \<circ> hs_mem v') None (hs_list v') (ds @ merge_pass le (unat insize) xs) r'"
  using assms(2-)
proof (induction "length xs" arbitrary: v ds xs nmerges r rule: less_induct)
  case less
  let ?n = "unat insize"
  have n: "?n \<noteq> 0"
    using less.prems(5) by (simp add: unat_eq_zero)
  show ?case
  proof (cases xs)
    case Nil
    then show ?thesis
      using less.prems by (auto simp: pass_loop.simps merges.simps merge_pass.simps)
  next
    case (Cons x xs')
    then have p: "hs_p v = Some x"
      using less.prems(3) by simp
    define w where "w = v\<lparr>hs_psize := of_nat (min ?n (length xs)), hs_q := first_or None (drop ?n xs),
        hs_qsize := insize\<rparr>"
    have off: "step_off ?n (hs_mem v) (hs_p v) 0 = (of_nat (min ?n (length xs)), first_or None (drop ?n xs))"
      using step_off_ok [of "hs_mem v" x xs' ?n 0] less.prems(3) Cons n p by simp
    have split: "seg (nxt \<circ> hs_mem v) (hs_p v) (take ?n xs) (first_or None (drop ?n xs))"
      "seg (nxt \<circ> hs_mem v) (first_or None (drop ?n xs)) (drop ?n xs) None"
      using less.prems(3) seg_append [of "nxt \<circ> hs_mem v" "hs_p v" "take ?n xs" "drop ?n xs" None] by simp_all
    have "unat (of_nat (min ?n (length xs)) :: unsigned) = length (take ?n xs)"
      using less.prems(6) by (simp add: unat_of_nat)
    then have "merging w ds (take ?n xs) (drop ?n xs)"
      using less.prems(1,2,4) split set_take_subset [of ?n xs] set_drop_subset [of ?n xs]
      by (auto simp: merging_def w_def set_take_disj_set_drop_if_distinct)
    from merge_loop_ok [OF this, of cmpfcn] obtain v1 where v1: "merge_loop cmpfcn w = Some v1"
      "sort_frame (hs_mem v) (hs_mem v1)"
      "merging v1 (ds @ merge_by le (take ?n xs) (take ?n (drop ?n xs))) [] (drop ?n (drop ?n xs))"
      by (auto simp: w_def le_def)
    let ?ds = "ds @ merge_by le (take ?n xs) (take ?n (drop ?n xs))"
    define v2 where "v2 = v1\<lparr>hs_p := hs_q v1\<rparr>"
    obtain r2 where m2: "dseg (nxt \<circ> hs_mem v2) (prev \<circ> hs_mem v2) None (hs_list v2) ?ds r2"
      "hs_tail v2 = last_or None ?ds" "seg (nxt \<circ> hs_mem v2) (hs_p v2) (drop (2 * ?n) xs) None"
      "distinct (?ds @ drop (2 * ?n) xs)"
      using v1(3) by (auto simp: merging_def v2_def mult_2)
    have short: "length (drop (2 * ?n) xs) < length xs" "length (drop (2 * ?n) xs) < 2 ^ 32"
      using n Cons less.prems(6) by auto
    from less.hyps [OF short(1) m2 less.prems(5) short(2), of "nmerges + 1"]
    obtain v' r' where res: "pass_loop cmpfcn insize (v2, nmerges + 1)
        = Some (v', nmerges + 1 + of_nat (merges ?n (drop (2 * ?n) xs)))"
      "sort_frame (hs_mem v2) (hs_mem v')"
      "hs_tail v' = last_or None (?ds @ merge_pass le ?n (drop (2 * ?n) xs))"
      "dseg (nxt \<circ> hs_mem v') (prev \<circ> hs_mem v') None (hs_list v') (?ds @ merge_pass le ?n (drop (2 * ?n) xs)) r'"
      by blast
    have "pass_loop cmpfcn insize (v, nmerges) = pass_loop cmpfcn insize (v2, nmerges + 1)"
      using p off v1(1) by (subst pass_loop.simps) (simp add: w_def v2_def)
    moreover have "merges ?n xs = Suc (merges ?n (drop (2 * ?n) xs))"
      "ds @ merge_pass le ?n xs = ?ds @ merge_pass le ?n (drop (2 * ?n) xs)"
      using n Cons by (subst merges.simps merge_pass.simps; simp)+
    moreover have "sort_frame (hs_mem v) (hs_mem v')"
      using v1(2) res(2) sort_frame_trans by (simp add: v2_def)
    ultimately show ?thesis
      using res by (simp add: algebra_simps) blast
  qed
qed

lemma sort_loop_ok:
  fixes cmpfcn :: "ptr \<Rightarrow> ptr \<Rightarrow> int"
  defines "le \<equiv> \<lambda>x y. cmpfcn x y \<le> 0"
  assumes "seg (nxt \<circ> m) list xs None" and "distinct xs" and "insize \<noteq> 0" and "length xs < 2 ^ 32"
    and "xs \<noteq> []"
  shows "\<exists>m' list'. sort_loop cmpfcn insize (m, list)
      = Some (m', list', last_or None (bottom_up le (unat insize) xs))
    \<and> dlist (nxt \<circ> m') (prev \<circ> m') list' (bottom_up le (unat insize) xs) \<and> sort_frame m m'"
  using assms(2-)
proof (induction "length xs - unat insize" arbitrary: m list xs insize rule: less_induct)
  case less
  let ?n = "unat insize"
  let ?ys = "merge_pass le ?n xs"
  have n: "?n \<noteq> 0"
    using less.prems(3) by (simp add: unat_eq_zero)
  define v where "v = \<lparr>hs_mem = m, hs_p = list, hs_q = None, hs_list = None, hs_tail = None,
      hs_psize = 0, hs_qsize = 0\<rparr>"
  have "dseg (nxt \<circ> hs_mem v) (prev \<circ> hs_mem v) None (hs_list v) [] None" "hs_tail v = last_or None []"
    "seg (nxt \<circ> hs_mem v) (hs_p v) xs None" "distinct ([] @ xs)"
    using less.prems by (simp_all add: v_def)
  from pass_loop_ok [OF this less.prems(3,4), of cmpfcn 0] obtain v' r where pass:
    "pass_loop cmpfcn insize (v, 0) = Some (v', of_nat (merges ?n xs))" "sort_frame m (hs_mem v')"
    "hs_tail v' = last_or None ?ys" "dseg (nxt \<circ> hs_mem v') (prev \<circ> hs_mem v') None (hs_list v') ?ys r"
    by (auto simp: v_def le_def)
  have mset: "mset ?ys = mset xs"
    by (rule mset_merge_pass [OF n])
  have dis: "distinct ?ys"
    using less.prems(2) mset_eq_imp_distinct_iff [OF mset] by (simp only:)
  define m1 where "m1 = if_set set_nxt (hs_tail v') None (hs_mem v')"
  have frame: "sort_frame m m1"
    using pass(2) by (simp add: m1_def sort_frame_def)
  have len: "length ?ys = length xs"
    by (rule length_merge_pass [OF n])
  then have ys: "?ys \<noteq> []"
    using less.prems(5) by fastforce
  have dl: "dlist (nxt \<circ> m1) (prev \<circ> m1) (hs_list v') ?ys"
    using dseg_last_nx [OF pass(4) dis, of None] pass(3) ys by (simp add: m1_def)
  have few: "(of_nat (merges ?n xs) :: unsigned) \<le> 1 \<longleftrightarrow> length xs \<le> 2 * ?n"
    using merges_one [OF n, of xs] merges_le [of ?n xs] less.prems(4)
    by (simp add: word_le_nat_alt unat_of_nat)
  have step: "sort_loop cmpfcn insize (m, list) =
      (if length xs \<le> 2 * ?n then Some (m1, hs_list v', hs_tail v')
       else sort_loop cmpfcn (insize * 2) (m1, hs_list v'))"
    using pass(1) few by (subst sort_loop.simps) (simp add: v_def [symmetric] m1_def)
  show ?case
  proof (cases "length xs \<le> 2 * ?n")
    case True
    then have "bottom_up le ?n xs = ?ys"
      by (subst bottom_up.simps) simp
    then show ?thesis
      using True step dl pass(3) frame by simp
  next
    case False
    then have two: "unat (insize * 2) = 2 * ?n"
      using less.prems(4) by (simp add: unat_word_ariths)
    then have nz: "insize * 2 \<noteq> 0"
      using n by (metis mult_eq_0_iff unat_0 zero_neq_numeral)
    have "length ?ys - unat (insize * 2) < length xs - ?n" "length ?ys < 2 ^ 32"
      using False n less.prems(4) by (simp_all add: len two)
    from less.hyps [OF this(1) dseg_seg [OF dl] dis nz this(2) ys] obtain m' list' where
      "sort_loop cmpfcn (insize * 2) (m1, hs_list v') = Some (m', list', last_or None (bottom_up le (2 * ?n) ?ys))"
      "dlist (nxt \<circ> m') (prev \<circ> m') list' (bottom_up le (2 * ?n) ?ys)" "sort_frame m1 m'"
      by (auto simp: two)
    moreover have "bottom_up le ?n xs = bottom_up le (2 * ?n) ?ys"
      using False n by (subst bottom_up.simps) simp
    ultimately show ?thesis
      unfolding step using False sort_frame_trans [OF frame, of m'] by (simp only: if_False) blast
  qed
qed

lemma mset_bottom_up: "n \<noteq> 0 \<Longrightarrow> mset (bottom_up le n xs) = mset xs"
proof (induction le n xs rule: bottom_up.induct)
  case (1 le n xs)
  then show ?case
    by (subst bottom_up.simps) (simp add: mset_merge_pass)
qed

theorem srt_bottom_up:
  assumes "ut_ok s head xs"
  shows "\<exists>s' head'. HASH_SRT cmpfcn head s = Some (s', head')
    \<and> ut_ok s' head' (bottom_up (\<lambda>x y. cmpfcn x y \<le> 0) 1 xs) \<and> same_items (hh s) (hh s')"
proof (cases head)
  case None
  then have "xs = []"
    using assms by (simp add: ut_ok_def)
  then show ?thesis
    using None by (simp add: HASH_SRT_def ut_ok_def bottom_up.simps merge_pass.simps)
next
  case (Some h)
  define t where "t = tbl_of s h"
  let ?ys = "bottom_up (\<lambda>x y. cmpfcn x y \<le> 0) 1 xs"
  have at: "hash_at s t (Some h) xs" and xs: "xs \<noteq> []"
    using ut_ok_head [of s h xs] assms Some by (auto simp: t_def)
  have num: "length xs < 2 ^ 32"
  proof -
    have "unat (num_items (table_at s t)) < 2 ^ 32"
      by (rule order_less_le_trans [OF unsigned_less]) simp
    then show ?thesis
      using at by (simp add: hash_at_def)
  qed
  from sort_loop_ok [OF dseg_seg [OF hash_atD(1) [OF at]] hash_atD(3) [OF at] one_neq_zero num xs, of cmpfcn]
  obtain m list where srt: "sort_loop cmpfcn 1 (hh s, Some h) = Some (m, list, last_or None ?ys)"
    "dlist (nxt \<circ> m) (prev \<circ> m) list ?ys" "same_chains (hh s) m" "same_items (hh s) m"
    by (auto simp: sort_frame_def)
  have mset: "mset ?ys = mset xs"
    by (rule mset_bottom_up) simp
  then have set: "set ?ys = set xs" "length ?ys = length xs"
    by (rule mset_eq_setD, rule mset_eq_length)
  then have list: "list \<noteq> None"
    using dseg_start [OF srt(2)] xs by (metis first_or_None length_0_conv)
  define s' where "s' = upd_table t (tail_update (\<lambda>_. last_or None ?ys)) (upd_hh (\<lambda>_. m) s)"
  have "in_buckets m (table_at s' t) (set xs)"
    using at in_buckets_frame [OF _ srt(3), of "table_at s t" "set xs" "table_at s' t"]
    by (simp add: hash_at_def s'_def)
  then have "hash_at s' t list ?ys"
    using at srt(2) set same_itemsD(1) [OF srt(4)] by (simp add: hash_at_def app_ok_def s'_def)
  then show ?thesis
    using srt(1,4) list by (auto simp: HASH_SRT_def Some t_def [symmetric] s'_def ut_ok_def)
qed

text \<open>With a comparison that orders by a key, the result is the stable sort.\<close>

theorem srt_sort_key:
  fixes f :: "ptr \<Rightarrow> 'a :: linorder"
  assumes "ut_ok s head xs" and "\<And>x y. cmpfcn x y \<le> 0 \<longleftrightarrow> f x \<le> f y"
  shows "\<exists>s' head'. HASH_SRT cmpfcn head s = Some (s', head') \<and> ut_ok s' head' (sort_key f xs)
    \<and> same_items (hh s) (hh s')"
  using srt_bottom_up [OF assms(1), of cmpfcn] by (simp only: assms(2) bottom_up_sort)

text \<open>Insertion in order keeps an ordered hash ordered.\<close>

lemma sorted_insert_inorder:
  fixes f :: "ptr \<Rightarrow> 'a :: linorder"
  assumes "sorted (map f xs)" and "\<And>x y. cmp x y \<le> 0 \<longleftrightarrow> f x \<le> f y"
  shows "sorted (map f (insert_inorder cmp x xs))" "mset (insert_inorder cmp x xs) = mset (x # xs)"
proof -
  have "sorted (map f (takeWhile (\<lambda>y. f y \<le> f x) xs @ x # dropWhile (\<lambda>y. f y \<le> f x) xs))"
    using assms(1)
  proof (induction xs)
    case (Cons y ys)
    then show ?case
      by (cases "f y \<le> f x") (auto dest: set_takeWhileD set_dropWhileD)
  qed simp
  then show "sorted (map f (insert_inorder cmp x xs))"
    by (simp add: insert_inorder_def assms(2))
  show "mset (insert_inorder cmp x xs) = mset (x # xs)"
    using mset_append [of "takeWhile (\<lambda>y. cmp y x \<le> 0) xs" "dropWhile (\<lambda>y. cmp y x \<le> 0) xs"]
    by (simp add: insert_inorder_def)
qed

end
