(* ===== verification/UtSelect.thy ===== *)
theory UtSelect
  imports UtHashRead "HOL-Library.Multiset"
begin

text \<open>
  \<open>HASH_SELECT\<close>: elements of one hash enter a second one through a second handle. The source
  hash is only read; the state is the destination's memory, its head, and the last element that
  was selected.
\<close>

section \<open>The macro\<close>

type_synonym selection = "hash_mem \<times> ptr option \<times> ptr option"

definition copy_key :: "ptr \<Rightarrow> UT_hash_handle \<Rightarrow> handles \<Rightarrow> handles" where
  "copy_key p h m = m(p := (m p)\<lparr>key := key h, keylen := keylen h, hashv := hashv h\<rparr>)"

lemma copy_key_fields [simp]:
  "tbl \<circ> copy_key p h m = tbl \<circ> m" "nxt \<circ> copy_key p h m = nxt \<circ> m" "prev \<circ> copy_key p h m = prev \<circ> m"
  "hh_next \<circ> copy_key p h m = hh_next \<circ> m" "hh_prev \<circ> copy_key p h m = hh_prev \<circ> m"
  "tbl (copy_key p h m q) = tbl (m q)" "hashv (copy_key p h m q) = (if q = p then hashv h else hashv (m q))"
  "hh_next (copy_key p h m q) = hh_next (m q)" "hh_prev (copy_key p h m q) = hh_prev (m q)"
  by (auto simp: copy_key_def fun_eq_iff)

text \<open>The element behind the last one, in a new table when it is the first.\<close>

definition select_link :: "(nat \<Rightarrow> ptr option) \<Rightarrow> UT_hash_handle \<Rightarrow> ptr \<Rightarrow> selection \<Rightarrow> hash_mem \<times> ptr \<times> bool"
  where
  "select_link uthash_malloc src_hh elt st =
     (let (s, dst, last_elt) = st;
          s = upd_hh (copy_key elt src_hh) s;
          s = upd_hh (set_prev elt last_elt) s;
          s = upd_hh (set_nxt elt None) s;
          s = upd_hh (if_set set_nxt last_elt (Some elt)) s
      in case dst of
           None \<Rightarrow> let (s, oomed) = HASH_MAKE_TABLE uthash_malloc elt s in (s, elt, oomed)
         | Some d \<Rightarrow> (upd_hh (set_tbl elt (tbl (hh s d))) s, d, False))"

definition select_elt :: "(nat \<Rightarrow> ptr option) \<Rightarrow> bool \<Rightarrow> UT_hash_handle \<Rightarrow> ptr \<Rightarrow> selection \<Rightarrow>
    (int + selection) option" where
  "select_elt uthash_malloc NONFATAL src_hh elt st =
     (let (s, dst, oomed) = select_link uthash_malloc src_hh elt st;
          last_elt = snd (snd st)
      in if oomed then Some (if NONFATAL then Inr (s, None, last_elt) else Inl (-1))
         else
           let b = HASH_TO_BKT (hashv (hh s elt)) (num_buckets (table_at s (tbl_of s elt)))
           in case HASH_ADD_TO_BKT uthash_malloc (unat b) elt s of None \<Rightarrow> None
              | Some (s, oomed) \<Rightarrow>
                let s = upd_table (tbl_of s dst) (num_items_update (\<lambda>n. n + 1)) s
                in if \<not> oomed then Some (Inr (s, Some dst, Some elt))
                   else if \<not> NONFATAL then Some (Inl (-1))
                   else
                     let (s, dst) = HASH_DELETE_HH elt (Some dst) (HASH_ROLLBACK_BKT dst elt s)
                     in Some (Inr (upd_hh (set_tbl elt None) s, dst, last_elt)))"

partial_function (option) select_chain :: "(ptr \<Rightarrow> selection \<Rightarrow> (int + selection) option) \<Rightarrow> handles \<Rightarrow>
    ptr option \<times> selection \<Rightarrow> (int + selection) option" where
  "select_chain step m vars =
     (case vars of
        (None, st) \<Rightarrow> Some (Inr st)
      | (Some src_hh, st) \<Rightarrow>
        (case step src_hh st of
           None \<Rightarrow> None
         | Some (Inl e) \<Rightarrow> Some (Inl e)
         | Some (Inr st) \<Rightarrow> select_chain step m (hh_next (m src_hh), st)))"

primrec select_buckets :: "(ptr \<Rightarrow> selection \<Rightarrow> (int + selection) option) \<Rightarrow> handles \<Rightarrow>
    UT_hash_bucket list \<Rightarrow> selection \<Rightarrow> (int + selection) option" where
  "select_buckets step m [] st = Some (Inr st)"
| "select_buckets step m (b # bs) st =
     (case select_chain step m (hh_head b, st) of
        None \<Rightarrow> None
      | Some (Inl e) \<Rightarrow> Some (Inl e)
      | Some (Inr st) \<Rightarrow> select_buckets step m bs st)"

definition HASH_SELECT :: "(nat \<Rightarrow> ptr option) \<Rightarrow> bool \<Rightarrow> (ptr \<Rightarrow> bool) \<Rightarrow> ptr option \<Rightarrow> hash_mem \<Rightarrow>
    ptr option \<Rightarrow> hash_mem \<Rightarrow> (int + hash_mem \<times> ptr option) option" where
  "HASH_SELECT uthash_malloc NONFATAL cond src s_src dst s_dst =
     (case src of None \<Rightarrow> Some (Inr (s_dst, dst))
      | Some h \<Rightarrow>
        let step = (\<lambda>elt st. if cond elt then select_elt uthash_malloc NONFATAL (hh s_src elt) elt st
                             else Some (Inr st))
        in case select_buckets step (hh s_src) (buckets (table_at s_src (tbl_of s_src h)))
                  (s_dst, dst, None) of
             None \<Rightarrow> None
           | Some (Inl e) \<Rightarrow> Some (Inl e)
           | Some (Inr (s, dst, _)) \<Rightarrow> Some (Inr (s, dst)))"

section \<open>What a selection into an empty hash leaves\<close>

text \<open>
  As \<open>hash_at\<close>, but for the tail of the table: the macro sets it with the first element and
  never moves it.
\<close>

definition selected_at :: "hash_mem \<Rightarrow> ptr \<Rightarrow> ptr option \<Rightarrow> ptr list \<Rightarrow> bool" where
  "selected_at s t head xs \<longleftrightarrow> tables s t \<noteq> None \<and> dlist (nxt \<circ> hh s) (prev \<circ> hh s) head xs
     \<and> tail (table_at s t) = head
     \<and> sizes_ok (table_at s t) \<and> in_buckets (hh s) (table_at s t) (set xs)
     \<and> unat (num_items (table_at s t)) = length xs
     \<and> (\<forall>x \<in> set xs. tbl (hh s x) = Some t)"

definition selecting :: "selection \<Rightarrow> ptr list \<Rightarrow> bool" where
  "selecting st xs \<longleftrightarrow> (case st of (s, dst, last_elt) \<Rightarrow>
     last_elt = last_or None xs \<and> (if xs = [] then dst = None else \<exists>t. selected_at s t dst xs))"

lemma select_finish:
  assumes tab: "tables s t \<noteq> None" and dl: "dlist (nxt \<circ> hh s) (prev \<circ> hh s) (Some h) (xs @ [x])"
    and tl: "tail (table_at s t) = Some h" and sz: "sizes_ok (table_at s t)"
    and bk: "in_buckets (hh s) (table_at s t) (set xs)"
    and num: "unat (num_items (table_at s t)) = length xs" "length xs + 1 < 2 ^ 32"
    and own: "\<forall>y \<in> set (xs @ [x]). tbl (hh s y) = Some t" and mem: "bounded_memory uthash_malloc"
  defines "b \<equiv> HASH_TO_BKT (hashv (hh s x)) (num_buckets (table_at s (tbl_of s x)))"
  shows "\<exists>s' oomed. HASH_ADD_TO_BKT uthash_malloc (unat b) x s = Some (s', oomed)
    \<and> (\<not> oomed \<longrightarrow> selected_at (upd_table (tbl_of s' h) (num_items_update (\<lambda>n. n + 1)) s') t (Some h) (xs @ [x]))"
proof -
  have dis: "distinct (xs @ [x])"
    by (rule dseg_distinct [OF dl])
  have h: "h \<in> set (xs @ [x])"
    using dseg_start [OF dl] by (metis first_or_in)
  have t: "tbl_of s x = t"
    using own by (simp add: tbl_of_def)
  have x: "x \<notin> set xs" "card (set xs) + 1 < 2 ^ 32" "insert x (set xs) = set (xs @ [x])"
    using dis num(2) by (auto simp: distinct_card)
  from add_to_bkt_ok [OF bk x(1) sz finite_set x(2) t mem] obtain s' oomed where
    add: "HASH_ADD_TO_BKT uthash_malloc (bkt (num_buckets (table_at s t)) (hashv (hh s x))) x s
      = Some (s', oomed)" "same_app (hh s) (hh s')"
    and T: "tables s' t \<noteq> None" "sizes_ok (table_at s' t)" "tail (table_at s' t) = tail (table_at s t)"
      "num_items (table_at s' t) = num_items (table_at s t)"
    and bk': "\<not> oomed \<Longrightarrow> in_buckets (hh s') (table_at s' t) (set (xs @ [x]))"
    unfolding x(3) by (auto split: if_splits)
  have same: "tbl (hh s' y) = tbl (hh s y)" for y
    using add(2) same_itemsD(1) [of "hh s" "hh s'" y] by (simp add: same_app_def)
  have th: "tbl_of s' h = t"
    using own h by (auto simp: tbl_of_def same)
  have "unat (num_items (table_at s t) + 1) = length (xs @ [x])"
    using num by (simp add: unat_word_ariths)
  then have "selected_at (upd_table (tbl_of s' h) (num_items_update (\<lambda>n. n + 1)) s') t (Some h) (xs @ [x])"
    if "\<not> oomed"
    using that T bk' dl tl own add(2) same by (simp add: selected_at_def th same_app_def)
  then show ?thesis
    using add(1) by (auto simp: b_def bkt_def t)
qed

lemma make_table_ok:
  assumes "HASH_MAKE_TABLE uthash_malloc x s = (s', False)"
  shows "\<exists>t. hh s' = set_tbl x (Some t) (hh s) \<and> tables s' t \<noteq> None \<and> sizes_ok (table_at s' t)
    \<and> in_buckets (hh s') (table_at s' t) {} \<and> num_items (table_at s' t) = 0 \<and> tail (table_at s' t) = Some x
    \<and> num_buckets (table_at s' t) = 32"
proof -
  obtain t where t: "hh s' = set_tbl x (Some t) (hh s)" "tables s' t \<noteq> None"
    and T: "table_at s' t = zero_table\<lparr>tail := Some x, num_buckets := 32, log2_num_buckets := 5,
        signature := HASH_SIGNATURE, buckets := replicate 32 zero_bucket\<rparr>"
    using assms by (auto simp: HASH_MAKE_TABLE_def HASH_INITIAL_NUM_BUCKETS_def table_at_def
        HASH_INITIAL_NUM_BUCKETS_LOG2_def Let_def split: option.splits)
  have "in_buckets (hh s') (table_at s' t) {}"
    using buckets_ok_empty [of "hh s'" 32] by (auto simp: in_buckets_def T zero_table_def)
  then show ?thesis
    using t by (auto simp: T zero_table_def sizes_ok_def)
qed

lemma select_link_ok:
  assumes sel: "selecting (s, dst, last_elt) xs" and x: "x \<notin> set xs"
    and res: "select_link uthash_malloc h x (s, dst, last_elt) = (s', d, False)"
  shows "\<exists>t. tables s' t \<noteq> None \<and> dlist (nxt \<circ> hh s') (prev \<circ> hh s') (Some d) (xs @ [x])
    \<and> tail (table_at s' t) = Some d \<and> sizes_ok (table_at s' t) \<and> in_buckets (hh s') (table_at s' t) (set xs)
    \<and> unat (num_items (table_at s' t)) = length xs \<and> (\<forall>y \<in> set (xs @ [x]). tbl (hh s' y) = Some t)"
proof -
  have last: "last_elt = last_or None xs"
    using sel by (simp add: selecting_def)
  define s1 where "s1 = upd_hh (if_set set_nxt last_elt (Some x)) (upd_hh (set_nxt x None)
    (upd_hh (set_prev x last_elt) (upd_hh (copy_key x h) s)))"
  have links: "nxt \<circ> hh s1 = upd_opt ((nxt \<circ> hh s)(x := None)) (last_or None xs) (Some x)"
    "prev \<circ> hh s1 = (prev \<circ> hh s)(x := last_or None xs)" "tbl \<circ> hh s1 = tbl \<circ> hh s"
    by (simp_all add: s1_def last)
  have tab1: "tables s1 = tables s" "table_at s1 t = table_at s t" for t
    by (simp_all add: s1_def)
  have link: "select_link uthash_malloc h x (s, dst, last_elt) = (case dst of
     None \<Rightarrow> let (s, oomed) = HASH_MAKE_TABLE uthash_malloc x s1 in (s, x, oomed)
   | Some d \<Rightarrow> (upd_hh (set_tbl x (tbl (hh s1 d))) s1, d, False))"
    unfolding select_link_def Let_def prod.case s1_def ..
  show ?thesis
  proof (cases "xs = []")
    case True
    then have "dst = None"
      using sel by (simp add: selecting_def)
    then have make: "HASH_MAKE_TABLE uthash_malloc x s1 = (s', False)" and d: "d = x"
      using res link by (auto split: prod.splits)
    from make_table_ok [OF make] obtain t where t: "hh s' = set_tbl x (Some t) (hh s1)" "tables s' t \<noteq> None"
      "sizes_ok (table_at s' t)" "in_buckets (hh s') (table_at s' t) {}" "num_items (table_at s' t) = 0"
      "tail (table_at s' t) = Some x"
      by blast
    have "dlist (nxt \<circ> hh s') (prev \<circ> hh s') (Some d) (xs @ [x])"
      using links True by (simp add: t(1) d)
    then show ?thesis
      using t d True by (intro exI [of _ t]) simp
  next
    case False
    then obtain t where at: "selected_at s t dst xs"
      using sel by (auto simp: selecting_def)
    then have dl: "dlist (nxt \<circ> hh s) (prev \<circ> hh s) dst (xs @ [])"
      by (simp add: selected_at_def)
    have "dst = first_or None xs"
      using dseg_start [OF dl] by simp
    then have d: "dst = Some d" "d \<in> set xs" and s': "s' = upd_hh (set_tbl x (tbl (hh s1 d))) s1"
      using False res link by (auto simp: first_or_None split: option.splits intro: first_or_in)
    have "tbl (hh s1 d) = Some t"
      using at d(2) fun_cong [OF links(3), of d] by (simp add: selected_at_def)
    then have s'_hh: "hh s' = set_tbl x (Some t) (hh s1)"
      by (simp add: s')
    have "dlist ((nxt \<circ> hh s)(x := None)) ((prev \<circ> hh s)(x := last_or None xs)) dst (xs @ [])"
      using dl x by (simp del: fun_upd_apply)
    from dlist_insert [OF this, of x]
    have list: "dlist (nxt \<circ> hh s') (prev \<circ> hh s') (Some d) (xs @ [x])"
      using x False d by (simp add: s'_hh links)
    obtain cs where cs: "buckets_ok (hh s) (num_buckets (table_at s t)) (buckets (table_at s t)) (set xs) cs"
      using at by (auto simp: selected_at_def in_buckets_def)
    have "in_buckets (hh s') (table_at s t) (set xs)"
      unfolding in_buckets_def
      by (rule exI, rule buckets_ok_on [OF cs])
        (use x in \<open>auto simp: s'_hh s1_def if_set_def split: option.split\<close>)
    moreover have "tbl (hh s' y) = Some t" if "y \<in> set (xs @ [x])" for y
      using that at fun_cong [OF links(3), of y] by (auto simp: s'_hh selected_at_def)
    ultimately show ?thesis
      using at list d(1) by (intro exI [of _ t]) (simp add: selected_at_def s' tab1)
  qed
qed

lemma select_elt_ok:
  assumes sel: "selecting st xs" and x: "x \<notin> set xs" and len: "length xs + 1 < 2 ^ 32"
    and mem: "bounded_memory uthash_malloc"
  shows "\<exists>r. select_elt uthash_malloc False h x st = Some r
    \<and> (case r of Inl e \<Rightarrow> e = -1 | Inr st' \<Rightarrow> selecting st' (xs @ [x]))"
proof -
  obtain s' d oomed where link: "select_link uthash_malloc h x st = (s', d, oomed)"
    by (metis prod_cases3)
  show ?thesis
  proof (cases oomed)
    case True
    then show ?thesis
      using link by (simp add: select_elt_def)
  next
    case False
    obtain s dst last_elt where st: "st = (s, dst, last_elt)"
      by (metis prod_cases3)
    have "select_link uthash_malloc h x (s, dst, last_elt) = (s', d, False)"
      using link False st by simp
    from select_link_ok [OF sel [unfolded st] x this]
    obtain t where t: "tables s' t \<noteq> None" "dlist (nxt \<circ> hh s') (prev \<circ> hh s') (Some d) (xs @ [x])"
      "tail (table_at s' t) = Some d" "sizes_ok (table_at s' t)" "in_buckets (hh s') (table_at s' t) (set xs)"
      "unat (num_items (table_at s' t)) = length xs" "\<forall>y \<in> set (xs @ [x]). tbl (hh s' y) = Some t"
      by blast
    from select_finish [OF t(1-6) len t(7) mem] obtain s2 oomed2 where
      "HASH_ADD_TO_BKT uthash_malloc (unat (HASH_TO_BKT (hashv (hh s' x))
        (num_buckets (table_at s' (tbl_of s' x))))) x s' = Some (s2, oomed2)"
      "\<not> oomed2 \<longrightarrow> selected_at (upd_table (tbl_of s2 d) (num_items_update (\<lambda>n. n + 1)) s2) t (Some d) (xs @ [x])"
      by blast
    then show ?thesis
      using False link by (cases oomed2) (auto simp: select_elt_def selecting_def Let_def)
  qed
qed

lemma select_chain_ok:
  assumes "dseg (hh_next \<circ> m) pv a p c None" and "selecting st xs" and "distinct (xs @ c)"
    and "length (xs @ c) < 2 ^ 32" and mem: "bounded_memory uthash_malloc"
  shows "\<exists>r. select_chain (\<lambda>elt st. if cond elt then select_elt uthash_malloc False (m elt) elt st
      else Some (Inr st)) m (p, st) = Some r
    \<and> (case r of Inl e \<Rightarrow> e = -1 | Inr st' \<Rightarrow> selecting st' (xs @ filter cond c))"
    (is "\<exists>r. select_chain ?step m _ = _ \<and> _")
  using assms(1-4)
proof (induction c arbitrary: a p st xs)
  case Nil
  then show ?case by (simp add: select_chain.simps)
next
  case (Cons x c)
  have p: "p = Some x" and rest: "dseg (hh_next \<circ> m) pv (Some x) (hh_next (m x)) c None"
    using Cons.prems(1) by (simp_all add: comp_def)
  show ?case
  proof (cases "cond x")
    case False
    then have f: "filter cond (x # c) = filter cond c"
      by simp
    show ?thesis
      unfolding f using Cons.IH [OF rest Cons.prems(2)] Cons.prems(3,4) p False
      by (subst select_chain.simps) simp
  next
    case True
    have "x \<notin> set xs" "length xs + 1 < 2 ^ 32"
      using Cons.prems(3,4) by auto
    from select_elt_ok [OF Cons.prems(2) this mem, of "m x"] obtain r where
      r: "select_elt uthash_malloc False (m x) x st = Some r"
      "case r of Inl e \<Rightarrow> e = -1 | Inr st' \<Rightarrow> selecting st' (xs @ [x])"
      by blast
    have f: "xs @ filter cond (x # c) = (xs @ [x]) @ filter cond c"
      using True by simp
    show ?thesis
    proof (cases r)
      case (Inl e)
      then show ?thesis
        using r True p by (subst select_chain.simps) simp
    next
      case (Inr st')
      then have "selecting st' (xs @ [x])" "distinct ((xs @ [x]) @ c)" "length ((xs @ [x]) @ c) < 2 ^ 32"
        using r(2) Cons.prems(3,4) by auto
      from Cons.IH [OF rest this] obtain r' where
        "select_chain ?step m (hh_next (m x), st') = Some r'"
        "case r' of Inl e \<Rightarrow> e = -1 | Inr st' \<Rightarrow> selecting st' ((xs @ [x]) @ filter cond c)"
        by blast
      moreover have "select_chain ?step m (Some x, st) = select_chain ?step m (hh_next (m x), st')"
        using r(1) Inr True by (subst select_chain.simps) simp
      ultimately show ?thesis
        unfolding f using p by auto
    qed
  qed
qed

lemma select_buckets_ok:
  assumes "list_all2 (\<lambda>b c. dlist (hh_next \<circ> m) (hh_prev \<circ> m) (hh_head b) c) bs cs" and "selecting st xs"
    and "distinct (xs @ concat cs)" and "length (xs @ concat cs) < 2 ^ 32" and mem: "bounded_memory uthash_malloc"
  shows "\<exists>r. select_buckets (\<lambda>elt st. if cond elt then select_elt uthash_malloc False (m elt) elt st
      else Some (Inr st)) m bs st = Some r
    \<and> (case r of Inl e \<Rightarrow> e = -1 | Inr st' \<Rightarrow> selecting st' (xs @ filter cond (concat cs)))"
    (is "\<exists>r. select_buckets ?step m _ _ = _ \<and> _")
  using assms(1-4)
proof (induction bs cs arbitrary: st xs rule: list_all2_induct)
  case (Cons b bs c cs)
  have "distinct (xs @ c)" "length (xs @ c) < 2 ^ 32"
    using Cons.prems by auto
  from select_chain_ok [OF Cons.hyps(1) Cons.prems(1) this mem, of cond] obtain r where
    r: "select_chain ?step m (hh_head b, st) = Some r"
    "case r of Inl e \<Rightarrow> e = -1 | Inr st' \<Rightarrow> selecting st' (xs @ filter cond c)"
    by blast
  show ?case
  proof (cases r)
    case (Inr st')
    then have "selecting st' (xs @ filter cond c)" "distinct ((xs @ filter cond c) @ concat cs)"
      using r(2) Cons.prems(2) by auto
    moreover have "length ((xs @ filter cond c) @ concat cs) < 2 ^ 32"
      by (rule le_less_trans [OF _ Cons.prems(3)]) simp
    ultimately obtain r' where "select_buckets ?step m bs st' = Some r'"
      "case r' of Inl e \<Rightarrow> e = -1 | Inr st' \<Rightarrow> selecting st' ((xs @ filter cond c) @ filter cond (concat cs))"
      using Cons.IH by blast
    moreover have "xs @ filter cond (concat (c # cs)) = (xs @ filter cond c) @ filter cond (concat cs)"
      by simp
    ultimately show ?thesis
      using r(1) Inr by (intro exI [of _ r']) (simp only:, simp)
  qed (use r in simp)
qed simp

theorem select_into_empty:
  assumes ok: "ut_ok s_src src xs" and mem: "bounded_memory uthash_malloc"
  shows "\<exists>r. HASH_SELECT uthash_malloc False cond src s_src None s_dst = Some r
    \<and> (case r of Inl e \<Rightarrow> e = -1
       | Inr (s, dst) \<Rightarrow> \<exists>ys. mset ys = mset (filter cond xs)
           \<and> (if ys = [] then dst = None else \<exists>t. selected_at s t dst ys))"
proof (cases src)
  case None
  then show ?thesis
    using ok by (auto simp: HASH_SELECT_def ut_ok_def)
next
  case (Some h)
  define T where "T = table_at s_src (tbl_of s_src h)"
  have at: "hash_at s_src (tbl_of s_src h) (Some h) xs"
    using ut_ok_head(1) ok Some by simp
  then obtain cs where cs: "buckets_ok (hh s_src) (num_buckets T) (buckets T) (set xs) cs"
    by (auto simp: hash_at_def in_buckets_def T_def)
  note cc = buckets_ok_chains [OF cs, unfolded T_def, OF hash_atD(5) [OF at], folded T_def]
  have len: "length (concat cs) = length xs"
    using cc(2,3) hash_atD(3) [OF at] by (metis distinct_card)
  have "length xs < 2 ^ 32"
  proof -
    have "unat (num_items T) < 2 ^ 32"
      by (rule order_less_le_trans [OF unsigned_less]) simp
    then show ?thesis
      using at by (simp add: hash_at_def T_def)
  qed
  then have "selecting (s_dst, None, None) []" "distinct ([] @ concat cs)" "length ([] @ concat cs) < 2 ^ 32"
    using cc(3) len by (simp_all add: selecting_def)
  from select_buckets_ok [OF cc(1) this mem, of cond] obtain r where
    r: "select_buckets (\<lambda>elt st. if cond elt then select_elt uthash_malloc False (hh s_src elt) elt st
      else Some (Inr st)) (hh s_src) (buckets T) (s_dst, None, None) = Some r"
    "case r of Inl e \<Rightarrow> e = -1 | Inr st' \<Rightarrow> selecting st' (filter cond (concat cs))"
    unfolding append_Nil by blast
  have "mset (concat cs) = mset xs"
    by (rule set_eq_iff_mset_eq_distinct [OF cc(3) hash_atD(3) [OF at], THEN iffD1, OF cc(2)])
  then have mset: "mset (filter cond (concat cs)) = mset (filter cond xs)"
    by (simp only: mset_filter)
  have sel: "HASH_SELECT uthash_malloc False cond src s_src None s_dst =
      Some (map_sum id (\<lambda>(s, dst, _). (s, dst)) r)"
    using r(1) by (simp add: HASH_SELECT_def Some T_def [symmetric] split: sum.split)
  show ?thesis
  proof (cases r)
    case (Inr st)
    obtain s dst last_elt where st: "st = (s, dst, last_elt)"
      by (metis prod_cases3)
    have "if filter cond (concat cs) = [] then dst = None else \<exists>t. selected_at s t dst (filter cond (concat cs))"
      using r(2) by (simp add: Inr st selecting_def)
    then have "\<exists>ys. mset ys = mset (filter cond xs) \<and> (if ys = [] then dst = None else \<exists>t. selected_at s t dst ys)"
      using mset by blast
    then show ?thesis
      by (intro exI [of _ "Inr (s, dst)"]) (simp add: sel Inr st del: mset_filter)
  qed (use r(2) sel in simp)
qed

text \<open>Two or more elements: the tail is the first one, so the result is not a proper hash.\<close>

lemma selected_not_ok:
  assumes sel: "selected_at s t head ys" and two: "length ys \<ge> 2"
  shows "\<not> ut_ok s head zs"
proof
  assume ok: "ut_ok s head zs"
  have dl: "dlist (nxt \<circ> hh s) (prev \<circ> hh s) head ys"
    using sel by (simp add: selected_at_def)
  have zs: "zs = ys"
    by (rule dseg_unique [OF ut_ok_list [OF ok] dl])
  obtain h where h: "head = Some h" "h \<in> set ys"
    using dseg_start [OF dl] two by (cases ys) auto
  then have "tbl_of s h = t"
    using sel by (simp add: selected_at_def tbl_of_def)
  then have "head = last_or None ys"
    using hash_atD(2) [OF ut_ok_head(1), of s h zs] ok sel h zs by (simp add: selected_at_def)
  then have "first_or None ys = last_or None ys"
    using dseg_start [OF dl] by simp
  then show False
    using two dseg_distinct [OF dl] by (cases ys) (auto simp: last_or_def split: if_splits)
qed

text \<open>
  An addition to such a hash links the new element behind the first one: the others are still
  counted and found, but no iteration meets them.
\<close>

theorem select_then_add:
  assumes sel: "selected_at s t (Some h) ys" and two: "2 \<le> length ys" and new: "x \<notin> set ys"
    and len: "length ys + 1 < 2 ^ 32" and mem: "bounded_memory uthash_malloc"
    and room: "uthash_malloc (sizeof_bucket * unat (num_buckets (table_at s t)) * 2) \<noteq> None"
  shows "\<exists>s'. HASH_ADD_KEYPTR_BYHASHVALUE uthash_malloc False k hv x (Some h) s = Some (Inr (s', Some h))
    \<and> HASH_ITER (\<lambda>p (m, seen). (m, seen @ [p])) fst (Some h, iter_start (Some h) s', hh s', []) = Some (hh s', [h, x])
    \<and> unat (HASH_COUNT (Some h) s') = length ys + 1"
proof -
  have dl: "dlist (nxt \<circ> hh s) (prev \<circ> hh s) (Some h) ys" and tl: "tail (table_at s t) = Some h"
    using sel by (simp_all add: selected_at_def)
  have h: "h \<in> set ys" "h \<noteq> x"
    using dseg_start [OF dl] new by (metis first_or_in)+
  define s1 where "s1 = upd_hh (set_key x k hv) s"
  define s2 where "s2 = HASH_APPEND_LIST h x (upd_hh (set_tbl x (tbl (hh s1 h))) s1)"
  define s3 where "s3 = upd_table t (num_items_update (\<lambda>n. n + 1)) s2"
  have th: "tbl (hh s h) = Some t"
    using sel h by (simp add: selected_at_def)
  have s2: "nxt \<circ> hh s2 = (nxt \<circ> hh s)(x := None, h := Some x)" "table_at s2 t = tail_update (\<lambda>_. Some x) (table_at s t)"
    "prev \<circ> hh s2 = (prev \<circ> hh s)(x := Some h)"
    "tbl \<circ> hh s2 = (tbl \<circ> hh s)(x := Some t)" "hashv (hh s2 x) = hv"
    "hh_next \<circ> hh s2 = hh_next \<circ> hh s" "hh_prev \<circ> hh s2 = hh_prev \<circ> hh s"
    using h th tl by (simp_all add: s2_def s1_def HASH_APPEND_LIST_def Let_def tbl_of_def)
  have hv: "hashv (hh s2 y) = hashv (hh s y)" if "y \<noteq> x" for y
    using that h by (simp add: s2_def s1_def HASH_APPEND_LIST_def Let_def)
  obtain cs where cs: "buckets_ok (hh s) (num_buckets (table_at s t)) (buckets (table_at s t)) (set ys) cs"
    using sel by (auto simp: selected_at_def in_buckets_def)
  have "buckets_ok (hh s2) (num_buckets (table_at s t)) (buckets (table_at s t)) (set ys) cs"
    using new s2(6,7) by (intro buckets_ok_on [OF cs]) (auto simp: fun_eq_iff intro!: hv)
  then have bk: "in_buckets (hh s3) (table_at s3 t) (set ys)"
    by (auto simp: in_buckets_def s3_def s2)
  have "tbl_of s2 h = t" "tbl_of s3 x = t"
    using fun_cong [OF s2(4), of h] fun_cong [OF s2(4), of x] h th by (simp_all add: tbl_of_def s3_def)
  note t = this
  have sz: "sizes_ok (table_at s3 t)"
    using sel by (simp add: s3_def s2 selected_at_def)
  have "distinct ys"
    by (rule dseg_distinct [OF dl])
  then have card: "card (set ys) + 1 < 2 ^ 32"
    using len by (simp add: distinct_card)
  from add_to_bkt_ok [OF bk new sz finite_set card t(2) mem] obtain s4 oomed where
    add: "HASH_ADD_TO_BKT uthash_malloc (bkt (num_buckets (table_at s3 t)) (hashv (hh s3 x))) x s3 = Some (s4, oomed)"
    "same_app (hh s3) (hh s4)" "num_items (table_at s4 t) = num_items (table_at s3 t)"
    and no: "oomed \<Longrightarrow> no_room uthash_malloc (table_at s3 t)"
    by (auto split: if_splits)
  have "\<not> oomed"
    using no room by (auto simp: s3_def s2)
  then have res: "HASH_ADD_KEYPTR_BYHASHVALUE uthash_malloc False k hv x (Some h) s = Some (Inr (s4, Some h))"
    using add(1) t s2(5)
    by (simp add: HASH_ADD_KEYPTR_BYHASHVALUE_def HASH_ADD_TO_TABLE_def s1_def [symmetric] s2_def [symmetric]
        s3_def [symmetric] Let_def bkt_def) (simp add: s3_def)
  have links: "nxt (hh s4 h) = Some x" "nxt (hh s4 x) = None" "prev (hh s4 h) = prev (hh s h)" "prev (hh s4 x) = Some h"
    using add(2) fun_cong [OF s2(1), of h] fun_cong [OF s2(1), of x] fun_cong [OF s2(3), of h] fun_cong [OF s2(3), of x] h
    by (auto simp: same_app_def s3_def fun_eq_iff)
  have iter: "HASH_ITER (\<lambda>p (m, seen). (m, seen @ [p])) fst (Some h, iter_start (Some h) s4, hh s4, [])
      = Some (hh s4, [h, x])"
    by (simp add: HASH_ITER.simps iter_start_def links)
  have "tbl_of s4 h = t"
    using t(1) add(2) same_itemsD(1) [of "hh s3" "hh s4" h] by (simp add: tbl_of_def same_app_def s3_def)
  moreover have "unat (num_items (table_at s t) + 1) = length ys + 1"
    using sel len by (simp add: selected_at_def unat_word_ariths)
  ultimately have "unat (HASH_COUNT (Some h) s4) = length ys + 1"
    using add(3) by (simp add: HASH_COUNT_def s3_def s2)
  then show ?thesis
    using res iter by blast
qed

end
