(* ===== verification/UtBloom.thy ===== *)
theory UtBloom
  imports UtHashMap
begin

text \<open>
  The optional Bloom filter of a hash (compiled in when \<open>HASH_BLOOM\<close> is defined): a bit vector
  that every addition marks and that a lookup asks before it goes to the bucket.
\<close>

section \<open>The macros\<close>

text \<open>\<open>nbits\<close> is the compile-time constant \<open>HASH_BLOOM\<close>, also kept in \<open>bloom_nbits\<close>.\<close>

definition HASH_BLOOM_BITLEN :: "nat \<Rightarrow> size_t" where
  "HASH_BLOOM_BITLEN nbits = push_bit nbits 1"

definition HASH_BLOOM_BYTELEN :: "nat \<Rightarrow> size_t" where
  "HASH_BLOOM_BYTELEN nbits =
     HASH_BLOOM_BITLEN nbits div 8 + (if HASH_BLOOM_BITLEN nbits mod 8 \<noteq> 0 then 1 else 0)"

definition HASH_BLOOM_MAKE :: "(nat \<Rightarrow> ptr option) \<Rightarrow> nat \<Rightarrow> byte list option" where
  "HASH_BLOOM_MAKE uthash_malloc nbits =
     (case uthash_malloc (unat (HASH_BLOOM_BYTELEN nbits)) of None \<Rightarrow> None
      | Some _ \<Rightarrow> Some (replicate (unat (HASH_BLOOM_BYTELEN nbits)) 0))"

definition HASH_BLOOM_BITSET :: "byte list \<Rightarrow> unsigned \<Rightarrow> byte list" where
  "HASH_BLOOM_BITSET bv idx =
     (let i = unat (idx div 8)
      in bv[i := ucast ((ucast (bv ! i) :: unsigned) OR push_bit (unat (idx mod 8)) 1)])"

definition HASH_BLOOM_BITTEST :: "byte list \<Rightarrow> unsigned \<Rightarrow> unsigned" where
  "HASH_BLOOM_BITTEST bv idx = ucast (bv ! unat (idx div 8)) AND push_bit (unat (idx mod 8)) 1"

definition bloom_index :: "nat \<Rightarrow> unsigned \<Rightarrow> unsigned" where
  "bloom_index nbits hv = hv AND ucast ((push_bit nbits 1 :: 64 word) - 1)"

definition HASH_BLOOM_ADD :: "nat \<Rightarrow> unsigned \<Rightarrow> byte list \<Rightarrow> byte list" where
  "HASH_BLOOM_ADD nbits hv bv = HASH_BLOOM_BITSET bv (bloom_index nbits hv)"

definition HASH_BLOOM_TEST :: "nat \<Rightarrow> unsigned \<Rightarrow> byte list \<Rightarrow> unsigned" where
  "HASH_BLOOM_TEST nbits hv bv = HASH_BLOOM_BITTEST bv (bloom_index nbits hv)"

text \<open>The lookup as it is compiled with the filter.\<close>

definition HASH_FIND_bloom :: "nat \<Rightarrow> byte list \<Rightarrow> (byte list \<Rightarrow> unsigned) \<Rightarrow> byte list \<Rightarrow> ptr option \<Rightarrow>
    hash_mem \<Rightarrow> ptr option option" where
  "HASH_FIND_bloom nbits bv H k head s =
     (if head \<noteq> None \<and> HASH_BLOOM_TEST nbits (H k) bv = 0 then Some None else HASH_FIND H k head s)"

section \<open>Bounds and marks\<close>

text \<open>The filter has \<open>2 ^ nbits\<close> bits, at most \<open>2\<^sup>3\<^sup>2\<close>, and every index is one of them.\<close>

lemma bloom_bitlen: "nbits \<le> 32 \<Longrightarrow> unat (HASH_BLOOM_BITLEN nbits) = 2 ^ nbits"
proof -
  assume "nbits \<le> 32"
  then have "(2 :: nat) ^ nbits < 2 ^ 64"
    by (intro power_strict_increasing) simp_all
  then have "unat (of_nat (2 ^ nbits) :: size_t) = 2 ^ nbits"
    by (simp only: unat_of_nat) simp
  then show ?thesis
    by (simp add: HASH_BLOOM_BITLEN_def push_bit_eq_mult)
qed

lemma bloom_index_less:
  assumes "nbits \<le> 32"
  shows "unat (bloom_index nbits hv) < 2 ^ nbits"
proof -
  have "ucast ((push_bit nbits 1 :: 64 word) - 1) = (mask nbits :: unsigned)"
    using assms by (intro bit_word_eqI)
      (simp add: bit_simps push_bit_eq_mult mask_eq_exp_minus_1 [symmetric] del: push_bit_of_1)
  then have "bloom_index nbits hv = take_bit nbits hv"
    by (simp add: bloom_index_def take_bit_eq_mask)
  moreover have "unat (take_bit nbits hv) < 2 ^ nbits"
    by (simp add: unsigned_take_bit_eq take_bit_nat_less_exp)
  ultimately show ?thesis
    by simp
qed

theorem bloom_index_in_vector:
  assumes "nbits \<le> 32" and "length bv = unat (HASH_BLOOM_BYTELEN nbits)"
  shows "unat (bloom_index nbits hv div 8) < length bv"
proof -
  let ?B = "HASH_BLOOM_BITLEN nbits" and ?i = "unat (bloom_index nbits hv)"
  have i: "?i < unat ?B"
    using bloom_index_less [OF assms(1)] bloom_bitlen [OF assms(1)] by simp
  have small: "unat ?B div 8 + 1 < 2 ^ 64"
  proof -
    have "(2 :: nat) ^ nbits \<le> 2 ^ 32"
      using assms(1) by (intro power_increasing) simp_all
    then show ?thesis
      by (simp add: bloom_bitlen [OF assms(1)])
  qed
  have "unat (HASH_BLOOM_BYTELEN nbits) = unat ?B div 8 + (if unat ?B mod 8 \<noteq> 0 then 1 else 0)"
    using small by (auto simp: HASH_BLOOM_BYTELEN_def unat_word_ariths unat_div unat_mod word_unat_eq_iff)
  then show ?thesis
    using i assms(2) by (auto simp: unat_div split: if_splits) 
qed


lemma bittest_bit: "HASH_BLOOM_BITTEST bv idx \<noteq> 0 \<longleftrightarrow> bit (bv ! unat (idx div 8)) (unat (idx mod 8))"
proof -
  have "unat (idx mod 8) < 8"
    by (simp add: unat_mod)
  then show ?thesis
    unfolding HASH_BLOOM_BITTEST_def bit_iff_and_push_bit_not_eq_0 [symmetric] by (simp add: bit_simps)
qed

lemma bitset_bit:
  assumes "unat (idx div 8) < length bv" and "j < 8" and "i < length bv"
  shows "bit (HASH_BLOOM_BITSET bv idx ! i) j \<longleftrightarrow>
    bit (bv ! i) j \<or> i = unat (idx div 8) \<and> j = unat (idx mod 8)"
  using assms by (auto simp: HASH_BLOOM_BITSET_def Let_def nth_list_update bit_simps)

lemma bitset_length [simp]: "length (HASH_BLOOM_BITSET bv idx) = length bv"
  by (simp add: HASH_BLOOM_BITSET_def Let_def)

lemma bloom_add_length [simp]: "length (HASH_BLOOM_ADD nbits hv bv) = length bv"
  by (simp add: HASH_BLOOM_ADD_def)

lemma bloom_test_add:
  assumes "nbits \<le> 32" and "length bv = unat (HASH_BLOOM_BYTELEN nbits)"
  shows "HASH_BLOOM_TEST nbits hv (HASH_BLOOM_ADD nbits hv' bv) \<noteq> 0 \<longleftrightarrow>
    HASH_BLOOM_TEST nbits hv bv \<noteq> 0 \<or> bloom_index nbits hv = bloom_index nbits hv'"
proof -
  let ?i = "bloom_index nbits hv" and ?j = "bloom_index nbits hv'"
  have "?i = ?j" if "unat (?i div 8) = unat (?j div 8)" "unat (?i mod 8) = unat (?j mod 8)"
  proof -
    have "?i div 8 * 8 + ?i mod 8 = ?j div 8 * 8 + ?j mod 8"
      using that by (simp add: word_unat_eq_iff [symmetric])
    then show ?thesis
      by (simp only: div_mult_mod_eq)
  qed
  moreover have "unat (?i mod 8) < 8"
    by (simp add: unat_mod)
  ultimately show ?thesis
    using bitset_bit [of ?j bv "unat (?i mod 8)" "unat (?i div 8)"] bloom_index_in_vector [OF assms]
    by (auto simp: HASH_BLOOM_TEST_def HASH_BLOOM_ADD_def bittest_bit)
qed

theorem bloom_no_false_negative:
  assumes "nbits \<le> 32" and "length bv = unat (HASH_BLOOM_BYTELEN nbits)" and "hv \<in> set hvs"
  shows "HASH_BLOOM_TEST nbits hv (fold (HASH_BLOOM_ADD nbits) hvs bv) \<noteq> 0"
proof -
  have keep: "length bv = unat (HASH_BLOOM_BYTELEN nbits) \<Longrightarrow> HASH_BLOOM_TEST nbits hv bv \<noteq> 0 \<Longrightarrow>
      HASH_BLOOM_TEST nbits hv (fold (HASH_BLOOM_ADD nbits) ws bv) \<noteq> 0" for ws bv
    by (induction ws arbitrary: bv) (simp_all add: bloom_test_add [OF assms(1)])
  show ?thesis
    using assms(2,3)
  proof (induction hvs arbitrary: bv)
    case (Cons w ws)
    then show ?case
      using keep [of "HASH_BLOOM_ADD nbits w bv" ws] bloom_test_add [OF assms(1), of bv hv w]
      by (cases "hv = w") auto
  qed simp
qed

text \<open>With every element marked, the filter changes no answer; elements deleted stay marked.\<close>

theorem bloom_find_same:
  assumes hash: "ut_hash H s head xs" and k: "length k < 2 ^ 32"
    and marked: "\<And>x. x \<in> set xs \<Longrightarrow> HASH_BLOOM_TEST nbits (hashv (hh s x)) bv \<noteq> 0"
  shows "HASH_FIND_bloom nbits bv H k head s = HASH_FIND H k head s"
proof (cases "HASH_BLOOM_TEST nbits (H k) bv = 0")
  case True
  have "key (hh s x) \<noteq> k" if "x \<in> set xs" for x
    using marked [OF that] True hash that by (auto simp: ut_hash_def hashed_def)
  then have "ut_map s xs k = None"
    by (simp add: ut_map_None)
  then show ?thesis
    using find_map [OF hash k] by (simp add: HASH_FIND_bloom_def)
qed (simp add: HASH_FIND_bloom_def)

end
