(* ===== verification/UtHashFun.thy ===== *)
theory UtHashFun
  imports Prelude
begin

text \<open>
  The hash functions of \<open>uthash.h\<close>: macros over the bytes of a key with a 32-bit result, and the
  choice \<open>custom-uthash.h\<close> makes instead (the low half of \<open>XXH3_64bits\<close>, a parameter).
\<close>

section \<open>Byte at a time\<close>

abbreviation of_byte :: "byte \<Rightarrow> unsigned" where
  "of_byte b \<equiv> ucast b"

abbreviation shl :: "unsigned \<Rightarrow> nat \<Rightarrow> unsigned" where
  "shl w n \<equiv> push_bit n w"

abbreviation shr :: "unsigned \<Rightarrow> nat \<Rightarrow> unsigned" where
  "shr w n \<equiv> drop_bit n w"

definition HASH_BER :: "byte list \<Rightarrow> unsigned" where
  "HASH_BER key = fold (\<lambda>b hv. (shl hv 5 + hv) + of_byte b) key 0"

definition HASH_SAX :: "byte list \<Rightarrow> unsigned" where
  "HASH_SAX key = fold (\<lambda>b hv. hv XOR (shl hv 5 + shr hv 2 + of_byte b)) key 0"

definition HASH_FNV :: "byte list \<Rightarrow> unsigned" where
  "HASH_FNV key = fold (\<lambda>b hv. (hv XOR of_byte b) * 16777619) key 2166136261"

definition oat_step :: "byte \<Rightarrow> unsigned \<Rightarrow> unsigned" where
  "oat_step b hv =
     (let hv = hv + of_byte b;
          hv = hv + shl hv 10
      in hv XOR shr hv 6)"

definition HASH_OAT :: "byte list \<Rightarrow> unsigned" where
  "HASH_OAT key =
     (let hv = fold oat_step key 0;
          hv = hv + shl hv 3;
          hv = hv XOR shr hv 11
      in hv + shl hv 15)"

section \<open>Jenkins\<close>

text \<open>
  The nine lines of \<open>HASH_JEN_MIX\<close> are three times the same three lines with other shifts:
  \<open>a -= b; a -= c; a ^= c >> r\<close>, then \<open>b\<close> and \<open>c\<close> alike.
\<close>

definition jen_round :: "nat \<Rightarrow> nat \<Rightarrow> nat \<Rightarrow> unsigned \<times> unsigned \<times> unsigned \<Rightarrow>
    unsigned \<times> unsigned \<times> unsigned" where
  "jen_round r1 l r2 v =
     (case v of (a, b, c) \<Rightarrow>
        let a = (a - b - c) XOR shr c r1;
            b = (b - c - a) XOR shl a l;
            c = (c - a - b) XOR shr b r2
        in (a, b, c))"

definition HASH_JEN_MIX :: "unsigned \<times> unsigned \<times> unsigned \<Rightarrow> unsigned \<times> unsigned \<times> unsigned" where
  "HASH_JEN_MIX v = jen_round 3 10 15 (jen_round 12 16 5 (jen_round 13 8 13 v))"

definition word_at :: "byte list \<Rightarrow> nat \<Rightarrow> unsigned" where
  "word_at key i = of_byte (key ! i) + shl (of_byte (key ! (i + 1))) 8
     + shl (of_byte (key ! (i + 2))) 16 + shl (of_byte (key ! (i + 3))) 24"

text \<open>The loop over blocks of twelve bytes; what it leaves is the rest of the key.\<close>

function jen_blocks :: "byte list \<Rightarrow> unsigned \<times> unsigned \<times> unsigned \<Rightarrow>
    byte list \<times> unsigned \<times> unsigned \<times> unsigned" where
  "jen_blocks key (i, j, hv) =
     (if length key \<ge> 12
      then jen_blocks (drop 12 key)
             (HASH_JEN_MIX (i + word_at key 0, j + word_at key 4, hv + word_at key 8))
      else (key, i, j, hv))"
  by pat_completeness auto
termination by (relation "measure (\<lambda>(key, v). length key)") auto

declare jen_blocks.simps [simp del]

text \<open>The switch with its cases that fall through: the byte \<open>n\<close> counts when the rest is longer.\<close>

definition tail_byte :: "byte list \<Rightarrow> nat \<Rightarrow> nat \<Rightarrow> unsigned" where
  "tail_byte key n shift = (if n < length key then shl (of_byte (key ! n)) shift else 0)"

definition HASH_JEN :: "byte list \<Rightarrow> unsigned" where
  "HASH_JEN key =
     (let (rest, i, j, hv) = jen_blocks key (0x9e3779b9, 0x9e3779b9, 0xfeedbeef);
          hv = hv + of_nat (length key);
          hv = hv + tail_byte rest 10 24 + tail_byte rest 9 16 + tail_byte rest 8 8;
          j = j + tail_byte rest 7 24 + tail_byte rest 6 16 + tail_byte rest 5 8 + tail_byte rest 4 0;
          i = i + tail_byte rest 3 24 + tail_byte rest 2 16 + tail_byte rest 1 8 + tail_byte rest 0 0
      in snd (snd (HASH_JEN_MIX (i, j, hv))))"

section \<open>Hsieh\<close>

definition get16bits :: "byte list \<Rightarrow> nat \<Rightarrow> unsigned" where
  "get16bits key i = shl (of_byte (key ! (i + 1))) 8 + of_byte (key ! i)"

definition sfh_step :: "byte list \<Rightarrow> unsigned \<Rightarrow> unsigned" where
  "sfh_step key hv =
     (let hv = hv + get16bits key 0;
          tmp = shl (get16bits key 2) 11 XOR hv;
          hv = shl hv 16 XOR tmp
      in hv + shr hv 11)"

primrec sfh_blocks :: "nat \<Rightarrow> byte list \<Rightarrow> unsigned \<Rightarrow> byte list \<times> unsigned" where
  "sfh_blocks 0 key hv = (key, hv)"
| "sfh_blocks (Suc n) key hv = sfh_blocks n (drop 4 key) (sfh_step key hv)"

definition sfh_rest :: "nat \<Rightarrow> byte list \<Rightarrow> unsigned \<Rightarrow> unsigned" where
  "sfh_rest rem key hv =
     (if rem = 3 then
        let hv = hv + get16bits key 0;
            hv = hv XOR shl hv 16;
            hv = hv XOR shl (of_byte (key ! 2)) 18
        in hv + shr hv 11
      else if rem = 2 then
        let hv = hv + get16bits key 0;
            hv = hv XOR shl hv 11
        in hv + shr hv 17
      else if rem = 1 then
        let hv = hv + of_byte (key ! 0);
            hv = hv XOR shl hv 10
        in hv + shr hv 1
      else hv)"

definition HASH_SFH :: "byte list \<Rightarrow> unsigned" where
  "HASH_SFH key =
     (let len = of_nat (length key) :: unsigned;
          rem = unat (len AND 3);
          (key, hv) = sfh_blocks (unat (drop_bit 2 len)) key 0xcafebabe;
          hv = sfh_rest rem key hv;
          hv = hv XOR shl hv 3;
          hv = hv + shr hv 5;
          hv = hv XOR shl hv 4;
          hv = hv + shr hv 17;
          hv = hv XOR shl hv 25
      in hv + shr hv 6)"

text \<open>\<open>HASH_FUNCTION\<close> of \<open>custom-uthash.h\<close>: a 64-bit result assigned to an \<open>unsigned\<close>.\<close>

definition HASH_FUNCTION :: "(byte list \<Rightarrow> 64 word) \<Rightarrow> byte list \<Rightarrow> unsigned" where
  "HASH_FUNCTION XXH3_64bits key = ucast (XXH3_64bits key)"

section \<open>What they compute\<close>

text \<open>Bernstein: the bytes as digits to the base 33, modulo \<open>2\<^sup>3\<^sup>2\<close>.\<close>

primrec horner33 :: "byte list \<Rightarrow> nat" where
  "horner33 [] = 0"
| "horner33 (b # bs) = unat b * 33 ^ length bs + horner33 bs"

lemma shl_times: "shl w n = w * 2 ^ n"
  by (simp add: push_bit_eq_mult mult.commute)

lemma ber_fold:
  "fold (\<lambda>b hv. (shl hv 5 + hv) + of_byte b) bs hv = hv * 33 ^ length bs + of_nat (horner33 bs)"
proof (induction bs arbitrary: hv)
  case (Cons b bs)
  have "shl hv 5 + hv = hv * 33"
    by (simp add: shl_times algebra_simps)
  then show ?case
    using Cons.IH [of "shl hv 5 + hv + of_byte b"] by (simp add: algebra_simps)
qed simp

theorem ber_base33: "HASH_BER bs = of_nat (horner33 bs)"
  by (simp add: HASH_BER_def ber_fold)

text \<open>The mixing step of Jenkins loses nothing: it can be undone.\<close>

definition jen_unround :: "nat \<Rightarrow> nat \<Rightarrow> nat \<Rightarrow> unsigned \<times> unsigned \<times> unsigned \<Rightarrow>
    unsigned \<times> unsigned \<times> unsigned" where
  "jen_unround r1 l r2 v =
     (case v of (a, b, c) \<Rightarrow>
        let c = (c XOR shr b r2) + b + a;
            b = (b XOR shl a l) + a + c;
            a = (a XOR shr c r1) + c + b
        in (a, b, c))"

definition jen_unmix :: "unsigned \<times> unsigned \<times> unsigned \<Rightarrow> unsigned \<times> unsigned \<times> unsigned" where
  "jen_unmix v = jen_unround 13 8 13 (jen_unround 12 16 5 (jen_unround 3 10 15 v))"

lemma jen_unround_round: "jen_unround r1 l r2 (jen_round r1 l r2 v) = v"
  by (cases v) (simp add: jen_round_def jen_unround_def Let_def xor.assoc)

lemma jen_round_unround: "jen_round r1 l r2 (jen_unround r1 l r2 v) = v"
  by (cases v) (simp add: jen_round_def jen_unround_def Let_def xor.assoc)

theorem jen_mix_bijective: "jen_unmix (HASH_JEN_MIX v) = v" "HASH_JEN_MIX (jen_unmix v) = v"
  by (simp_all add: HASH_JEN_MIX_def jen_unmix_def jen_unround_round jen_round_unround)

text \<open>The published test values of FNV-1a.\<close>

lemma fnv_vectors:
  "HASH_FNV [] = 0x811c9dc5" "HASH_FNV [0x61] = 0xe40c292c"
  "HASH_FNV [0x66, 0x6f, 0x6f, 0x62, 0x61, 0x72] = 0xbf9cf968"
  by (simp_all add: HASH_FNV_def) 

text \<open>What the loops leave for the switch: the bytes behind the last whole block, all in the key.\<close>

lemma jen_blocks_rest:
  "fst (jen_blocks bs v) = drop (12 * (length bs div 12)) bs"
proof (induction bs v rule: jen_blocks.induct)
  case (1 bs i j hv)
  show ?case
  proof (cases "length bs \<ge> 12")
    case True
    then have "12 * (length bs div 12) = 12 * ((length bs - 12) div 12) + 12"
      by (simp add: le_div_geq)
    then show ?thesis
      using 1 True by (subst jen_blocks.simps) simp
  qed (subst jen_blocks.simps, simp)
qed

lemma sfh_blocks_rest: "fst (sfh_blocks n bs hv) = drop (4 * n) bs"
  by (induction n arbitrary: bs hv) (simp_all add: add.commute)

end
