(* ===== verification/UtExample.thy ===== *)
theory UtExample
  imports UtHashProg UtHashRead UtSortOk UtSelect UtBloom UtHashFun
begin

text \<open>
  A concrete hash, for the witnesses: three elements at the addresses 10, 20 and 30 with the keys
  "a", "b" and "c", added to an empty hash in a heap of 1 MiB.
\<close>

definition heap_1M :: "nat \<Rightarrow> ptr option" where
  "heap_1M sz = (if int sz \<le> 2 ^ 20 then Some 1000 else None)"

definition blank_handle :: UT_hash_handle where
  "blank_handle = \<lparr>tbl = None, prev = None, nxt = None, hh_prev = None, hh_next = None, key = [],
     keylen = 0, hashv = 0\<rparr>"

definition no_memory :: hash_mem where
  "no_memory = \<lparr>hh = (\<lambda>p. blank_handle), tables = Map.empty\<rparr>"

fun add_all :: "(byte list \<times> ptr) list \<Rightarrow> hash_var \<Rightarrow> hash_var option" where
  "add_all [] v = Some v"
| "add_all ((k, x) # es) (s, head) =
     (case HASH_ADD_KEYPTR HASH_BER heap_1M False k x head s of
        Some (Inr v) \<Rightarrow> add_all es v
      | _ \<Rightarrow> None)"

lemma heap_bounded [simp]: "bounded_memory heap_1M"
  by (simp add: bounded_memory_def heap_1M_def sizeof_bucket_def)

lemma heap_enough: "n \<le> 10 \<Longrightarrow> \<not> out_of_memory heap_1M n"
proof
  assume n: "n \<le> 10" and "out_of_memory heap_1M n"
  have "heap_1M sizeof_table \<noteq> None" "heap_1M (32 * sizeof_bucket) \<noteq> None"
    by (simp_all add: heap_1M_def sizeof_table_def sizeof_bucket_def)
  then obtain k where "k \<le> 5 + n" and k': "heap_1M (sizeof_bucket * 2 ^ k * 2) = None"
    using \<open>out_of_memory heap_1M n\<close> by (auto simp only: out_of_memory_def simp_thms)
  then have k: "k \<le> 15" "heap_1M (sizeof_bucket * 2 ^ k * 2) = None"
    using n by auto
  have "(2 :: int) ^ k \<le> 2 ^ 15"
    using k(1) by (intro power_increasing) auto
  then show False
    using k(2) by (simp add: heap_1M_def sizeof_bucket_def split: if_splits)
qed

lemma add_all_hash:
  assumes "ut_hash HASH_BER s head xs" "tables_within n s" "n + length es \<le> 10" "length xs + length es < 2 ^ 32"
    and "distinct (xs @ map snd es)" "\<forall>(k, x) \<in> set es. length k < 2 ^ 32 \<and> ut_map s xs k = None" "distinct (map fst es)"
  shows "\<exists>s' head'. add_all es (s, head) = Some (s', head') \<and> ut_hash HASH_BER s' head' (xs @ map snd es)
    \<and> ut_map s' (xs @ map snd es) = ut_map s xs ++ map_of es \<and> tables_within (n + length es) s'"
  using assms
proof (induction es arbitrary: s head xs n)
  case (Cons e es)
  obtain k x where e: "e = (k, x)"
    by fastforce
  have ok: "ut_ok s head xs"
    using Cons.prems(1) by (simp add: ut_hash_def)
  have new: "x \<notin> set xs" "length xs + 1 < 2 ^ 32" "length k < 2 ^ 32" "ut_map s xs k = None"
    using Cons.prems by (auto simp: e)
  have "\<not> lacks_memory heap_1M head s"
    using lacks_out_of_memory [OF _ ok Cons.prems(2)] heap_enough [of n] Cons.prems(3) by auto
  from add_map_enough [OF Cons.prems(1) new(1,2) heap_bounded new(3,4) this, of False]
  obtain s1 head1 where s1: "HASH_ADD_KEYPTR HASH_BER heap_1M False k x head s = Some (Inr (s1, head1))"
    "ut_hash HASH_BER s1 head1 (xs @ [x])" "ut_map s1 (xs @ [x]) = (ut_map s xs)(k \<mapsto> x)"
    by blast
  have w: "tables_within (Suc n) s1"
    using within_add [OF s1(1) ok _ Cons.prems(2)] Cons.prems(5) by (simp add: e)
  have "\<forall>(k', y) \<in> set es. length k' < 2 ^ 32 \<and> ut_map s1 (xs @ [x]) k' = None"
    using Cons.prems(6,7) by (force simp: s1(3) e)
  moreover have "map_of es k = None"
    using Cons.prems(7) by (simp add: e map_of_eq_None_iff)
  ultimately show ?case
    using Cons.IH [OF s1(2) w] Cons.prems(3-5,7) s1(1,3)
    by (auto simp: e map_add_def fun_eq_iff split: option.split)
qed simp

definition sample_elements :: "(byte list \<times> ptr) list" where
  "sample_elements = [([97], 10), ([98], 20), ([99], 30)]"

definition sample_hash :: hash_var where
  "sample_hash = the (add_all sample_elements (no_memory, None))"

lemma no_memory_within [simp]: "tables_within n no_memory"
  by (simp add: tables_within_def no_memory_def)

lemma empty_hash [simp]: "ut_hash H s None []"
  by (simp add: ut_hash_def ut_ok_def hashed_def)

lemma empty_hash_map [simp]: "ut_map s [] = Map.empty"
  by (simp add: ut_map_def)

lemma sample_ok:
  "ut_hash HASH_BER (fst sample_hash) (snd sample_hash) [10, 20, 30]"
  "ut_map (fst sample_hash) [10, 20, 30] = [[97] \<mapsto> 10, [98] \<mapsto> 20, [99] \<mapsto> 30]"
  "tables_within 3 (fst sample_hash)"
proof -
  have "\<exists>s head. add_all sample_elements (no_memory, None) = Some (s, head)
      \<and> ut_hash HASH_BER s head ([] @ map snd sample_elements)
      \<and> ut_map s ([] @ map snd sample_elements) = ut_map no_memory [] ++ map_of sample_elements
      \<and> tables_within (0 + length sample_elements) s"
    by (rule add_all_hash) (simp_all add: sample_elements_def)
  then obtain s head where "add_all sample_elements (no_memory, None) = Some (s, head)"
    "ut_hash HASH_BER s head [10, 20, 30]" "ut_map s [10, 20, 30] = map_of sample_elements" "tables_within 3 s"
    by (auto simp: sample_elements_def numeral_3_eq_3 simp del: add_all.simps)
  then show "ut_hash HASH_BER (fst sample_hash) (snd sample_hash) [10, 20, 30]"
    "ut_map (fst sample_hash) [10, 20, 30] = [[97] \<mapsto> 10, [98] \<mapsto> 20, [99] \<mapsto> 30]"
    "tables_within 3 (fst sample_hash)"
    by (auto simp: sample_hash_def sample_elements_def fun_eq_iff)
qed

lemma sample_structure: "ut_ok (fst sample_hash) (snd sample_hash) [10, 20, 30]"
  using sample_ok(1) by (simp add: ut_hash_def)

text \<open>The loops as code equations, so that a concrete run can be evaluated.\<close>

declare find_loop.simps [code] expand_chain.simps [code] HASH_ITER.simps [code]
declare HASH_AKBI_INNER_LOOP.simps [code] fsck_chain.simps [code] fsck_app.simps [code]
declare merge_loop.simps [code] pass_loop.simps [code] sort_loop.simps [code] select_chain.simps [code]

definition sample_selection :: "(int + hash_mem \<times> ptr option) option" where
  "sample_selection = HASH_SELECT heap_1M False (\<lambda>x. x < 25) (snd sample_hash) (fst sample_hash) None no_memory"

lemma sample_selection_run:
  "\<exists>s. sample_selection = Some (Inr (s, Some 10)) \<and> num_buckets (table_at s (tbl_of s 10)) = 32"
proof -
  have "map_option (map_sum id (\<lambda>(s, dst). (dst, num_buckets (table_at s (tbl_of s (the dst)))))) sample_selection
      = Some (Inr (Some 10, 32))"
    by code_simp
  then obtain z where "sample_selection = Some z"
    "map_sum id (\<lambda>(s, dst). (dst, num_buckets (table_at s (tbl_of s (the dst))))) z = Inr (Some 10, 32)"
    by auto
  then show ?thesis
    by (cases z) auto
qed

end
