(* ===== verification/UtHashSpec.thy ===== *)
theory UtHashSpec
  imports UtExample
begin

text \<open>
  The properties of the hash table of \<open>uthash.h\<close>. \<open>ut_hash H s head xs\<close> is its invariant: from
  \<open>head\<close> the elements \<open>xs\<close> are linked in application order, with pairwise different keys, the hash
  function \<open>H\<close> having given their hash values; the counters and the tail of the table are right,
  and every bucket holds exactly the elements that its index selects. \<open>ut_map s xs\<close> is the finite
  map that the hash stands for.
\<close>

lemma sort_keeps_hash:
  assumes "ut_hash H s head xs" "ut_ok s' head' ys" "same_items (hh s) (hh s')" "mset ys = mset xs"
  shows "ut_hash H s' head' ys" "ut_map s' ys = ut_map s xs"
proof -
  have keys: "same_keys (hh s) (hh s')" and set: "set ys = set xs"
    using same_items_keys assms(3) mset_eq_setD [OF assms(4)] by auto
  have key: "key \<circ> hh s' = key \<circ> hh s"
    using keys by (simp add: same_keys_def)
  have "mset (map (key \<circ> hh s') ys) = mset (map (key \<circ> hh s) xs)"
    using assms(4) by (simp add: key)
  then have dis: "distinct (map (key \<circ> hh s') ys)" "distinct (map (key \<circ> hh s) xs)"
    using assms(1) mset_eq_imp_distinct_iff [of "map (key \<circ> hh s') ys" "map (key \<circ> hh s) xs"]
    by (simp_all add: ut_hash_def)
  then show "ut_hash H s' head' ys"
    using assms(1,2) hashed_frame [OF _ keys, of H xs ys] set by (simp add: ut_hash_def)
  show "ut_map s' ys = ut_map s xs"
    using set fun_cong [OF key] by (intro map_eqI) (simp add: ut_map_Some [OF dis(1)] ut_map_Some [OF dis(2)])
qed

lemma keyed_keeps_hash:
  assumes hash: "ut_hash H s head xs" and new: "x \<notin> set xs" and k: "length k < 2 ^ 32" "ut_map s xs k = None"
    and keys: "same_keys (keyed x k (H k) s) (hh s')" and ok: "ut_ok s' head' ys" and ys: "mset ys = add_mset x (mset xs)"
  shows "ut_hash H s' head' ys" "ut_map s' ys = (ut_map s xs)(k \<mapsto> x)"
proof -
  have set: "set ys = insert x (set xs)"
    using mset_eq_setD [of ys "x # xs"] ys by simp
  have key: "key (hh s' y) = (if y = x then k else key (hh s y))" for y
    using same_keysD(1) [OF keys, of y] by (simp add: keyed_def)
  have old: "map (key \<circ> hh s') xs = map (key \<circ> hh s) xs"
    using new by (auto simp: key)
  have "mset (map (key \<circ> hh s') ys) = mset ((key \<circ> hh s') x # map (key \<circ> hh s') xs)"
    using ys by simp
  then have "mset (map (key \<circ> hh s') ys) = mset (k # map (key \<circ> hh s) xs)"
    unfolding old by (simp add: key)
  moreover have "distinct (k # map (key \<circ> hh s) xs)" and dis: "distinct (map (key \<circ> hh s) xs)"
    using hash k(2) by (auto simp: ut_hash_def ut_map_None)
  ultimately have dis': "distinct (map (key \<circ> hh s') ys)"
    by (metis mset_eq_imp_distinct_iff)
  have "hashed H (keyed x k (H k) s) ys"
    using hash new k(1) set by (auto simp: ut_hash_def hashed_def keyed_def)
  then show "ut_hash H s' head' ys"
    using ok dis' hashed_frame [OF _ keys, of H ys ys] by (simp add: ut_hash_def)
  have "key (hh s y) \<noteq> k" if "y \<in> set xs" for y
    using k(2) that by (simp add: ut_map_None)
  then show "ut_map s' ys = (ut_map s xs)(k \<mapsto> x)"
    using set new by (intro map_eqI) (auto simp: ut_map_Some [OF dis'] ut_map_Some [OF dis] key)
qed

text \<open>
  C28. A program that replaces, finds and deletes by key, in any order and any number of times up to
  \<open>2\<^sup>3\<^sup>2\<close>, with any hash function, gets the answers of a finite map. It always ends, and it gives up
  (\<open>uthash_fatal\<close>, -1) only when the heap refuses a table or an array of buckets of a size up to
  that which so many additions can ask for.
\<close>

theorem hash_program_like_map:
  assumes "bounded_memory uthash_malloc" "tables_within 0 s"
    and "proper_calls (\<lambda>k. length k < 2 ^ 32) cs Map.empty []" "length cs < 2 ^ 32"
  shows "\<exists>r. run_calls (hash_replace H uthash_malloc) (hash_find H) (hash_find_delete H) cs (s, None) = Some r
    \<and> (r = Inr (map_answers cs Map.empty) \<or> r = Inl (-1) \<and> out_of_memory uthash_malloc (length cs))"
  using ut.calls_answer_like_map [OF hash_rep_empty [OF assms(1,2)] assms(3)] assms(4) by fastforce

theorem hash_program_like_map_witness:
  "run_calls (hash_replace HASH_JEN heap_1M) (hash_find HASH_JEN) (hash_find_delete HASH_JEN)
     [Replace [97] 10, Find [97], Replace [97] 20, FindDelete [97], Find [97]] (no_memory, None)
   = Some (Inr [None, Some 10, Some 10, Some 20, None])"
proof -
  let ?cs = "[Replace [97] 10, Find [97], Replace [97] 20, FindDelete [97], Find [97]] :: (byte list, ptr) hash_call list"
  have "\<not> out_of_memory heap_1M (length ?cs)" "length ?cs < 2 ^ 32" "proper_calls (\<lambda>k. length k < 2 ^ 32) ?cs Map.empty []"
    using heap_enough [of "length ?cs"] by simp_all
  with hash_program_like_map [OF heap_bounded no_memory_within this(3,2), of HASH_JEN] show ?thesis
    by (simp del: run_calls.simps)
qed

text \<open>
  C29. \<open>HASH_ADD_KEYPTR\<close> of a new element under a new key keeps the invariant, whatever the hash
  values are and whether or not the buckets are doubled on the way: the element is the last one,
  and the map has it under its key. When memory runs out the process ends, or the hash is as it
  was (\<open>HASH_NONFATAL_OOM\<close>).
\<close>

theorem add_keeps_hash:
  assumes "ut_hash H s head xs" "x \<notin> set xs" "length xs + 1 < 2 ^ 32"
    and "bounded_memory uthash_malloc" "length k < 2 ^ 32" "ut_map s xs k = None"
  shows "\<exists>r. HASH_ADD_KEYPTR H uthash_malloc NONFATAL k x head s = Some r \<and> (case r of
      Inl e \<Rightarrow> e = -1 \<and> \<not> NONFATAL \<and> lacks_memory uthash_malloc head s
    | Inr (s', head') \<Rightarrow>
        ut_hash H s' head' (xs @ [x]) \<and> ut_map s' (xs @ [x]) = (ut_map s xs)(k \<mapsto> x)
        \<or> NONFATAL \<and> lacks_memory uthash_malloc head s \<and> ut_hash H s' head' xs \<and> ut_map s' xs = ut_map s xs)"
  by (rule add_map [OF assms])

theorem add_keeps_hash_witness:
  "\<exists>s' head'. HASH_ADD_KEYPTR HASH_BER heap_1M True [100] 40 (snd sample_hash) (fst sample_hash) = Some (Inr (s', head'))
    \<and> ut_hash HASH_BER s' head' [10, 20, 30, 40]"
proof -
  have "\<not> lacks_memory heap_1M (snd sample_hash) (fst sample_hash)"
    using lacks_out_of_memory [OF _ sample_structure sample_ok(3)] heap_enough [of 3] by auto
  moreover have "ut_map (fst sample_hash) [10, 20, 30] [100] = None"
    by (simp add: sample_ok(2))
  moreover obtain r where "HASH_ADD_KEYPTR HASH_BER heap_1M True [100] 40 (snd sample_hash) (fst sample_hash) = Some r"
    "case r of Inl e \<Rightarrow> e = -1 \<and> \<not> True \<and> lacks_memory heap_1M (snd sample_hash) (fst sample_hash)
      | Inr (s', head') \<Rightarrow> ut_hash HASH_BER s' head' ([10, 20, 30] @ [40])
          \<and> ut_map s' ([10, 20, 30] @ [40]) = (ut_map (fst sample_hash) [10, 20, 30])([100] \<mapsto> 40)
        \<or> True \<and> lacks_memory heap_1M (snd sample_hash) (fst sample_hash) \<and> ut_hash HASH_BER s' head' [10, 20, 30]
          \<and> ut_map s' [10, 20, 30] = ut_map (fst sample_hash) [10, 20, 30]"
    using add_keeps_hash [OF sample_ok(1) _ _ heap_bounded, of 40 "[100]" True] calculation(2) by auto
  ultimately show ?thesis
    by (cases r) auto
qed

text \<open>
  C30. \<open>HASH_DELETE\<close> of any element keeps the invariant for the others, in their order: their
  keys and hash values stay, only the deleted key leaves the map, and deleting the last one gives
  the empty hash.
\<close>

theorem delete_removes_element:
  assumes "ut_hash H s head xs" "x \<in> set xs"
  defines "r \<equiv> HASH_DELETE_HH x head s"
  shows "ut_hash H (fst r) (snd r) (remove1 x xs) \<and> same_keys (hh s) (hh (fst r))
    \<and> ut_map (fst r) (remove1 x xs) = (ut_map s xs)(key (hh s x) := None)
    \<and> (snd r = None \<longleftrightarrow> xs = [x])"
proof -
  obtain us vs where xs: "xs = us @ x # vs" "x \<notin> set us"
    using split_list_first [OF assms(2)] by blast
  obtain s' head' where r: "HASH_DELETE_HH x head s = (s', head')"
    by fastforce
  have rem: "remove1 x xs = us @ vs"
    using xs by (simp add: remove1_append)
  note del = delete_map [OF assms(1) [unfolded xs(1)] r]
  have "us @ vs = [] \<longleftrightarrow> us @ x # vs = [x]"
    by (cases us) auto
  moreover have "head' = None \<longleftrightarrow> us @ vs = []"
    using del(1) dseg_start [OF ut_ok_list, of s' head' "us @ vs"] first_or_None [of "us @ vs"] by (simp add: ut_hash_def)
  ultimately show ?thesis
    unfolding r_def r rem using del unfolding xs(1) fst_conv snd_conv by blast
qed

theorem delete_removes_element_witness:
  "ut_hash HASH_BER (fst (HASH_DELETE_HH 20 (snd sample_hash) (fst sample_hash)))
     (snd (HASH_DELETE_HH 20 (snd sample_hash) (fst sample_hash))) [10, 30]"
  using delete_removes_element [OF sample_ok(1), of 20] by simp

text \<open>
  C31. \<open>HASH_FIND\<close> ends for every key and finds the element whose key has exactly these bytes, or
  nothing when there is none; elements of the same bucket or of the same hash value do not
  disturb it.
\<close>

theorem find_returns_element:
  assumes "ut_hash H s head xs" "length k < 2 ^ 32"
  shows "\<exists>r. HASH_FIND H k head s = Some r
    \<and> (\<forall>x. r = Some x \<longleftrightarrow> x \<in> set xs \<and> key (hh s x) = k)"
proof -
  have "distinct (map (key \<circ> hh s) xs)"
    using assms(1) by (simp add: ut_hash_def)
  then show ?thesis
    using find_map [OF assms] by (simp add: ut_map_Some)
qed

theorem find_returns_element_witness:
  "HASH_FIND HASH_BER [98] (snd sample_hash) (fst sample_hash) = Some (Some 20)"
proof -
  have "distinct (map (key \<circ> hh (fst sample_hash)) [10, 20, 30])"
    using sample_ok(1) by (simp add: ut_hash_def)
  from ut_map_Some [OF this, of "[98]" 20] have "key (hh (fst sample_hash) 20) = [98]"
    by (simp add: sample_ok(2))
  then show ?thesis
    using find_returns_element [OF sample_ok(1), of "[98]"] by auto
qed

text \<open>
  C32. Wherever the invariant holds the macro's own consistency check \<open>HASH_FSCK\<close> ends and is
  silent, and \<open>HASH_COUNT\<close> is the number of elements that \<open>HASH_ITER\<close> visits.
\<close>

theorem consistency_check_silent:
  assumes "ut_ok s head xs"
  shows "HASH_FSCK head s = Some True \<and> unat (HASH_COUNT head s) = length xs
    \<and> HASH_ITER (\<lambda>p (m, seen). (m, seen @ [p])) fst (head, iter_start head s, hh s, []) = Some (hh s, xs)"
  by (intro conjI fsck_silent [OF assms] count_ok [OF assms] iter_visits_all [OF assms])

theorem consistency_check_silent_witness:
  "HASH_FSCK (snd sample_hash) (fst sample_hash) = Some True"
  using consistency_check_silent [OF sample_structure] by blast

text \<open>
  C33. \<open>HASH_SRT\<close> with a comparison that orders by a key of the elements is the stable sort of the
  application order by that key: the bottom-up merge on the linked list equals the library's
  \<open>sort_key\<close>. The hash keeps its invariant and its map.
\<close>

theorem sort_is_stable_sort:
  fixes f :: "ptr \<Rightarrow> 'a :: linorder"
  assumes "ut_hash H s head xs" "\<And>x y. cmpfcn x y \<le> 0 \<longleftrightarrow> f x \<le> f y"
  shows "\<exists>s' head'. HASH_SRT cmpfcn head s = Some (s', head') \<and> ut_hash H s' head' (sort_key f xs)
    \<and> ut_map s' (sort_key f xs) = ut_map s xs"
proof -
  have "ut_ok s head xs"
    using assms(1) by (simp add: ut_hash_def)
  from srt_sort_key [where f = f, OF this assms(2)] obtain s' head' where
    r: "HASH_SRT cmpfcn head s = Some (s', head')" "ut_ok s' head' (sort_key f xs)" "same_items (hh s) (hh s')"
    by blast
  show ?thesis
    using r(1) sort_keeps_hash [OF assms(1) r(2,3)] by simp
qed

theorem sort_is_stable_sort_witness:
  "\<exists>s' head'. HASH_SRT (\<lambda>x y. int y - int x) (snd sample_hash) (fst sample_hash) = Some (s', head')
    \<and> ut_hash HASH_BER s' head' [30, 20, 10]"
  using sort_is_stable_sort [OF sample_ok(1), where f = "\<lambda>x. - int x" and cmpfcn = "\<lambda>x y. int y - int x"]
  by (auto simp: insort_key_def)

text \<open>
  C34. \<open>HASH_SRT\<close> ends with any comparison function, also one that is not an order: the passes of
  the merge over the list are finite, no element is lost or doubled, and the invariant holds.
\<close>

theorem sort_always_ends:
  assumes "ut_hash H s head xs"
  shows "\<exists>s' head' ys. HASH_SRT cmpfcn head s = Some (s', head') \<and> mset ys = mset xs \<and> ut_hash H s' head' ys
    \<and> ut_map s' ys = ut_map s xs"
proof -
  let ?ys = "bottom_up (\<lambda>x y. cmpfcn x y \<le> 0) 1 xs"
  have "ut_ok s head xs" and mset: "mset ?ys = mset xs"
    using assms by (simp_all add: ut_hash_def mset_bottom_up)
  from srt_bottom_up [OF this(1), of cmpfcn] obtain s' head' where
    r: "HASH_SRT cmpfcn head s = Some (s', head')" "ut_ok s' head' ?ys" "same_items (hh s) (hh s')"
    by blast
  show ?thesis
    using r(1) mset sort_keeps_hash [OF assms r(2,3) mset] by blast
qed

theorem sort_always_ends_witness:
  "\<exists>s' head' ys. HASH_SRT (\<lambda>x y. if x = y then 1 else - 1) (snd sample_hash) (fst sample_hash) = Some (s', head')
    \<and> mset ys = {#10, 20, 30#} \<and> ut_hash HASH_BER s' head' ys"
proof -
  have "mset [10, 20, 30] = {#10, 20, 30 :: ptr#}"
    by simp
  then show ?thesis
    using sort_always_ends [OF sample_ok(1), of "\<lambda>x y. if x = y then 1 else - 1"] by metis
qed

text \<open>
  C35. \<open>HASH_ITER\<close> is safe for deletion: with a body that deletes its element the loop ends, the
  variable \<open>head\<close> is \<open>NULL\<close> and the table is freed.
\<close>

theorem iterate_and_delete:
  assumes "ut_ok s head xs"
  shows "\<exists>s'. HASH_ITER delete_body (hh \<circ> fst) (head, iter_start head s, s, head) = Some (s', None)
    \<and> (case head of None \<Rightarrow> s' = s | Some h \<Rightarrow> tables s' (tbl_of s h) = None)"
  by (rule iter_delete_all [OF assms])

theorem iterate_and_delete_witness:
  "\<exists>s'. HASH_ITER delete_body (hh \<circ> fst) (snd sample_hash, iter_start (snd sample_hash) (fst sample_hash), sample_hash)
    = Some (s', None)"
  using iterate_and_delete [OF sample_structure] by auto

text \<open>
  C36. Insertion in order into a hash whose elements are in the order of a comparison puts the new
  element so that they still are: behind those that are smaller or equal. It ends, and with
  memory at hand it succeeds.
\<close>

theorem ordered_insertion:
  fixes f :: "ptr \<Rightarrow> 'a :: linorder"
  assumes "ut_hash H s head xs" "sorted (map f xs)" "\<And>x y. cmp x y \<le> 0 \<longleftrightarrow> f x \<le> f y"
    and "x \<notin> set xs" "length xs + 1 < 2 ^ 32" "bounded_memory uthash_malloc"
    and "\<not> lacks_memory uthash_malloc head s" "length k < 2 ^ 32" "ut_map s xs k = None"
  shows "\<exists>s' head' ys. HASH_ADD_KEYPTR_BYHASHVALUE_INORDER cmp uthash_malloc NONFATAL k (H k) x head s = Some (Inr (s', head'))
    \<and> ut_hash H s' head' ys \<and> sorted (map f ys) \<and> mset ys = add_mset x (mset xs)
    \<and> ut_map s' ys = (ut_map s xs)(k \<mapsto> x)"
proof -
  have ok: "ut_ok s head xs"
    using assms(1) by (simp add: ut_hash_def)
  obtain r where r: "HASH_ADD_KEYPTR_BYHASHVALUE_INORDER cmp uthash_malloc NONFATAL k (H k) x head s = Some r"
    "added NONFATAL (lacks_memory uthash_malloc head s) (keyed x k (H k) s) xs (insert_inorder cmp x xs) r"
    using add_inorder_ok [OF ok assms(4-6)] by blast
  then obtain s' head' where s': "r = Inr (s', head')" "ut_ok s' head' (insert_inorder cmp x xs)"
    "same_keys (keyed x k (H k) s) (hh s')"
    using assms(7) by (cases r) (auto simp: added_def)
  have "sorted (map f (insert_inorder cmp x xs))" and m: "mset (insert_inorder cmp x xs) = add_mset x (mset xs)"
    using sorted_insert_inorder [OF assms(2,3), of x] by simp_all
  then show ?thesis
    using r(1) s'(1) keyed_keeps_hash [OF assms(1,4,8,9) s'(3,2) m] by blast
qed

theorem ordered_insertion_witness:
  "\<exists>s' head' ys. HASH_ADD_KEYPTR_BYHASHVALUE_INORDER (\<lambda>x y. int x - int y) heap_1M False [100] (HASH_BER [100]) 25
      (snd sample_hash) (fst sample_hash) = Some (Inr (s', head'))
    \<and> ut_hash HASH_BER s' head' ys \<and> sorted ys \<and> mset ys = {#25, 10, 20, 30#}"
proof -
  have "\<not> lacks_memory heap_1M (snd sample_hash) (fst sample_hash)"
    using lacks_out_of_memory [OF _ sample_structure sample_ok(3)] heap_enough [of 3] by auto
  from ordered_insertion [OF sample_ok(1) _ _ _ _ heap_bounded this, where f = id and x = 25
      and cmp = "\<lambda>x y. int x - int y" and NONFATAL = False and k = "[100]"]
  show ?thesis by (auto simp: sample_ok(2))
qed

text \<open>
  C37. \<open>HASH_SELECT\<close> of two or more elements into an empty hash does not set the new table's tail
  behind the first element: \<open>HASH_ADD\<close> to the selection then links the new element there, and an
  iteration meets only the first element and the new one, though all are counted.
\<close>

theorem select_loses_elements:
  assumes "ut_ok s0 src xs" "bounded_memory uthash_malloc" "length xs + 1 < 2 ^ 32"
    and "HASH_SELECT uthash_malloc False cond src s0 None s_dst = Some (Inr (s, Some h))"
    and "2 \<le> length (filter cond xs)" "x \<notin> set xs"
    and "uthash_malloc (sizeof_bucket * unat (num_buckets (table_at s (tbl_of s h))) * 2) \<noteq> None"
  shows "\<exists>s'. HASH_ADD_KEYPTR_BYHASHVALUE uthash_malloc False k hv x (Some h) s = Some (Inr (s', Some h))
    \<and> HASH_ITER (\<lambda>p (m, seen). (m, seen @ [p])) fst (Some h, iter_start (Some h) s', hh s', []) = Some (hh s', [h, x])
    \<and> unat (HASH_COUNT (Some h) s') = length (filter cond xs) + 1"
proof -
  obtain ys where ys: "mset ys = mset (filter cond xs)" "if ys = [] then Some h = None else \<exists>t. selected_at s t (Some h) ys"
    using select_into_empty [OF assms(1,2), of cond s_dst] assms(4) by auto
  then obtain t where sel: "selected_at s t (Some h) ys"
    by (auto split: if_splits)
  have len: "length ys = length (filter cond xs)" and set: "set ys = set (filter cond xs)"
    using mset_eq_length [OF ys(1)] mset_eq_setD [OF ys(1)] by auto
  have h: "h \<in> set ys"
    using dseg_start [of "nxt \<circ> hh s" "prev \<circ> hh s" None "Some h" ys None] sel first_or_in [of ys h]
    by (simp add: selected_at_def)
  then have "tbl_of s h = t"
    using sel by (simp add: selected_at_def tbl_of_def)
  moreover have "length ys + 1 < 2 ^ 32"
    using assms(3) len length_filter_le [of cond xs] by linarith
  ultimately show ?thesis
    using select_then_add [OF sel _ _ _ assms(2), of x k hv] assms(5-7) len set by auto
qed

theorem select_loses_elements_witness:
  "\<exists>s s'. sample_selection = Some (Inr (s, Some 10))
    \<and> HASH_ADD_KEYPTR_BYHASHVALUE heap_1M False [100] 7 40 (Some 10) s = Some (Inr (s', Some 10))
    \<and> HASH_ITER (\<lambda>p (m, seen). (m, seen @ [p])) fst (Some 10, iter_start (Some 10) s', hh s', []) = Some (hh s', [10, 40])
    \<and> unat (HASH_COUNT (Some 10) s') = 3"
proof -
  obtain s where s: "sample_selection = Some (Inr (s, Some 10))" "num_buckets (table_at s (tbl_of s 10)) = 32"
    using sample_selection_run by blast
  have "heap_1M (sizeof_bucket * unat (num_buckets (table_at s (tbl_of s 10))) * 2) \<noteq> None"
    by (simp add: s(2) heap_1M_def sizeof_bucket_def)
  from select_loses_elements [OF sample_structure heap_bounded _ s(1) [unfolded sample_selection_def] _ _ this, of 40 "[100]" 7]
  obtain s' where "HASH_ADD_KEYPTR_BYHASHVALUE heap_1M False [100] 7 40 (Some 10) s = Some (Inr (s', Some 10))"
    "HASH_ITER (\<lambda>p (m, seen). (m, seen @ [p])) fst (Some 10, iter_start (Some 10) s', hh s', []) = Some (hh s', [10, 40])"
    "unat (HASH_COUNT (Some 10) s') = length (filter (\<lambda>x. x < 25) [10, 20, 30 :: ptr]) + 1"
    by auto
  moreover have "length (filter (\<lambda>x. x < 25) [10, 20, 30 :: ptr]) + 1 = 3"
    by simp
  ultimately show ?thesis
    using s(1) by metis
qed

text \<open>
  C38. With the Bloom filter of uthash (a bit vector of \<open>2\<^bsup>nbits\<^esup>\<close> bits, at least one byte, in
  which every element ever added was marked) \<open>HASH_FIND\<close> answers as without it: the filter has no
  false negatives, and elements deleted since only cost time.
\<close>

theorem bloom_filter_transparent:
  assumes "ut_hash H s head xs" "length k < 2 ^ 32"
    and "nbits \<le> 32" "length bv = unat (HASH_BLOOM_BYTELEN nbits)" "\<And>x. x \<in> set xs \<Longrightarrow> hashv (hh s x) \<in> set hvs"
  shows "HASH_FIND_bloom nbits (fold (HASH_BLOOM_ADD nbits) hvs bv) H k head s = HASH_FIND H k head s"
  by (rule bloom_find_same [OF assms(1,2)], rule bloom_no_false_negative [OF assms(3,4)], rule assms(5))

theorem bloom_filter_transparent_witness:
  "HASH_FIND_bloom 5 (fold (HASH_BLOOM_ADD 5) (map HASH_BER [[97], [98], [99], [100]]) (replicate 4 0)) HASH_BER [98]
     (snd sample_hash) (fst sample_hash) = Some (Some 20)"
proof -
  let ?hvs = "map HASH_BER [[97], [98], [99], [100]]"
  have "hashv (hh (fst sample_hash) x) \<in> set ?hvs" if "x \<in> set [10, 20, 30]" for x
  proof -
    have dis: "distinct (map (key \<circ> hh (fst sample_hash)) [10, 20, 30])"
      and hv: "hashv (hh (fst sample_hash) x) = HASH_BER (key (hh (fst sample_hash) x))"
      using sample_ok(1) that by (auto simp: ut_hash_def hashed_def)
    have "key (hh (fst sample_hash) 10) = [97]" "key (hh (fst sample_hash) 20) = [98]" "key (hh (fst sample_hash) 30) = [99]"
      using ut_map_Some [OF dis, of "[97]" 10] ut_map_Some [OF dis, of "[98]" 20] ut_map_Some [OF dis, of "[99]" 30]
      by (simp_all add: sample_ok(2))
    then show ?thesis
      using that by (auto simp: hv)
  qed
  moreover have "length (replicate 4 (0 :: byte)) = unat (HASH_BLOOM_BYTELEN 5)"
    by code_simp
  ultimately have "HASH_FIND_bloom 5 (fold (HASH_BLOOM_ADD 5) ?hvs (replicate 4 0)) HASH_BER [98] (snd sample_hash) (fst sample_hash)
      = HASH_FIND HASH_BER [98] (snd sample_hash) (fst sample_hash)"
    by (intro bloom_filter_transparent [OF sample_ok(1)]) simp_all
  then show ?thesis
    using find_map [OF sample_ok(1), of "[98]"] by (simp add: sample_ok(2))
qed

end
