(* ===== verification/UtForms.thy ===== *)
theory UtForms
  imports UtHashSpec
begin

text \<open>
  The convenience forms of \<open>uthash.h\<close>: those that name a field of the element instead of its key's
  address, those for keys that are C strings, integers and pointers, and replacement in order.
  A field is given by the bytes from its address on, for every element.
\<close>

section \<open>Fields as keys\<close>

type_synonym field = "ptr \<Rightarrow> byte list"

definition HASH_VALUE :: "(byte list \<Rightarrow> unsigned) \<Rightarrow> byte list \<Rightarrow> unsigned" where
  "HASH_VALUE H k = H k"

text \<open>The \<open>keylen_in\<close> bytes at \<open>&((add)->fieldname)\<close>.\<close>

definition field_key :: "field \<Rightarrow> unsigned \<Rightarrow> ptr \<Rightarrow> byte list" where
  "field_key fieldname keylen_in add = take (unat keylen_in) (fieldname add)"

definition HASH_ADD_BYHASHVALUE :: "(nat \<Rightarrow> ptr option) \<Rightarrow> bool \<Rightarrow> field \<Rightarrow> unsigned \<Rightarrow> unsigned \<Rightarrow> ptr \<Rightarrow>
    ptr option \<Rightarrow> hash_mem \<Rightarrow> (int + hash_mem \<times> ptr option) option" where
  "HASH_ADD_BYHASHVALUE uthash_malloc NONFATAL fieldname keylen_in hashval add head s =
     HASH_ADD_KEYPTR_BYHASHVALUE uthash_malloc NONFATAL (field_key fieldname keylen_in add) hashval add head s"

definition HASH_ADD :: "(byte list \<Rightarrow> unsigned) \<Rightarrow> (nat \<Rightarrow> ptr option) \<Rightarrow> bool \<Rightarrow> field \<Rightarrow> unsigned \<Rightarrow> ptr \<Rightarrow>
    ptr option \<Rightarrow> hash_mem \<Rightarrow> (int + hash_mem \<times> ptr option) option" where
  "HASH_ADD H uthash_malloc NONFATAL fieldname keylen_in add head s =
     HASH_ADD_KEYPTR H uthash_malloc NONFATAL (field_key fieldname keylen_in add) add head s"

section \<open>In order\<close>

definition HASH_ADD_KEYPTR_INORDER :: "(ptr \<Rightarrow> ptr \<Rightarrow> int) \<Rightarrow> (byte list \<Rightarrow> unsigned) \<Rightarrow> (nat \<Rightarrow> ptr option) \<Rightarrow>
    bool \<Rightarrow> byte list \<Rightarrow> ptr \<Rightarrow> ptr option \<Rightarrow> hash_mem \<Rightarrow> (int + hash_mem \<times> ptr option) option" where
  "HASH_ADD_KEYPTR_INORDER cmpfcn H uthash_malloc NONFATAL k add head s =
     HASH_ADD_KEYPTR_BYHASHVALUE_INORDER cmpfcn uthash_malloc NONFATAL k (HASH_VALUE H k) add head s"

definition HASH_ADD_BYHASHVALUE_INORDER :: "(ptr \<Rightarrow> ptr \<Rightarrow> int) \<Rightarrow> (nat \<Rightarrow> ptr option) \<Rightarrow> bool \<Rightarrow> field \<Rightarrow>
    unsigned \<Rightarrow> unsigned \<Rightarrow> ptr \<Rightarrow> ptr option \<Rightarrow> hash_mem \<Rightarrow> (int + hash_mem \<times> ptr option) option" where
  "HASH_ADD_BYHASHVALUE_INORDER cmpfcn uthash_malloc NONFATAL fieldname keylen_in hashval add head s =
     HASH_ADD_KEYPTR_BYHASHVALUE_INORDER cmpfcn uthash_malloc NONFATAL (field_key fieldname keylen_in add)
       hashval add head s"

definition HASH_ADD_INORDER :: "(ptr \<Rightarrow> ptr \<Rightarrow> int) \<Rightarrow> (byte list \<Rightarrow> unsigned) \<Rightarrow> (nat \<Rightarrow> ptr option) \<Rightarrow> bool \<Rightarrow>
    field \<Rightarrow> unsigned \<Rightarrow> ptr \<Rightarrow> ptr option \<Rightarrow> hash_mem \<Rightarrow> (int + hash_mem \<times> ptr option) option" where
  "HASH_ADD_INORDER cmpfcn H uthash_malloc NONFATAL fieldname keylen_in add head s =
     HASH_ADD_KEYPTR_INORDER cmpfcn H uthash_malloc NONFATAL (field_key fieldname keylen_in add) add head s"

definition HASH_REPLACE_BYHASHVALUE_INORDER :: "(ptr \<Rightarrow> ptr \<Rightarrow> int) \<Rightarrow> (nat \<Rightarrow> ptr option) \<Rightarrow> bool \<Rightarrow> field \<Rightarrow>
    unsigned \<Rightarrow> unsigned \<Rightarrow> ptr \<Rightarrow> ptr option \<Rightarrow> hash_mem \<Rightarrow>
    (int + hash_mem \<times> ptr option \<times> ptr option) option" where
  "HASH_REPLACE_BYHASHVALUE_INORDER cmpfcn uthash_malloc NONFATAL fieldname keylen_in hashval add head s =
     (let k = field_key fieldname keylen_in add
      in case HASH_FIND_BYHASHVALUE k hashval head s of None \<Rightarrow> None
         | Some replaced \<Rightarrow>
           let (s, head) = (case replaced of None \<Rightarrow> (s, head) | Some r \<Rightarrow> HASH_DELETE_HH r head s)
           in case HASH_ADD_KEYPTR_BYHASHVALUE_INORDER cmpfcn uthash_malloc NONFATAL k hashval add head s of
                None \<Rightarrow> None
              | Some (Inl e) \<Rightarrow> Some (Inl e)
              | Some (Inr (s, head)) \<Rightarrow> Some (Inr (s, head, replaced)))"

definition HASH_REPLACE_INORDER :: "(ptr \<Rightarrow> ptr \<Rightarrow> int) \<Rightarrow> (byte list \<Rightarrow> unsigned) \<Rightarrow> (nat \<Rightarrow> ptr option) \<Rightarrow> bool \<Rightarrow>
    field \<Rightarrow> unsigned \<Rightarrow> ptr \<Rightarrow> ptr option \<Rightarrow> hash_mem \<Rightarrow> (int + hash_mem \<times> ptr option \<times> ptr option) option" where
  "HASH_REPLACE_INORDER cmpfcn H uthash_malloc NONFATAL fieldname keylen_in add head s =
     HASH_REPLACE_BYHASHVALUE_INORDER cmpfcn uthash_malloc NONFATAL fieldname keylen_in
       (HASH_VALUE H (field_key fieldname keylen_in add)) add head s"

definition HASH_SORT :: "(ptr \<Rightarrow> ptr \<Rightarrow> int) \<Rightarrow> ptr option \<Rightarrow> hash_mem \<Rightarrow> (hash_mem \<times> ptr option) option" where
  "HASH_SORT cmpfcn head s = HASH_SRT cmpfcn head s"

section \<open>Strings, integers and pointers\<close>

text \<open>The length of a C string, converted to \<open>unsigned\<close>: the bytes before the first NUL.\<close>

definition c_string :: "byte list \<Rightarrow> byte list" where
  "c_string s = takeWhile (\<lambda>b. b \<noteq> 0) s"

definition str_keylen :: "byte list \<Rightarrow> unsigned" where
  "str_keylen s = of_nat (length (c_string s))"

definition sizeof_int :: unsigned where "sizeof_int = 4"
definition sizeof_ptr :: unsigned where "sizeof_ptr = 8"

definition HASH_FIND_STR :: "(byte list \<Rightarrow> unsigned) \<Rightarrow> byte list \<Rightarrow> ptr option \<Rightarrow> hash_mem \<Rightarrow>
    ptr option option" where
  "HASH_FIND_STR H findstr head s =
     HASH_FIND H (take (unat (str_keylen findstr)) findstr) head s"

definition HASH_ADD_STR :: "(byte list \<Rightarrow> unsigned) \<Rightarrow> (nat \<Rightarrow> ptr option) \<Rightarrow> bool \<Rightarrow> field \<Rightarrow> ptr \<Rightarrow>
    ptr option \<Rightarrow> hash_mem \<Rightarrow> (int + hash_mem \<times> ptr option) option" where
  "HASH_ADD_STR H uthash_malloc NONFATAL strfield add head s =
     HASH_ADD H uthash_malloc NONFATAL strfield (str_keylen (strfield add)) add head s"

definition HASH_REPLACE_STR :: "(byte list \<Rightarrow> unsigned) \<Rightarrow> (nat \<Rightarrow> ptr option) \<Rightarrow> bool \<Rightarrow> field \<Rightarrow> ptr \<Rightarrow>
    ptr option \<Rightarrow> hash_mem \<Rightarrow> (int + hash_mem \<times> ptr option \<times> ptr option) option" where
  "HASH_REPLACE_STR H uthash_malloc NONFATAL strfield add head s =
     HASH_REPLACE H uthash_malloc NONFATAL (field_key strfield (str_keylen (strfield add)) add) add head s"

definition HASH_FIND_INT :: "(byte list \<Rightarrow> unsigned) \<Rightarrow> byte list \<Rightarrow> ptr option \<Rightarrow> hash_mem \<Rightarrow>
    ptr option option" where
  "HASH_FIND_INT H findint head s = HASH_FIND H (take (unat sizeof_int) findint) head s"

definition HASH_ADD_INT :: "(byte list \<Rightarrow> unsigned) \<Rightarrow> (nat \<Rightarrow> ptr option) \<Rightarrow> bool \<Rightarrow> field \<Rightarrow> ptr \<Rightarrow>
    ptr option \<Rightarrow> hash_mem \<Rightarrow> (int + hash_mem \<times> ptr option) option" where
  "HASH_ADD_INT H uthash_malloc NONFATAL intfield add head s =
     HASH_ADD H uthash_malloc NONFATAL intfield sizeof_int add head s"

definition HASH_REPLACE_INT :: "(byte list \<Rightarrow> unsigned) \<Rightarrow> (nat \<Rightarrow> ptr option) \<Rightarrow> bool \<Rightarrow> field \<Rightarrow> ptr \<Rightarrow>
    ptr option \<Rightarrow> hash_mem \<Rightarrow> (int + hash_mem \<times> ptr option \<times> ptr option) option" where
  "HASH_REPLACE_INT H uthash_malloc NONFATAL intfield add head s =
     HASH_REPLACE H uthash_malloc NONFATAL (field_key intfield sizeof_int add) add head s"

definition HASH_FIND_PTR :: "(byte list \<Rightarrow> unsigned) \<Rightarrow> byte list \<Rightarrow> ptr option \<Rightarrow> hash_mem \<Rightarrow>
    ptr option option" where
  "HASH_FIND_PTR H findptr head s = HASH_FIND H (take (unat sizeof_ptr) findptr) head s"

definition HASH_ADD_PTR :: "(byte list \<Rightarrow> unsigned) \<Rightarrow> (nat \<Rightarrow> ptr option) \<Rightarrow> bool \<Rightarrow> field \<Rightarrow> ptr \<Rightarrow>
    ptr option \<Rightarrow> hash_mem \<Rightarrow> (int + hash_mem \<times> ptr option) option" where
  "HASH_ADD_PTR H uthash_malloc NONFATAL ptrfield add head s =
     HASH_ADD H uthash_malloc NONFATAL ptrfield sizeof_ptr add head s"

definition HASH_REPLACE_PTR :: "(byte list \<Rightarrow> unsigned) \<Rightarrow> (nat \<Rightarrow> ptr option) \<Rightarrow> bool \<Rightarrow> field \<Rightarrow> ptr \<Rightarrow>
    ptr option \<Rightarrow> hash_mem \<Rightarrow> (int + hash_mem \<times> ptr option \<times> ptr option) option" where
  "HASH_REPLACE_PTR H uthash_malloc NONFATAL ptrfield add head s =
     HASH_REPLACE H uthash_malloc NONFATAL (field_key ptrfield sizeof_ptr add) add head s"

definition HASH_DEL :: "ptr \<Rightarrow> ptr option \<Rightarrow> hash_mem \<Rightarrow> hash_mem \<times> ptr option" where
  "HASH_DEL delptr head s = HASH_DELETE_HH delptr head s"

text \<open>The bytes that \<open>HASH_EMIT_KEY\<close> writes: the length as an \<open>unsigned\<close>, then the key.\<close>

definition HASH_EMIT_KEY :: "byte list \<Rightarrow> unsigned \<Rightarrow> byte list" where
  "HASH_EMIT_KEY keyptr fieldlen = le_bytes 4 fieldlen @ take (unat fieldlen) keyptr"

section \<open>What they do\<close>

text \<open>Replacement in order: the old element with the key goes, the new one is inserted at its place.\<close>

lemma delete_keeps_order:
  assumes hash: "ut_hash H s head xs" "sorted (map f xs)" and found: "ut_map s xs k = Some y"
    and res: "HASH_DELETE_HH y head s = (s', head')"
  shows "\<exists>ys. ut_hash H s' head' ys \<and> sorted (map f ys) \<and> ut_map s' ys = (ut_map s xs)(k := None)
    \<and> mset xs = add_mset y (mset ys)"
proof -
  have "y \<in> set xs" "key (hh s y) = k"
    using found hash(1) by (simp_all add: ut_hash_def ut_map_Some)
  then obtain us vs where xs: "xs = us @ y # vs"
    by (meson split_list)
  have "sorted (map f (us @ vs))"
    using hash(2) by (simp add: xs sorted_append)
  then show ?thesis
    using delete_map [OF hash(1) [unfolded xs] res] \<open>key (hh s y) = k\<close> xs by (intro exI [of _ "us @ vs"]) auto
qed

theorem replace_in_order:
  fixes f :: "ptr \<Rightarrow> 'a :: linorder"
  assumes hash: "ut_hash H s head xs" "sorted (map f xs)" and cmp: "\<And>x y. cmp x y \<le> 0 \<longleftrightarrow> f x \<le> f y"
    and new: "x \<notin> set xs" and len: "length xs + 1 < 2 ^ 32" and mem: "bounded_memory uthash_malloc"
    and k: "k = field_key fieldname keylen_in x"
    and room: "case without_key s head xs k of (s1, head1) \<Rightarrow> \<not> lacks_memory uthash_malloc head1 s1"
  shows "\<exists>s' head' ys. HASH_REPLACE_INORDER cmp H uthash_malloc NONFATAL fieldname keylen_in x head s
      = Some (Inr (s', head', ut_map s xs k))
    \<and> ut_hash H s' head' ys \<and> sorted (map f ys) \<and> ut_map s' ys = (ut_map s xs)(k \<mapsto> x)"
proof -
  have klen: "length k < 2 ^ 32"
  proof -
    have "unat keylen_in < 2 ^ 32"
      by (rule order_less_le_trans [OF unsigned_less]) simp
    then show ?thesis by (simp add: k field_key_def)
  qed
  obtain s1 head1 where del: "without_key s head xs k = (s1, head1)"
    by fastforce
  have "\<exists>ys. ut_hash H s1 head1 ys \<and> sorted (map f ys) \<and> ut_map s1 ys = (ut_map s xs)(k := None)
      \<and> set ys \<subseteq> set xs \<and> length ys \<le> length xs"
  proof (cases "ut_map s xs k")
    case None
    then have "ut_map s xs = (ut_map s xs)(k := None)"
      by auto
    then show ?thesis
      using None del hash by (intro exI [of _ xs]) (auto simp: without_key_def)
  next
    case (Some y)
    then obtain ys where ys: "ut_hash H s1 head1 ys" "sorted (map f ys)" "ut_map s1 ys = (ut_map s xs)(k := None)"
      "mset xs = add_mset y (mset ys)"
      using delete_keeps_order [OF hash Some, of s1 head1] del by (auto simp: without_key_def)
    have "set ys \<subseteq> set xs" "length ys \<le> length xs"
      using arg_cong [OF ys(4), of set_mset] arg_cong [OF ys(4), of size] by auto
    then show ?thesis
      using ys by blast
  qed
  then obtain ys where ys: "ut_hash H s1 head1 ys" "sorted (map f ys)" "ut_map s1 ys = (ut_map s xs)(k := None)"
    "set ys \<subseteq> set xs" "length ys \<le> length xs"
    by blast
  have ok: "ut_ok s1 head1 ys" and "x \<notin> set ys" "length ys + 1 < 2 ^ 32"
    using ys new len by (auto simp: ut_hash_def)
  obtain r where r: "HASH_ADD_KEYPTR_BYHASHVALUE_INORDER cmp uthash_malloc NONFATAL k (H k) x head1 s1 = Some r"
    "added NONFATAL (lacks_memory uthash_malloc head1 s1) (keyed x k (H k) s1) ys (insert_inorder cmp x ys) r"
    using add_inorder_ok [OF ok \<open>x \<notin> set ys\<close> \<open>length ys + 1 < 2 ^ 32\<close> mem] by blast
  then obtain s' head' where s': "r = Inr (s', head')" "ut_ok s' head' (insert_inorder cmp x ys)"
    "same_keys (keyed x k (H k) s1) (hh s')"
    using room by (cases r) (auto simp: added_def del)
  have "sorted (map f (insert_inorder cmp x ys))" and m: "mset (insert_inorder cmp x ys) = add_mset x (mset ys)"
    using sorted_insert_inorder [OF ys(2) cmp, of x] by simp_all
  moreover have "ut_hash H s' head' (insert_inorder cmp x ys)"
    "ut_map s' (insert_inorder cmp x ys) = (ut_map s xs)(k \<mapsto> x)"
    using keyed_keeps_hash [OF ys(1) \<open>x \<notin> set ys\<close> klen _ s'(3,2) m] ys(3) by simp_all
  moreover have "HASH_FIND_BYHASHVALUE k (H k) head s = Some (ut_map s xs k)"
    using find_map [OF hash(1) klen] by (simp add: HASH_FIND_def)
  then have "HASH_REPLACE_INORDER cmp H uthash_malloc NONFATAL fieldname keylen_in x head s
      = Some (Inr (s', head', ut_map s xs k))"
    using r(1) s'(1) del by (simp add: HASH_REPLACE_INORDER_def HASH_REPLACE_BYHASHVALUE_INORDER_def HASH_VALUE_def
        k [symmetric] without_key_def)
  ultimately show ?thesis
    by blast
qed

text \<open>A string is found by its characters, wherever it is stored and whatever follows its NUL.\<close>

lemma str_key: "length (c_string t) < 2 ^ 32 \<Longrightarrow> take (unat (str_keylen t)) t = c_string t"
  by (simp add: str_keylen_def c_string_def unat_of_nat takeWhile_eq_take [symmetric])

theorem find_str:
  assumes "ut_hash H s head xs" "length (c_string t) < 2 ^ 32"
  shows "HASH_FIND_STR H t head s = Some (ut_map s xs (c_string t))"
  using find_map [OF assms(1)] assms(2) by (simp add: HASH_FIND_STR_def str_key)

theorem add_str_then_find_str:
  assumes "ut_hash H s head xs" "x \<notin> set xs" "length xs + 1 < 2 ^ 32" "bounded_memory uthash_malloc"
    and "length (c_string (strfield x)) < 2 ^ 32" "ut_map s xs (c_string (strfield x)) = None"
    and "\<not> lacks_memory uthash_malloc head s"
  shows "\<exists>s' head'. HASH_ADD_STR H uthash_malloc NONFATAL strfield x head s = Some (Inr (s', head'))
    \<and> (\<forall>t. length (c_string t) < 2 ^ 32 \<longrightarrow> HASH_FIND_STR H t head' s' =
         Some (if c_string t = c_string (strfield x) then Some x else ut_map s xs (c_string t)))"
proof -
  obtain s' head' where a: "HASH_ADD_KEYPTR H uthash_malloc NONFATAL (c_string (strfield x)) x head s = Some (Inr (s', head'))"
    "ut_hash H s' head' (xs @ [x])" "ut_map s' (xs @ [x]) = (ut_map s xs)(c_string (strfield x) \<mapsto> x)"
    using add_map_enough [OF assms(1-7), of NONFATAL] by blast
  then show ?thesis
    using find_str [OF a(2)] assms(5) by (auto simp: HASH_ADD_STR_def HASH_ADD_def field_key_def str_key)
qed

text \<open>The bytes of an \<open>int\<close> or of a pointer determine it, so different ones are different keys.\<close>

lemma int_keys: "le_bytes 4 (i :: 32 word) = le_bytes 4 j \<longleftrightarrow> i = j"
proof
  have inv: "word_of_le (le_bytes 4 x) = x" for x :: "32 word"
    by (rule word_of_le_le_bytes) simp
  assume "le_bytes 4 i = le_bytes 4 j"
  then show "i = j" by (metis inv)
qed simp

theorem find_int:
  assumes "ut_hash H s head xs"
  shows "HASH_FIND_INT H (le_bytes 4 (i :: 32 word) @ rest) head s = Some (ut_map s xs (le_bytes 4 i))"
  using find_map [OF assms] by (simp add: HASH_FIND_INT_def sizeof_int_def)

text \<open>What \<open>HASH_EMIT_KEY\<close> writes can be read back: the length tells where the key ends.\<close>

theorem emitted_key_read_back:
  assumes "unat fieldlen \<le> length k" "out = HASH_EMIT_KEY k fieldlen @ rest"
  shows "word_of_le (take 4 out) = fieldlen" "take (unat fieldlen) (drop 4 out) = take (unat fieldlen) k"
    "drop (4 + unat fieldlen) out = rest"
  using assms by (simp_all add: HASH_EMIT_KEY_def word_of_le_le_bytes)

end
