(* ===== verification/Spec2Isabelle.thy ===== *)
theory Spec2Isabelle
  imports FileStore Losses FaultSpec UtForms
begin

text \<open>
  A verification library for cbfuse, a FUSE file system that keeps its files in a Couchbase
  bucket (the C sources in \<open>src/cbfuse\<close>), and for the hash table that comes with it
  (\<open>src/contrib/uthash/uthash.h\<close>, with \<open>src/cbfuse/custom-uthash.h\<close>).

  THE PROGRAM. FUSE calls the handlers of \<open>cbfuse.c\<close> one at a time (\<open>main\<close> adds the option
  \<open>-s\<close>). The state of the file system is in the bucket, in three collections of documents keyed
  by the path: \<open>stats\<close> (the bytes of a \<open>cbfuse_stat\<close>, \<open>stats.c\<close>), \<open>dentries\<close> (for a
  directory a JSON object with the names of its entries, \<open>dentries.c\<close>) and \<open>blocks\<close> (the
  contents of a file, one document, \<open>data.c\<close>). These three call \<open>sync_get.c\<close>, \<open>sync_store.c\<close>
  and \<open>sync_remove.c\<close>, which wait for the callbacks of the asynchronous libcouchbase. Nothing is
  cached between two calls.

  HOW IT IS MODELLED. The world outside the sources (libcouchbase with the server, clock, heap,
  FUSE context, cJSON; libfuse and the connection for \<open>main\<close>) is a parameter: the record \<open>env\<close>
  (Environment), with \<open>cjson_lib\<close> (CJson) in it, and \<open>launcher\<close> (Startup). Every C function is a
  definition of its own name in the library's \<open>state\<close> monad over the state of the world, with the
  calls in the order of the source; \<open>result_of m w\<close> is its result, \<open>after m w\<close> the world behind it.
  An error is the negative \<open>int\<close> of the source; \<open>goto done\<close> is the early return; undefined
  behaviour of C (an access outside a buffer, \<open>strlen(NULL)\<close>) is the value \<open>Undefined\<close>.
  \<open>size_t\<close>, \<open>off_t\<close> and \<open>mode_t\<close> are words of 64, 64 and 16 bits (Darwin, LP64), so sums of
  offset and size wrap as in C, and comparisons are signed where C makes them so.

  THE THEORIES, from the bottom up:
  Prelude (results of the state monad, little-endian words), CLib (error numbers, \<open>S_ISREG\<close>,
  \<open>dirname\<close>/\<open>basename\<close> by POSIX and the paths FUSE passes), Common (\<open>common.c\<close>), CJson,
  Environment (the calls of the world, and what the documentation of a Couchbase collection
  promises), Sync (\<open>sync_*.c\<close>; locale \<open>sync_layer\<close>, and \<open>quiet_sync_layer\<close> which extends it, both
  interpreted on the three functions), Contracts
  (locales \<open>document_op\<close> and \<open>document_table\<close> for operations on one document), RefEnv (a bucket in
  memory, for witnesses), Stats (\<open>stats.c\<close>; \<open>stat_bytes\<close> and \<open>stat_of_bytes\<close> fix how the structure
  lies in memory and translate no code), Dentries
  (\<open>dentries.c\<close>), Sharing (listings that other clients change), Blocks (\<open>data.c\<close>),
  Operations (the handlers and the root directory), Namespace (the abstract name space and its
  refinement), FileSystem (the table of handlers, histories of
  calls as an inductive relation, soundness of the name space), Files (sizes, contents, isolation,
  change time), FileStore (the abstract file system with contents and answers, and that the
  handlers simulate it over any history), Startup (\<open>cbfuse_init\<close>, the options and the usage text, \<open>main\<close>), Example (a concrete history for
  witnesses), Departures (more on results and on departures from the intent), Losses (the
  same program when some requests get a failing answer or none, and what the functions make of it),
  Faults (the program when calls fail and it can see that: every operation on a document leaves it
  or changes it as asked), FaultEx
  (a bucket in memory that loses answers, for witnesses), FaultSpec (properties under faults), and
  this theory with the properties of the file system.
  For the hash table: Chains (doubly linked lists in memory), UtHash (structures and macros, each a
  function from the memory before to the memory after; an allocator is the parameter
  \<open>uthash_malloc\<close>, the outcome \<open>None\<close> is a loop that never ends, \<open>Inl (-1)\<close> is \<open>uthash_fatal\<close>),
  UtHashInv, UtHashOps and UtHashAdd (the invariant and that expansion, deletion and addition keep
  it), UtHashMap (a hash as a finite map), UtHashProg (locale \<open>map_store\<close>: programs that use a hash,
  interpreted on the macros; the memory they need), UtHashRead (iteration, count, consistency check),
  UtSort and UtSortOk (\<open>HASH_SRT\<close>), UtSelect (\<open>HASH_SELECT\<close>), UtBloom (the Bloom filter), UtHashFun
  (the hash functions), UtExample (a concrete hash), UtHashSpec with the properties, and UtForms
  (the convenience forms: fields, strings and integers as keys, replacement in order).

  WHAT IS ASSUMED, where a theorem says so. \<open>kv_ok E D C\<close>: with \<open>D w\<close> the documents and \<open>C w\<close> their
  CAS values, a request whose key has 1 to 250 bytes is answered and carried out as documented:
  insert, replace with CAS, upsert, get, remove, documents of at most 20 MiB; and there is memory
  for the copies of such values that \<open>sync_get_callback\<close> makes. \<open>quiet\<close>: no other client changes
  documents meanwhile; \<open>server_ok\<close> is both. \<open>clock_ok\<close>, \<open>heap_ok\<close>: the clock works, \<open>malloc\<close> gives
  memory, with any contents. \<open>cjson_ok\<close>: nodes are built and looked up as the manual says and
  printed text parses back. \<open>world_ok\<close> is all of these and that the document of a new directory
  fits the server's limit. RefEnv has a world in which they all hold. C16 and C24 are without
  \<open>quiet\<close>. C21 and a few theorems of Departures assume nothing of the server (C21: its values are
  objects of C, \<open>values_fit\<close>). \<open>answers_instead\<close> (C23, C26): a world that behaves, but some requests
  are not carried out and get another answer, or none. \<open>faulty\<close> (C39, C40) is weaker than
  \<open>server_ok\<close>: every request is refused, served, or answered with a failure and then was carried out
  or was not; clock, heap, the copies and the building of commands may fail too, and another client
  may have changed the CAS values. \<open>bounded_memory\<close>: the allocator refuses the 64 GB that a doubling
  of \<open>2 ^ 31\<close> buckets asks for.

  WHAT IS SHOWN. The name space: each handler does to the listings and modes what its abstract
  operation does, errors included (C3 to C6); with the contents and the answers of the calls the
  whole file system is an abstract one (C2). So over any history no listing has a dangling name
  (C1) and every document has the type it is read as (C27). Files: a write replaces its range, a
  read returns it, sizes stay right (C7 to C11), written data stay until the file is changed
  (C12), other paths are untouched (C13). Stats: insertion and removal, protection by CAS values,
  attribute changes (C15 to C17). Bootstrap and directories (C18 to C20), reads stay in their
  buffers (C21), \<open>main\<close> (C22). C14, C23 to C26 and Departures state where the code departs from what
  it means to do, each as it behaves. With faults that the program sees listings still do not
  dangle, but for names that somebody removes (C39); a lost insertion that looks like a success
  makes one dangle (C26), and a removal can make one dangle and report success (C40). The hash
  table: it answers like a finite map (C28), addition, deletion and lookup (C29 to C31), its
  consistency check (C32), sorting (C33, C34), iteration with deletion (C35), ordered insertion
  (C36), the fault of \<open>HASH_SELECT\<close> (C37), the Bloom filter (C38).

  BOUNDS. The recursion of the file system is structural, the loops of the hash table are partial
  functions that are shown to end; no fuel is used in the model of the program (the parser in
  RefEnv has the length of its text as fuel, which \<open>take_put_json\<close> shows to be enough). Theorems
  on writes bound the end of the range by the size of a document or by \<open>2 ^ 64\<close>.

  NOT MODELLED. Traces and diagnostics on stderr (those before connecting, with the usage text,
  are modelled), the open callback, freeing of memory; the
  failure of small allocations (\<open>calloc\<close> of a result, \<open>strdup\<close> of a key, the copy of a value of at
  most 256 bytes), which the code does not test (that of a larger copy is modelled as the NULL it
  gives); libcouchbase, cJSON, libfuse, xxhash themselves. Of \<open>uthash.h\<close>:
  the variants for compilers without \<open>decltype\<close> and the hooks that log an expansion.
  No source file of \<open>cbfuse\<close> includes the hash table; it is modelled as the library it is.
\<close>

section \<open>The name space\<close>

text \<open>
  C1. In every state of a mounted file system, whatever sequence of calls led to it, a name that
  \<open>cbfuse_readdir\<close> lists in a directory is one for which \<open>cbfuse_getattr\<close> then finds attributes:
  no listing has a dangling entry.
\<close>

theorem listed_names_have_attributes:
  assumes "world_ok E D C" and "mounted E D (\<lambda>_. fuse_call) w" and "key_ok d"
    and "c \<in> set (map fst (snd (result_of (cbfuse_readdir E d [] collect off) w)))"
  shows "\<exists>attr. result_of (cbfuse_getattr E (join d c) st) w = (0, attr)"
proof -
  note s = mounted_ns_sound [OF assms(1,2)]
  obtain cs where "dir_children (cjson E) (D w) d = Some cs" "c \<in> set cs"
    using listed_child [OF assms(1) mounted_readable [OF assms(1,2)] assms(3,4)] by blast
  then have p: "fuse_path (join d c)" and "ns_mode (abs_ns (cjson E) (D w)) (join d c) \<noteq> None"
    using ns_soundD(4,5) [OF s, of d cs c] by auto
  then obtain s where "stat_at (D w) (join d c) = Some s" by auto
  from getattr_found [OF world_okD(2) [OF assms(1)] fuse_path_parts(3) [OF p] this]
  show ?thesis by blast
qed

theorem listed_names_have_attributes_witness:
  "\<exists>attr. result_of (cbfuse_getattr mem_env ''/a'' some_attr) mem_file = (0, attr)"
proof -
  have "result_of (cbfuse_readdir mem_env ''/'' [] collect 0) mem_file = (0, [(''a'', 1)])"
    using readdir_spec [of mem_env mem_view mem_cas "''/''" mem_file "[''a'']" 0] mem_file_dir
    by (simp add: key_ok_def)
  then have "\<exists>attr. result_of (cbfuse_getattr mem_env (join ''/'' ''a'') some_attr) mem_file = (0, attr)"
    by (intro listed_names_have_attributes [OF mem_world_ok mem_file_mounted, where off = 0])
      (simp_all add: key_ok_def)
  then show ?thesis by (simp add: join_def)
qed

text \<open>
  C2. The mounted file system is the abstract one. Every call that a well-behaved program makes is
  free of undefined behaviour and answers what the abstract operation answers, from the listings,
  modes and contents there are; afterwards the listings, modes and contents of all paths are
  those the abstract operation makes. Nothing else is open than the bytes that a write puts
  between the old end of the file and its offset.
\<close>

theorem calls_refine_file_system:
  assumes "world_ok E D C" "mounted E D file_use w" "file_use (D w) c"
  defines "room \<equiv> has_room (cjson E) (D w) (op_path c)" and "A \<equiv> abs_fs (cjson E) (D w)"
    and "call \<equiv> cb_filesystem_operations E (\<lambda>b n off. (0, b)) () c"
  shows "result_of call w = Defined (fs_answer room c A) \<and>
    (\<exists>filling. length filling = gap c (fs_data A) \<and>
      abs_fs (cjson E) (D (after call w)) = fs_exec room filling c A)"
  unfolding room_def A_def call_def
  using call_simulated [OF assms(1,3) file_use_mounted [OF assms(1,2)]] by blast

theorem calls_refine_file_system_witness:
  "result_of (cb_filesystem_operations mem_env (\<lambda>b n off. (0, b)) () (Write ''/a'' [104, 105] 2 3)) mem_file = Defined 2"
proof -
  obtain s where "stat_at (mem_view mem_file) ''/a'' = Some s" using mem_file_stat by blast
  then have use: "file_use (mem_view mem_file) (Write ''/a'' [104, 105] 2 3)"
    by (simp add: file_use_def well_used_def fuse_call_def)
  have "mounted mem_env mem_view file_use mem_file"
    by (rule mem_file_mounted) (simp add: file_use_def well_used_def)
  from calls_refine_file_system [OF mem_world_ok this use] show ?thesis by simp
qed

text \<open>
  C3. \<open>cbfuse_create\<close>: refuses a mode that is not that of a regular file (\<open>-EINVAL\<close>) and a path
  that has a stat (\<open>-ENOENT\<close>) and then changes nothing; otherwise it makes the stat and appends
  the name to the parent's listing, if there is a parent and room in its document.
\<close>

theorem create_refines_ns_create:
  assumes "world_ok E D C" and "mounted E D (\<lambda>_. fuse_call) w" and "fuse_path p"
  shows "run_ns E D (cbfuse_create E p mode) w =
    ns_create (has_room (cjson E) (D w) p) p mode (abs_ns (cjson E) (D w))"
  by (rule create_refines(1) [OF world_okD(1,4) [OF assms(1)] assms(3)
      mounted_readable [OF assms(1,2)]])

theorem create_refines_ns_create_witness:
  "run_ns mem_env mem_view (cbfuse_create mem_env ''/a'' 0x81A4) mem_file
    = (- ENOENT, \<lparr>ns_dirs = [''/'' \<mapsto> [''a'']], ns_mode = [''/'' \<mapsto> S_IFDIR OR 0x1ED, ''/a'' \<mapsto> 0x81A4]\<rparr>)"
  using create_refines_ns_create [OF mem_world_ok mem_file_mounted fuse_path_a, of "0x81A4"]
  by (simp add: mem_file_ns ns_create_def S_ISREG_def del: abs_ns_simps)

text \<open>
  C4. \<open>cbfuse_mkdir\<close>: a path that has a stat is refused and nothing changes; otherwise the stat
  is made with the mode as it came, then the empty directory (refused when there is one already),
  then the name is appended to the parent's listing.
\<close>

theorem mkdir_refines_ns_mkdir:
  assumes "world_ok E D C" and "mounted E D (\<lambda>_. fuse_call) w" and "fuse_path p"
  shows "run_ns E D (cbfuse_mkdir E p mode) w =
    ns_mkdir (has_room (cjson E) (D w) p) p mode (abs_ns (cjson E) (D w))"
  by (rule mkdir_refines(1) [OF world_okD(1,4) [OF assms(1)] assms(3)
      world_okD(7) [OF assms(1,3)] mounted_readable [OF assms(1,2)]])

theorem mkdir_refines_ns_mkdir_witness:
  "run_ns mem_env mem_view (cbfuse_mkdir mem_env ''/a'' 0x41ED) mem_mounted
    = (0, \<lparr>ns_dirs = [''/'' \<mapsto> [''a''], ''/a'' \<mapsto> []],
           ns_mode = [''/'' \<mapsto> S_IFDIR OR 0x1ED, ''/a'' \<mapsto> 0x41ED]\<rparr>)"
  using mkdir_refines_ns_mkdir [OF mem_world_ok mem_mounted_mounted fuse_path_a, of "0x41ED"]
    mem_mounted_room
  by (auto simp: mem_mounted_ns root_ns_def ROOT_DIR_STRING_def ns_mkdir_def ns_add_def parts_a
      fun_eq_iff simp del: abs_ns_simps)

text \<open>
  C5. \<open>cbfuse_unlink\<close>: the path has no stat and the parent does not list it afterwards, whatever
  there was before; the result tells whether there was a stat.
\<close>

theorem unlink_refines_ns_unlink:
  assumes "world_ok E D C" and "mounted E D (\<lambda>_. fuse_call) w" and "fuse_path p"
  shows "run_ns E D (cbfuse_unlink E p) w = ns_unlink p (abs_ns (cjson E) (D w))"
  by (rule unlink_refines(1) [OF world_okD(1) [OF assms(1)] assms(3)
      mounted_readable [OF assms(1,2)]])

theorem unlink_refines_ns_unlink_witness:
  "run_ns mem_env mem_view (cbfuse_unlink mem_env ''/a'') mem_file
    = (0, \<lparr>ns_dirs = [''/'' \<mapsto> []], ns_mode = [''/'' \<mapsto> S_IFDIR OR 0x1ED]\<rparr>)"
  using unlink_refines_ns_unlink [OF mem_world_ok mem_file_mounted fuse_path_a]
  by (simp add: mem_file_ns ns_unlink_def ns_drop_def parts_a fun_upd_twist del: abs_ns_simps)

text \<open>
  C6. \<open>cbfuse_rmdir\<close>: the directory's listing, its stat and its name in the parent are gone
  afterwards, whether or not it had entries; the result tells whether there was a stat.
\<close>

theorem rmdir_refines_ns_rmdir:
  assumes "world_ok E D C" and "mounted E D (\<lambda>_. fuse_call) w" and "fuse_path p"
  shows "run_ns E D (cbfuse_rmdir E p) w = ns_rmdir p (abs_ns (cjson E) (D w))"
  by (rule rmdir_refines(1) [OF world_okD(1) [OF assms(1)] assms(3)
      mounted_readable [OF assms(1,2)]])

theorem rmdir_refines_ns_rmdir_witness:
  "run_ns mem_env mem_view (cbfuse_rmdir mem_env ''/a'') mem_dir
    = (0, \<lparr>ns_dirs = [''/'' \<mapsto> []], ns_mode = [''/'' \<mapsto> S_IFDIR OR 0x1ED]\<rparr>)"
  using rmdir_refines_ns_rmdir [OF mem_world_ok mem_dir_mounted fuse_path_a]
  by (simp add: mem_dir_ns ns_rmdir_def ns_unlink_def ns_drop_def parts_a fun_upd_twist
      del: abs_ns_simps)

text \<open>
  C27. The documents of a mounted file system are of the types the code reads them as: every
  document of the collection \<open>stats\<close> is 64 bytes, those of a \<open>cbfuse_stat\<close>, and every document
  of \<open>dentries\<close> is JSON with an array of distinct names that are path components.
\<close>

theorem documents_well_typed:
  assumes "world_ok E D C" "mounted E D (\<lambda>_. fuse_call) w"
  shows "(\<forall>p v. D w (stat_id p) = Some v \<longrightarrow> (\<exists>s. v = stat_bytes s)) \<and>
    (\<forall>p t. D w (dentry_id p) = Some t \<longrightarrow> (\<exists>j cs. cJSON_ParseWithLength (cjson E) t = Some j \<and>
       dentry_children j = Some cs \<and> distinct cs \<and> (\<forall>c \<in> set cs. name_ok c)))"
proof (intro conjI allI impI)
  note rd = mounted_readable [OF assms] and sound = mounted_ns_sound [OF assms]
  fix p v assume v: "D w (stat_id p) = Some v"
  then have "stat_at (D w) p \<noteq> None"
    using rd by (simp add: readable_def)
  then obtain s where "stat_at (D w) p = Some s" by blast
  from stat_at_SomeD [OF this] show "\<exists>s. v = stat_bytes s" using v by auto
next
  note rd = mounted_readable [OF assms] and sound = mounted_ns_sound [OF assms]
  fix p t assume t: "D w (dentry_id p) = Some t"
  then obtain cs where cs: "dir_children (cjson E) (D w) p = Some cs"
    using rd unfolding readable_def by fastforce
  then show "\<exists>j cs. cJSON_ParseWithLength (cjson E) t = Some j \<and> dentry_children j = Some cs
      \<and> distinct cs \<and> (\<forall>c \<in> set cs. name_ok c)"
    using ns_soundD(2,3) [OF sound, of p cs] t
    by (auto simp: dir_children_def dentry_tree_def bind_eq_Some_conv split: option.splits if_splits)
qed

theorem documents_well_typed_witness:
  "\<exists>j. cJSON_ParseWithLength ref_cjson (the (mem_view mem_file (dentry_id ''/''))) = Some j"
proof -
  obtain t where "mem_view mem_file (dentry_id ''/'') = Some t"
    using mem_file_dir by (auto simp: dir_children_def bind_eq_Some_conv)
  then show ?thesis
    using documents_well_typed [OF mem_world_ok mem_file_mounted] by fastforce
qed

section \<open>Files\<close>

text \<open>
  C7. In every state of a mounted file system whose users write data to files that exist, cut
  files at most to their length and remove directories as directories, the size in the stat of
  every path is the number of bytes of its contents, and no path without a stat has contents.
\<close>

theorem size_is_length_of_contents:
  assumes "world_ok E D C" and "mounted E D well_used w"
  shows "sizes_match (D w)"
  by (rule mounted_sizes [OF assms])

theorem size_is_length_of_contents_witness: "sizes_match (mem_view mem_file)"
  by (rule size_is_length_of_contents [OF mem_world_ok mem_file_mounted])
    (simp add: well_used_def)

text \<open>
  C8. What was written is read back: after a write of \<open>b\<close> at \<open>off\<close> to an existing file, within the
  limit of a document, a read of as many bytes at the same offset returns their number and
  exactly \<open>b\<close>.
\<close>

theorem write_then_read:
  fixes E :: "'w env"
  assumes "server_ok E D C" "clock_ok E" "heap_ok E" "key_ok p" "stat_at (D w) p = Some s"
    and "b \<noteq> []" "unat off + length b \<le> 20971520"
  defines "n \<equiv> of_nat (length b)"
  shows "result_of (cbfuse_write E p b n off) w = Defined (int (length b)) \<and>
    result_of (cbfuse_read E p n off) (after (cbfuse_write E p b n off) w)
      = Defined (int (length b), b)"
  unfolding n_def by (rule write_read [OF assms(1-7)])

theorem write_then_read_witness:
  "result_of (cbfuse_read mem_env ''/a'' 2 3)
      (after (cbfuse_write mem_env ''/a'' [104, 105] 2 3) mem_file) = Defined (2, [104, 105])"
proof -
  obtain s where "stat_at (mem_view mem_file) ''/a'' = Some s" using mem_file_stat by blast
  from write_then_read [OF mem_env_server_ok mem_env_clock_ok mem_env_heap_ok key_ok_a this,
      of "[104, 105]" 3]
  show ?thesis by simp
qed

text \<open>
  C9. A write within the limit of a document returns the number of bytes written. The contents
  are the old ones with the range replaced, where a gap behind the old end is filled with
  whatever the heap held. When the file grows, the new size is the end of the range and
  \<open>st_mtime\<close> the time the clock shows once the contents are stored and the stat is read again.
  A write inside the file leaves the whole stat as it was, \<open>st_mtime\<close> included, although
  \<open>stats.h\<close> calls that field the time of the last modification of the data.
\<close>

theorem write_replaces_range:
  assumes "server_ok E D C" "clock_ok E" "heap_ok E" "key_ok p" "stat_at (D w) p = Some s"
    and "b \<noteq> []" "unat off + length b \<le> 20971520"
  defines "c \<equiv> content (D w) p" and "w' \<equiv> after (cbfuse_write E p b (of_nat (length b)) off) w"
    and "t \<equiv> update_time E p (after (update_block E p (Some b) (of_nat (length b)) off (Some 0)) w)"
  shows "result_of (cbfuse_write E p b (of_nat (length b)) off) w = Defined (int (length b)) \<and>
    (\<exists>filling. length filling = unat off - length c \<and>
      content (D w') p = take (unat off) (c @ filling) @ b @ drop (unat off + length b) c) \<and>
    stat_at (D w') p = Some (if length c < unat off + length b
      then s\<lparr>st_mtime := tv_sec t, st_mtimensec := tv_nsec t, st_size := of_nat (unat off + length b)\<rparr>
      else s)"
  using write_data_at [OF assms(1-7)] assms(5)
  unfolding c_def w'_def t_def cbfuse_write_def
  by (auto simp: content_def file_write_def stat_at_docs split: if_splits)

theorem write_replaces_range_witness:
  "result_of (cbfuse_write mem_env ''/a'' [104, 105] 2 3) mem_file = Defined 2"
proof -
  obtain s where "stat_at (mem_view mem_file) ''/a'' = Some s" using mem_file_stat by blast
  from write_replaces_range [OF mem_env_server_ok mem_env_clock_ok mem_env_heap_ok key_ok_a this,
      of "[104, 105]" 3]
  show ?thesis by simp
qed

text \<open>
  C10. Reading a file that has contents, at an offset that is not negative: at or behind the end
  the result is 0 and nothing changes; before it the result is the number of bytes there are in
  the range, at most the number asked for, with those bytes, and nothing changes but the access
  time of the stat, to the time the clock shows once the contents and the stat are read.
\<close>

theorem read_returns_range:
  assumes "server_ok E D C" "clock_ok E" "key_ok p" "stat_at (D w) p = Some s"
    and "D w (block_id p) = Some v" "0 \<le> sint off" "unat n < 2 ^ 31"
  defines "w' \<equiv> after (cbfuse_read E p n off) w"
    and "t \<equiv> update_time E p (after (get_block E p) w)"
  shows "result_of (cbfuse_read E p n off) w =
      (if length v \<le> unat off then Defined (0, [])
       else Defined (int (min (unat n) (length v - unat off)), take (unat n) (drop (unat off) v))) \<and>
    D w' = (if length v \<le> unat off then D w
       else (D w)(stat_id p \<mapsto> stat_bytes (s\<lparr>st_atime := tv_sec t, st_atimensec := tv_nsec t\<rparr>)))"
  unfolding w'_def t_def cbfuse_read_def by (rule read_data_at [OF assms(1-7)])

theorem read_returns_range_witness:
  "result_of (cbfuse_read mem_env ''/a'' 10 1)
     (mem_with (one_file zero_stat [7, 8, 9])) = Defined (2, [8, 9])"
  using read_returns_range [of mem_env mem_view mem_cas "''/a''"
      "mem_with (one_file zero_stat [7, 8, 9])" zero_stat "[7, 8, 9]" 1 10]
  by simp

text \<open>
  C11. Truncating an existing file to at most its length (to zero only when it has contents)
  succeeds: the contents are cut to the offset, \<open>st_size\<close> is the offset, and \<open>st_mtime\<close> the
  time the clock shows once the contents are cut (at zero: removed) and the stat is read.
\<close>

theorem truncate_cuts:
  assumes "server_ok E D C" "clock_ok E" "key_ok p" "stat_at (D w) p = Some s"
    and "unat off \<le> length (content (D w) p) \<and> (off = 0 \<longrightarrow> D w (block_id p) \<noteq> None)"
  defines "w' \<equiv> after (cbfuse_truncate E p off) w"
    and "t \<equiv> update_time E p (if off = 0 then after (remove_data E p) w
      else after (update_block E p None 0 off None) w)"
  shows "result_of (cbfuse_truncate E p off) w = Defined 0 \<and>
    content (D w') p = take (unat off) (content (D w) p) \<and>
    stat_at (D w') p = Some
      (s\<lparr>st_mtime := tv_sec t, st_mtimensec := tv_nsec t, st_size := off\<rparr>)"
  using truncate_data_at [OF assms(1-5)] unfolding w'_def t_def cbfuse_truncate_def
  by (auto simp: content_def stat_at_docs)

theorem truncate_cuts_witness:
  "content (mem_view (after (cbfuse_truncate mem_env ''/a'' 2)
     (mem_with (one_file zero_stat [7, 8, 9])))) ''/a'' = [7, 8]"
  using truncate_cuts [of mem_env mem_view mem_cas "''/a''"
      "mem_with (one_file zero_stat [7, 8, 9])" zero_stat 2]
  by simp

text \<open>
  C12. What was written stays. After a write within the limit of a document and any further calls
  of well-behaved programs, other than writes, truncations and removals of the same path, a read
  at the same offset returns exactly the bytes that were written.
\<close>

theorem written_data_stays:
  assumes "world_ok E D C" "mounted E D file_use w"
    and "fs_step E D file_use w (Write p b n off) r w1" "unat off + length b \<le> 20971520"
    and "fs_run E D file_use w1 h w2" "\<forall>(c, r) \<in> set h. \<not> edits_path p c"
  shows "r = int (length b) \<and> result_of (cbfuse_read E p n off) w2 = Defined (int (length b), b)"
  by (rule written_stays [OF assms])

theorem written_data_stays_witness:
  "result_of (cbfuse_read mem_env ''/a'' 2 3) (mem_call (Chmod ''/a'' 0x8180)
     (mem_call (Write ''/a'' [104, 105] 2 3) mem_file)) = Defined (2, [104, 105])"
proof -
  let ?w1 = "mem_call (Write ''/a'' [104, 105] 2 3) mem_file"
  have m: "mounted mem_env mem_view file_use mem_file"
    by (rule mem_file_mounted) (simp add: file_use_def well_used_def)
  obtain s where s: "stat_at (mem_view mem_file) ''/a'' = Some s" using mem_file_stat by blast
  have "result_of (cbfuse_write mem_env ''/a'' [104, 105] 2 3) mem_file = Defined 2"
    using write_read [OF mem_env_server_ok mem_env_clock_ok mem_env_heap_ok key_ok_a s, of "[104, 105]" 3]
    by simp
  with s have wr: "fs_step mem_env mem_view file_use mem_file (Write ''/a'' [104, 105] 2 3) 2 ?w1"
    by (simp add: fs_step_simps mem_call_def file_use_def well_used_def fuse_call_def)
  have "fs_run mem_env mem_view file_use ?w1
      [(Chmod ''/a'' 0x8180, result_of (cbfuse_chmod mem_env ''/a'' 0x8180) ?w1)] (mem_call (Chmod ''/a'' 0x8180) ?w1)"
    by (rule fs_run.step [OF _ fs_run.start])
      (simp add: fs_step_simps mem_call_def file_use_def well_used_def fuse_call_def)
  from written_data_stays [OF mem_world_ok m wr _ this] show ?thesis by simp
qed

text \<open>
  C13. A call on one path leaves the stat and the contents of every other path as they are,
  whatever it returns.
\<close>

theorem calls_are_isolated:
  assumes "world_ok E D C" "fuse_call c" "q \<noteq> op_path c"
  shows "file_at (D (after (cb_filesystem_operations E filler buf c) w)) q = file_at (D w) q"
  by (rule call_isolated [OF assms])

theorem calls_are_isolated_witness:
  "file_at (mem_view (after (cb_filesystem_operations mem_env (\<lambda>b n off. (0, b)) () (Unlink ''/b''))
     (mem_with (one_file zero_stat [7])))) ''/a'' = (Some zero_stat, Some [7])"
proof -
  have "fuse_path ''/b''"
    by (simp add: fuse_path_def key_ok_def text_ok_def path_parts)
  then have "fuse_call (Unlink ''/b'')" by (simp add: fuse_call_def fuse_path_def)
  from calls_are_isolated [OF mem_world_ok this, of "''/a''" "\<lambda>b n off. (0, b)" "()"
      "mem_with (one_file zero_stat [7])"]
  show ?thesis by (simp add: file_at_def)
qed

section \<open>Stats\<close>

text \<open>
  C15. \<open>insert_stat\<close> makes a stat where there is none, a second one for the path is refused with
  \<open>-ENOENT\<close>, and \<open>remove_stat\<close> takes it away again, leaving every document as it was.
\<close>

theorem insert_then_remove_stat:
  fixes mode :: mode_t
  assumes "server_ok E D C" "clock_ok E" "key_ok p" "D w (stat_id p) = None"
  defines "w' \<equiv> after (insert_stat E p mode) w"
  shows "result_of (insert_stat E p mode) w = 0 \<and>
    result_of (insert_stat E p mode') w' = - ENOENT \<and>
    result_of (remove_stat E p) w' = 0 \<and> D (after (remove_stat E p) w') = D w"
proof -
  have "clocked E D C" using assms(1,2) by (simp add: clocked_def)
  then show ?thesis
    using stat_table.insert_remove [where e = E and D = D and C = C and p = p and a = mode and w = w]
      stat_table.insert_twice [where e = E and D = D and C = C and p = p and a = mode and b = mode' and w = w]
      assms(3,4) unfolding w'_def by simp
qed

theorem insert_then_remove_stat_witness:
  "result_of (remove_stat mem_env ''/a'') (after (insert_stat mem_env ''/a'' 0x81A4) mem_empty) = 0"
  using insert_then_remove_stat [where E = mem_env and D = mem_view and C = mem_cas and
      p = "''/a''" and w = mem_empty and mode = "0x81A4"] by simp

text \<open>
  C16. Changes of a stat do not overwrite those of another client: when the stat's CAS value
  changes between the read and the store, \<open>update_stat_mode\<close> (and so \<open>cbfuse_chmod\<close>) returns
  \<open>-ENOENT\<close> and the documents are those the other client left. Other clients may change
  documents at any time here (\<open>kv_ok\<close> without \<open>quiet\<close>).
\<close>

theorem stale_stat_not_overwritten:
  fixes m :: mode_t
  assumes "kv_ok E D C" "key_ok p"
    and "result_of (get_stat E p zero_stat (Some 0)) w = (0, s, Some cas)" "cas \<noteq> 0"
  defines "w' \<equiv> after (lcb_prepare E (replace_calls p (s\<lparr>st_mode := m\<rparr>) cas) new_request)
    (after (get_stat E p zero_stat (Some 0)) w)"
  assumes "C w' (stat_id p) \<noteq> cas"
  shows "result_of (cbfuse_chmod E p m) w = - ENOENT \<and> D (after (cbfuse_chmod E p m) w) = D w'"
  using stale_replace_stat [OF assms(1,2,4), of "s\<lparr>st_mode := m\<rparr>" "after (get_stat E p zero_stat (Some 0)) w"]
    assms(3,6)
  by (simp add: cbfuse_chmod_def update_stat_mode_def w'_def)

theorem stale_stat_not_overwritten_witness:
  "result_of (cbfuse_chmod busy_env ''/a'' 0x81A4) (mem_with (one_file zero_stat [])) = - ENOENT"
proof -
  let ?w = "mem_with (one_file zero_stat [])"
  have "result_of (get_stat busy_env ''/a'' zero_stat (Some 0)) ?w = (0, zero_stat, Some 1)"
    by (simp add: busy_get_stat)
  from stale_stat_not_overwritten [OF busy_env_kv_ok key_ok_a this, where m = "0x81A4"]
  show ?thesis
    by (simp add: replace_calls_def lcb_prepare.simps busy_env_calls other_client_def)
qed

text \<open>
  C17. \<open>cbfuse_chmod\<close> changes the mode of an existing path and nothing else. \<open>cbfuse_utimens\<close>
  sets its access time from the first of the two times given and its modification time from the
  second, each by the rule of \<open>utimensat\<close> (\<open>touched\<close>: without times, or with \<open>UTIME_NOW\<close>, the
  time the clock shows once the stat is read; with \<open>UTIME_OMIT\<close> the old one; otherwise the time
  given), and nothing else. Both succeed.
\<close>

theorem attribute_changes:
  fixes tv :: "(timespec \<times> timespec) option"
  assumes "server_ok E D C" "clock_ok E" "key_ok p" "stat_at (D w) p = Some s"
  defines "t \<equiv> update_time E p w"
  defines "a \<equiv> touched (map_option fst tv) t \<lparr>tv_sec = st_atime s, tv_nsec = st_atimensec s\<rparr>"
    and "m \<equiv> touched (map_option snd tv) t \<lparr>tv_sec = st_mtime s, tv_nsec = st_mtimensec s\<rparr>"
  shows "result_of (cbfuse_chmod E p mode) w = 0 \<and>
    D (after (cbfuse_chmod E p mode) w) = (D w)(stat_id p \<mapsto> stat_bytes (s\<lparr>st_mode := mode\<rparr>)) \<and>
    result_of (cbfuse_utimens E p tv) w = 0 \<and>
    D (after (cbfuse_utimens E p tv) w) = (D w)(stat_id p \<mapsto> stat_bytes
      (s\<lparr>st_atime := tv_sec a, st_atimensec := tv_nsec a, st_mtime := tv_sec m, st_mtimensec := tv_nsec m\<rparr>))"
  unfolding cbfuse_chmod_def cbfuse_utimens_def
  using update_stat_mode_spec [OF assms(1,3,4)] update_stat_utimens_at [OF assms(1-4), of tv]
  by (simp add: apply_utimens_touched access_time_def modification_time_def Let_def t_def a_def m_def)

theorem attribute_changes_witness:
  "mem_view (after (cbfuse_utimens mem_env ''/a'' (Some (\<lparr>tv_sec = 3, tv_nsec = 4\<rparr>, \<lparr>tv_sec = 5, tv_nsec = UTIME_OMIT\<rparr>)))
      (mem_with (one_file zero_stat [7])))
    = one_file (zero_stat\<lparr>st_atime := 3, st_atimensec := 4\<rparr>) [7]"
  using attribute_changes [of mem_env mem_view mem_cas "''/a''" "mem_with (one_file zero_stat [7])"
      zero_stat 0 "Some (\<lparr>tv_sec = 3, tv_nsec = 4\<rparr>, \<lparr>tv_sec = 5, tv_nsec = UTIME_OMIT\<rparr>)"]
  by (simp add: one_file_put touched_def zero_stat_def)

section \<open>Directories and the bootstrap\<close>

text \<open>
  C18. On an empty bucket the check at start-up succeeds and installs exactly the root: an empty
  directory with mode 0755. A second start finds it, succeeds and changes nothing.
\<close>

theorem bootstrap_installs_root:
  fixes st :: file_attr
  assumes "world_ok E D C" "D w = (\<lambda>_. None)"
  defines "w' \<equiv> after (verify_root E st) w"
  shows "result_of (verify_root E st) w = 0 \<and> abs_ns (cjson E) (D w') = root_ns \<and>
    result_of (verify_root E st') w' = 0 \<and> D (after (verify_root E st') w') = D w'"
proof -
  have s: "server_ok E D C" by (rule world_okD(2) [OF assms(1)])
  have ns: "abs_ns (cjson E) (D w') = root_ns"
    using boot_ns(1) [OF assms(1,2)] unfolding w'_def by blast
  from arg_cong [OF ns, where f = "\<lambda>ns. ns_mode ns ROOT_DIR_STRING"]
  obtain r where r: "stat_at (D w') ROOT_DIR_STRING = Some r" "st_mode r = S_IFDIR OR 0x1ED"
    by (auto simp: root_ns_def)
  then have "S_ISDIR (st_mode r)" by (metis S_ISDIR_root)
  with getattr_found [OF s root_key r(1), of st'] getattr_docs [OF s root_key, of st' w']
  have "result_of (verify_root E st') w' = 0 \<and> D (after (verify_root E st') w') = D w'"
    by (auto simp: verify_root_def fill_attr_def)
  then show ?thesis using ns verify_root_empty(1) [OF assms(1,2)] by simp
qed

theorem bootstrap_installs_root_witness:
  "result_of (verify_root mem_env some_attr) (after (verify_root mem_env some_attr) mem_empty) = 0"
  using bootstrap_installs_root [OF mem_world_ok mem_view_empty] by blast

text \<open>
  C19. Adding a name to a directory and removing it again, both with result 0, gives the listing
  there was before.
\<close>

theorem add_then_remove_child:
  assumes "server_ok E D C" "cjson_ok (cjson E)" "key_ok p" "text_ok c"
    and "dir_children (cjson E) (D w) p = Some cs" "c \<notin> set cs"
    and "dentry_room (cjson E) (D w) p (cs @ [c])"
  defines "w' \<equiv> after (add_child_to_dentry E p c) w"
  shows "result_of (add_child_to_dentry E p c) w = 0 \<and>
    result_of (remove_child_from_dentry E p c) w' = 0 \<and>
    dir_children (cjson E) (D (after (remove_child_from_dentry E p c) w')) p = Some cs"
proof -
  note add = add_child_spec [OF assms(1-5)]
  have w': "dir_children (cjson E) (D w') p = Some (cs @ [c])"
    using add(2) assms(7) unfolding w'_def by simp
  have "filter (\<lambda>x. x \<noteq> c) cs = cs"
    using assms(6) by (auto simp: filter_id_conv)
  then show ?thesis
    using add(1) assms(7) remove_child_spec [OF assms(1-3) w', of c] by simp
qed

theorem add_then_remove_child_witness:
  "result_of (remove_child_from_dentry mem_env ''/'' ''a'')
     (after (add_child_to_dentry mem_env ''/'' ''a'') mem_mounted) = 0"
proof -
  have "dir_children ref_cjson (mem_view mem_mounted) ''/'' = Some []"
    using arg_cong [OF mem_mounted_ns, where f = "\<lambda>ns. ns_dirs ns ''/''"]
    by (simp add: root_ns_def ROOT_DIR_STRING_def)
  with mem_mounted_room add_then_remove_child [of mem_env mem_view mem_cas "''/''" "''a''" mem_mounted "[]"]
  show ?thesis by (simp add: key_ok_def text_ok_def has_room_def parts_a)
qed

text \<open>
  C20. \<open>cbfuse_readdir\<close> hands the names of the directory to the filler in order, from the offset
  on, each with the offset of the entry behind it; so a listing that goes on at the offset of
  the last entry it got neither skips nor repeats a name.
\<close>

theorem readdir_lists_from_offset:
  assumes "server_ok E D C" "cjson_ok (cjson E)" "key_ok p"
    and "dir_children (cjson E) (D w) p = Some cs"
  shows "result_of (cbfuse_readdir E p [] collect off) w =
    (0, drop (nat (sint off)) (zip cs (map (\<lambda>i. int i + 1) [0..<length cs])))"
  using readdir_spec [OF assms] by (simp add: entries_from_def add.commute)

theorem readdir_lists_from_offset_witness:
  "result_of (cbfuse_readdir mem_env ''/'' [] collect 0) mem_file = (0, [(''a'', 1)])"
  using readdir_lists_from_offset [of mem_env mem_view mem_cas "''/''" mem_file "[''a'']" 0] mem_file_dir
  by (simp add: key_ok_def)

section \<open>Whatever the server answers\<close>

text \<open>
  C21. A read at an offset that is not negative never leaves a buffer: whatever the server
  answers, however often and with whatever values, and whatever the clock does, the call is free
  of undefined behaviour, copies at most as many bytes as the caller's buffer has, and returns -1
  or the number of bytes it copied. Needed is memory for the copies of the values, that a value is
  an object of C (less than \<open>2 ^ 63\<close> bytes), and a buffer below 2 GiB.
\<close>

theorem read_stays_in_buffer:
  assumes "heap_ok E" "values_fit E" "0 \<le> sint off" "unat n < 2 ^ 31"
  shows "\<exists>b r. result_of (cbfuse_read E p n off) w = Defined (r, b) \<and> length b \<le> unat n \<and>
    (r = - 1 \<or> r = int (length b))"
  unfolding cbfuse_read_def by (rule read_data_results [OF assms])

theorem read_stays_in_buffer_witness:
  "\<exists>b r. result_of (cbfuse_read mem_env ''/a'' 3 1) (mem_with (one_file zero_stat [7, 8])) = Defined (r, b) \<and>
     length b \<le> 3"
proof -
  have "\<exists>b r. result_of (cbfuse_read mem_env ''/a'' 3 1) (mem_with (one_file zero_stat [7, 8])) = Defined (r, b) \<and>
    length b \<le> unat (3 :: size_t) \<and> (r = - 1 \<or> r = int (length b))"
    by (rule read_stays_in_buffer [OF mem_env_heap_ok mem_env_values_fit]) simp_all
  then show ?thesis by auto
qed

section \<open>The start of the program\<close>

text \<open>
  C22. Started by a user other than root with usable options on an empty bucket that can be
  reached, \<open>main\<close> installs the root directory and hands over to FUSE with the arguments for
  single-threaded, foreground operation; its result is that of \<open>fuse_main\<close>.
\<close>

theorem main_mounts_new_bucket:
  assumes "world_ok E D C" "launcher_ok E D L argv args config" "D w = (\<lambda>_. None)"
  shows "\<exists>w'. result_of (main E L argv st) w = Defined (result_of (fuse_main L (args @ [''-s'', ''-f''])) w') \<and>
    abs_ns (cjson E) (D w') = root_ns \<and> readable (cjson E) (D w')"
  by (rule main_mounts [OF assms])

theorem main_mounts_new_bucket_witness:
  "result_of (main mem_env mem_launcher [''cbfuse'', ''/mnt''] some_attr) mem_empty = Defined 0"
  using main_mounts_new_bucket [OF mem_world_ok mem_launcher_ok mem_view_empty]
  by (auto simp: mem_launcher_def)

section \<open>Where the code departs from what it means to do\<close>

text \<open>
  C14. Bytes of the process's heap reach the users of the file system: writing \<open>b\<close> behind the
  start of a file that has no contents yet stores the first bytes of the memory that \<open>malloc\<close>
  returned for the new contents, whatever was left there, and a read of the file from its start
  returns them before \<open>b\<close>, with their number as result.
\<close>

theorem gap_exposes_heap_bytes:
  fixes E :: "'w env"
  assumes "server_ok E D C" "clock_ok E" "heap_ok E" "key_ok p" "stat_at (D w) p = Some s"
    and "D w (block_id p) = None" "b \<noteq> []" "unat off + length b \<le> 20971520"
    and "result_of (malloc E (off + of_nat (length b))) (after (get_block E p) w) = Some mem"
  defines "n \<equiv> of_nat (length b)"
  shows "result_of (cbfuse_write E p b n off) w = Defined (int (length b)) \<and>
    result_of (cbfuse_read E p (off + n) 0) (after (cbfuse_write E p b n off) w)
      = Defined (int (unat off + length b), take (unat off) mem @ b)"
  unfolding n_def by (rule gap_read_back [OF assms(1-9)])

theorem gap_exposes_heap_bytes_witness:
  "result_of (cbfuse_read mem_env ''/a'' 3 0) (after (cbfuse_write mem_env ''/a'' [1] 1 2)
     (mem_with [stat_id ''/a'' \<mapsto> stat_bytes zero_stat])) = Defined (3, [170, 170, 1])"
proof -
  let ?d = "[stat_id ''/a'' \<mapsto> stat_bytes zero_stat]"
  have v: "mem_view (mem_with ?d) = ?d"
    by (rule mem_view_with) (auto simp: fits_def split: if_splits)
  have "replicate 3 (170 :: byte) = [170, 170, 170]" by (simp add: numeral_3_eq_3)
  with gap_exposes_heap_bytes [of mem_env mem_view mem_cas "''/a''" "mem_with ?d" zero_stat "[1]" 2 "[170, 170, 170]"]
  show ?thesis by (simp add: v stat_at_docs)
qed

text \<open>
  C23. A look-up of contents that fails for any reason, a timeout say, counts as a file without
  contents. In a world that behaves but for that, a write to an existing file reports success and
  stores its own bytes, behind a gap of arbitrary bytes up to the offset, as the whole file; the
  size is set to theirs. Whatever the file held before, which is still in the bucket when the
  look-up fails, is lost.
\<close>

theorem failed_lookup_discards_contents:
  assumes "server_ok E D C" "clock_ok E" "heap_ok E" "key_ok p"
    and "answers_instead E D looks_up_contents failed_lookup W"
    and "stat_at (D w) p = Some s" "b \<noteq> []" "unat off + length b \<le> 20971520"
  defines "E' \<equiv> E\<lparr>lcb_wait := W\<rparr>"
  defines "w' \<equiv> after (cbfuse_write E' p b (of_nat (length b)) off) w"
    and "t \<equiv> update_time E p (after (update_block E' p (Some b) (of_nat (length b)) off (Some 0)) w)"
  shows "result_of (cbfuse_write E' p b (of_nat (length b)) off) w = Defined (int (length b)) \<and>
    (\<exists>filling. length filling = unat off \<and>
      D w' = (D w)(block_id p \<mapsto> filling @ b,
        stat_id p \<mapsto> stat_bytes (s\<lparr>st_mtime := tv_sec t, st_mtimensec := tv_nsec t,
          st_size := of_nat (unat off + length b)\<rparr>)))"
  unfolding w'_def t_def E'_def cbfuse_write_def
  by (rule failed_lookup_write [OF assms(1-8)])

theorem failed_lookup_discards_contents_witness:
  "content (mem_view (after (cbfuse_write (mem_env\<lparr>lcb_wait := State slow_wait\<rparr>) ''/a'' [1] 1 0)
     (mem_with (one_file zero_stat [7, 8, 9])))) ''/a'' = [1]"
  using failed_lookup_discards_contents [OF mem_env_server_ok mem_env_clock_ok mem_env_heap_ok
      key_ok_a slow_wait_answers, of "mem_with (one_file zero_stat [7, 8, 9])" zero_stat "[1]" 0]
  by (auto simp: content_def)

text \<open>
  C24. Changes of a listing do overwrite those of another client, unlike changes of a stat (C16):
  when the listing of a directory changes between the look-up and the replacement in
  \<open>add_child_to_dentry\<close>, a name \<open>x\<close> that the other client added is no longer listed, and the
  function reports success.
\<close>

theorem concurrent_listing_change_lost:
  fixes w :: 'w
  assumes "kv_ok E D C" "cjson_ok (cjson E)" "key_ok p" "text_ok c"
  defines "seen \<equiv> D (after (lcb_prepare E (relook_calls p) new_request) w)"
  assumes "dir_children (cjson E) seen p = Some cs" "dentry_room (cjson E) seen p (cs @ [c])"
    and "\<And>t. dir_children (cjson E) (D (after (lcb_prepare E (relist_calls p t) new_request)
        (after (get_dentry_json E p) w))) p = Some cs'"
    and "x \<in> set cs'" "x \<notin> set (cs @ [c])"
  shows "result_of (add_child_to_dentry E p c) w = 0 \<and>
    (\<exists>names. dir_children (cjson E) (D (after (add_child_to_dentry E p c) w)) p = Some names \<and> x \<notin> set names)"
proof -
  have "D (after (lcb_prepare E (relist_calls p t) new_request) (after (get_dentry_json E p) w)) (dentry_id p) \<noteq> None" for t
    using assms(8) [of t] by (auto simp: dir_children_def bind_eq_Some_conv)
  from last_lister_wins [OF assms(1-4) assms(6,7) [unfolded seen_def] this] assms(10)
  show ?thesis by blast
qed

theorem concurrent_listing_change_lost_witness:
  "\<exists>names. dir_children ref_cjson (mem_view (after (add_child_to_dentry shared_env ''/'' ''a'') mem_mounted)) ''/'' = Some names
     \<and> ''b'' \<notin> set names"
proof -
  have seen: "dir_children ref_cjson (mem_view mem_mounted) ''/'' = Some []"
    using arg_cong [OF mem_mounted_ns, where f = "\<lambda>ns. ns_dirs ns ''/''"]
    by (simp add: root_ns_def ROOT_DIR_STRING_def)
  have room: "dentry_room ref_cjson (mem_view mem_mounted) ''/'' ([] @ [''a''])"
    using ref_dentry_room [where d = "mem_view mem_mounted", OF mem_mounted_root]
    by (simp add: ROOT_DIR_STRING_def text_ok_def)
  show ?thesis
    using concurrent_listing_change_lost [OF shared_env_kv_ok, of "''/''" "''a''" mem_mounted "[]" "[''b'']" "''b''"] seen room
    by (simp add: shared_env_calls shared_prepare other_lister_children key_ok_def text_ok_def)
qed

text \<open>
  C25. A \<open>cbfuse_create\<close> in a directory that does not exist fails with \<open>-ENOENT\<close>, yet leaves the
  stat it made: \<open>cbfuse_getattr\<close> then finds a file that no directory lists.
\<close>

theorem failed_create_leaves_stat:
  fixes mode :: mode_t
  assumes "world_ok E D C" "mounted E D (\<lambda>_. fuse_call) w" "fuse_path p" "S_ISREG mode"
    and "stat_at (D w) p = None" "dir_children (cjson E) (D w) (dir_part p) = None"
  defines "w' \<equiv> after (cbfuse_create E p mode) w"
  shows "result_of (cbfuse_create E p mode) w = - ENOENT \<and>
    (\<exists>attr. result_of (cbfuse_getattr E p st) w' = (0, attr)) \<and>
    dir_children (cjson E) (D w') (dir_part p) = None"
proof -
  have r: "run_ns E D (cbfuse_create E p mode) w =
      ns_create (has_room (cjson E) (D w) p) p mode (abs_ns (cjson E) (D w))"
    by (rule create_refines(1) [OF world_okD(1,4) [OF assms(1)] assms(3)
        mounted_readable [OF assms(1,2)]])
  have res: "result_of (cbfuse_create E p mode) w = - ENOENT"
    using arg_cong [OF r, where f = fst] assms(4-6) by (simp add: run_ns_def ns_create_def ns_add_def)
  have dir: "dir_children (cjson E) (D w') (dir_part p) = None"
    using arg_cong [OF r, where f = "\<lambda>x. ns_dirs (snd x) (dir_part p)"] assms(4-6)
    unfolding w'_def by (simp add: run_ns_def ns_create_def ns_add_def)
  obtain s where "stat_at (D w') p = Some s"
    using arg_cong [OF r, where f = "\<lambda>x. ns_mode (snd x) p"] assms(4-6)
    unfolding w'_def by (auto simp: run_ns_def ns_create_def ns_add_def)
  from getattr_found [OF world_okD(2) [OF assms(1)] fuse_path_parts(3) [OF assms(3)] this]
  show ?thesis using res dir by blast
qed

theorem failed_create_leaves_stat_witness:
  "result_of (cbfuse_create mem_env ''/a/b'' 0x81A4) mem_mounted = - ENOENT \<and>
   (\<exists>attr. result_of (cbfuse_getattr mem_env ''/a/b'' some_attr)
     (after (cbfuse_create mem_env ''/a/b'' 0x81A4) mem_mounted) = (0, attr))"
proof -
  have "S_ISREG 0x81A4" by (simp add: S_ISREG_def)
  moreover have "stat_at (mem_view mem_mounted) ''/a/b'' = None"
    using arg_cong [OF mem_mounted_ns, where f = "\<lambda>ns. ns_mode ns ''/a/b''"]
    by (simp add: root_ns_def ROOT_DIR_STRING_def)
  moreover have "dir_children (cjson mem_env) (mem_view mem_mounted) (dir_part ''/a/b'') = None"
    using arg_cong [OF mem_mounted_ns, where f = "\<lambda>ns. ns_dirs ns ''/a''"]
    by (simp add: root_ns_def ROOT_DIR_STRING_def parts_ab)
  ultimately show ?thesis
    using failed_create_leaves_stat [OF mem_world_ok mem_mounted_mounted fuse_path_ab] by blast
qed



end
